(* ===== verification/Prelude.thy ===== *)
theory Prelude
  imports Main "HOL-Library.Word" "HOL-Library.Sublist" "HOL-Library.List_Lexorder"
    "HOL-Library.Char_ord"
begin

text \<open>
  Shared vocabulary of the development: the types that stand for Go's machine integers, byte
  slices and strings, the error values of the program, the outcome of a Go call (a value, an error
  or a panic), the state-passing composition that mirrors \<^verbatim>\<open>if err != nil { return err }\<close>, and the
  list lemmas the component theories share.
\<close>

section \<open>Basic types\<close>

type_synonym u64 = "64 word"
type_synonym u32 = "32 word"
type_synonym byte = "8 word"
type_synonym bytes = "byte list"

text \<open>Go strings are byte strings; \<^typ>\<open>char\<close> is a byte. Keys are compared bytewise, which is the
  lexicographic order that \<^verbatim>\<open>List_Lexorder\<close> and \<^verbatim>\<open>Char_ord\<close> put on \<^typ>\<open>string\<close>.\<close>

type_synonym key = string

text \<open>A \<^verbatim>\<open>context.Context\<close> is used by the program only through polls of \<^verbatim>\<open>ctx.Done()\<close>: it is the
  predicate telling whether the \<^emph>\<open>n\<close>-th poll of a call finds it done.\<close>

type_synonym ctx = "nat \<Rightarrow> bool"

definition ctx_background :: ctx where
  "ctx_background = (\<lambda>_. False)"

text \<open>Two's complement wrap-around of Go's \<^verbatim>\<open>int64\<close>, for mathematical integers.\<close>

definition i64 :: "int \<Rightarrow> int" where
  "i64 x = sint (word_of_int x :: u64)"

abbreviation (input) MaxUint64 :: u64 where
  "MaxUint64 \<equiv> - 1"

section \<open>Errors and outcomes\<close>

text \<open>The sentinel errors of \<^verbatim>\<open>errors.go\<close>, the sentinel errors of the libraries that the program
  compares against or returns, and errors made with \<^verbatim>\<open>errors.New\<close> or \<^verbatim>\<open>fmt.Errorf\<close> by their text.\<close>

datatype error =
    ErrMissingRaftConf | ErrMissingCluster | ErrMissingBaseDir | ErrMissingSchemaConfig
  | ErrNotLeader | ErrProposeTimeout | ErrBatchTooBig | ErrUnknownOp | ErrUnknownProtoMsg
  | ErrKeyNotFound | ErrEmptyKey | ErrReadOnlyTxn | ErrDiscardedTxn | ErrConflict
  | ErrContextDone
  | ErrSnapOutOfDate | ErrCompacted | ErrUnavailable
  | ErrNoSnapshot | ErrProtoNotFound
  | ErrEOF | ErrUnexpectedEOF | ErrCRCMismatch | ErrMetadataConflict | ErrFileNotFound
  | ErrSnapshotMismatch | ErrSnapshotNotFound | ErrSliceOutOfRange | ErrDecoderNotFound
  | ErrEmptySnapshot | ErrExist
  | ErrText string

datatype 'a res = Ok 'a | Err error | Panicked string

fun is_Ok :: "'a res \<Rightarrow> bool" where
  "is_Ok (Ok _) = True"
| "is_Ok (Err _) = False"
| "is_Ok (Panicked _) = False"

fun bindR :: "'a res \<Rightarrow> ('a \<Rightarrow> 'b res) \<Rightarrow> 'b res" where
  "bindR (Ok a) f = f a"
| "bindR (Err e) f = Err e"
| "bindR (Panicked m) f = Panicked m"

text \<open>A call that changes state: the state after it is kept on every path, errors included.\<close>

type_synonym ('s, 'a) call = "'s \<Rightarrow> 'a res \<times> 's"

definition retS :: "'a \<Rightarrow> ('s, 'a) call" where
  "retS a s = (Ok a, s)"

definition failS :: "error \<Rightarrow> ('s, 'a) call" where
  "failS e s = (Err e, s)"

definition panicS :: "string \<Rightarrow> ('s, 'a) call" where
  "panicS m s = (Panicked m, s)"

definition liftR :: "'a res \<Rightarrow> ('s, 'a) call" where
  "liftR r s = (r, s)"

definition bindS :: "('s, 'a) call \<Rightarrow> ('a \<Rightarrow> ('s, 'b) call) \<Rightarrow> ('s, 'b) call" where
  "bindS m f s =
     (case m s of
        (Ok a, s') \<Rightarrow> f a s'
      | (Err e, s') \<Rightarrow> (Err e, s')
      | (Panicked p, s') \<Rightarrow> (Panicked p, s'))"

text \<open>The panic of the Go runtime on a nil pointer.\<close>

definition nilDeref :: string where
  "nilDeref = ''invalid memory address or nil pointer dereference''"

named_theorems call_simps \<open>unfolding of state-passing calls\<close>

lemmas call_defs [call_simps] = retS_def failS_def panicS_def liftR_def bindS_def

lemma bindR_cong [fundef_cong]:
  "r = r' \<Longrightarrow> (\<And>a. r' = Ok a \<Longrightarrow> f a = g a) \<Longrightarrow> bindR r f = bindR r' g"
  by (cases r') auto

lemma bindR_Ok_iff: "bindR r f = Ok b \<longleftrightarrow> (\<exists>a. r = Ok a \<and> f a = Ok b)"
  by (cases r) auto

lemma bindS_Ok_iff:
  "bindS m f s = (Ok b, t) \<longleftrightarrow> (\<exists>a u. m s = (Ok a, u) \<and> f a u = (Ok b, t))"
  by (auto simp: bindS_def split: prod.splits res.splits)

lemma bindS_OkE:
  assumes "bindS m f s = (Ok b, t)"
  obtains a u where "m s = (Ok a, u)" and "f a u = (Ok b, t)"
  using assms by (auto simp: bindS_Ok_iff)

lemma bindS_ret [simp]: "bindS (retS a) f = f a"
  by (rule ext) (simp add: call_simps)

lemma bindS_assoc: "bindS (bindS m f) g = bindS m (\<lambda>a. bindS (f a) g)"
  by (rule ext) (auto simp: bindS_def split: prod.splits res.splits)

text \<open>A call that may wait for other goroutines: \<^const>\<open>None\<close> when it does not return unless one of them acts.\<close>

type_synonym ('s, 'a) proc = "'s \<Rightarrow> ('a res \<times> 's) option"

definition sure :: "('s, 'a) call \<Rightarrow> ('s, 'a) proc" where
  "sure m s = Some (m s)"

definition retP :: "'a \<Rightarrow> ('s, 'a) proc" where
  "retP a s = Some (Ok a, s)"

definition bindP :: "('s, 'a) proc \<Rightarrow> ('a \<Rightarrow> ('s, 'b) proc) \<Rightarrow> ('s, 'b) proc" where
  "bindP m f s =
     (case m s of
        None \<Rightarrow> None
      | Some (r, s') \<Rightarrow> (case r of Ok a \<Rightarrow> f a s' | Err e \<Rightarrow> Some (Err e, s') | Panicked p \<Rightarrow> Some (Panicked p, s')))"

lemma bindP_Ok_iff:
  "bindP m f s = Some (Ok b, t) \<longleftrightarrow> (\<exists>a u. m s = Some (Ok a, u) \<and> f a u = Some (Ok b, t))"
  by (auto simp: bindP_def split: option.splits prod.splits res.splits)

lemma sure_Some_iff [simp]: "sure m s = Some x \<longleftrightarrow> m s = x" and sure_not_None [simp]: "sure m s \<noteq> None"
  by (simp_all add: sure_def)

lemma retP_Some_iff [simp]: "retP a s = Some x \<longleftrightarrow> x = (Ok a, s)" and retP_not_None [simp]: "retP a s \<noteq> None"
  by (auto simp: retP_def)

text \<open>What holds of the state after a call, on every path.\<close>

definition ensures :: "('s \<Rightarrow> bool) \<Rightarrow> ('s, 'a) call \<Rightarrow> ('s \<Rightarrow> bool) \<Rightarrow> bool" where
  "ensures P f Q \<longleftrightarrow> (\<forall>s. P s \<longrightarrow> Q (snd (f s)))"

named_theorems ensures_intros \<open>rules for what holds after a call\<close>

lemma ensures_ret [ensures_intros]: "ensures P (retS a) P"
  by (simp add: ensures_def retS_def)

lemma ensures_bind: "ensures P f Q \<Longrightarrow> (\<And>a. ensures Q (g a) Q) \<Longrightarrow> ensures P (bindS f g) Q"
  by (fastforce simp: ensures_def bindS_def split: prod.splits res.splits)

lemma ensures_if [ensures_intros]: "(b \<Longrightarrow> ensures P f Q) \<Longrightarrow> (\<not> b \<Longrightarrow> ensures P g Q) \<Longrightarrow> ensures P (if b then f else g) Q"
  by simp

definition ensuresP :: "('s \<Rightarrow> bool) \<Rightarrow> ('s, 'a) proc \<Rightarrow> ('s \<Rightarrow> bool) \<Rightarrow> bool" where
  "ensuresP P f Q \<longleftrightarrow> (\<forall>s r s'. P s \<longrightarrow> f s = Some (r, s') \<longrightarrow> Q s')"

lemma ensuresP_ret [ensures_intros]: "ensuresP P (retP a) P"
  by (simp add: ensuresP_def)

lemma ensuresP_sure [ensures_intros]: "ensures P f Q \<Longrightarrow> ensuresP P (sure f) Q"
  by (auto simp: ensuresP_def ensures_def dest: spec)

lemma ensuresP_bind: "ensuresP P f Q \<Longrightarrow> (\<And>a. ensuresP Q (g a) Q) \<Longrightarrow> ensuresP P (bindP f g) Q"
  unfolding ensuresP_def bindP_def by (auto split: option.splits prod.splits res.splits)

lemma ensuresP_if [ensures_intros]: "(b \<Longrightarrow> ensuresP P f Q) \<Longrightarrow> (\<not> b \<Longrightarrow> ensuresP P g Q) \<Longrightarrow> ensuresP P (if b then f else g) Q"
  by simp

lemma ensuresP_option [ensures_intros]:
  "(p = None \<Longrightarrow> ensuresP P f Q) \<Longrightarrow> (\<And>x. p = Some x \<Longrightarrow> ensuresP P (g x) Q) \<Longrightarrow>
    ensuresP P (case p of None \<Rightarrow> f | Some x \<Rightarrow> g x) Q"
  by (cases p) simp_all

section \<open>Words\<close>

lemma unat_exp: "n < LENGTH('a) \<Longrightarrow> unat (2 ^ n :: 'a::len word) = 2 ^ n"
  by (metis of_nat_numeral of_nat_power power_strict_increasing_iff one_less_numeral_iff semiring_norm(76)
      take_bit_nat_eq_self unsigned_of_nat)

lemma word_less_exp_iff:
  fixes w :: "'a::len word"
  assumes "n < LENGTH('a)"
  shows "w < 2 ^ n \<longleftrightarrow> take_bit n w = w"
proof -
  have "w < 2 ^ n \<longleftrightarrow> unat w < 2 ^ n" using assms by (simp add: word_less_nat_alt unat_exp)
  also have "\<dots> \<longleftrightarrow> take_bit n (unat w) = unat w" by (simp add: take_bit_nat_eq_self_iff)
  also have "\<dots> \<longleftrightarrow> take_bit n w = w" by (metis unsigned_take_bit_eq word_unat_eq_iff)
  finally show ?thesis .
qed

lemma bit_imp_not_less_exp:
  fixes w :: "'a::len word"
  assumes "bit w n"
  shows "\<not> w < 2 ^ n"
  using assms word_less_exp_iff [of n w] bit_imp_le_length [OF assms] by (metis bit_take_bit_iff less_irrefl)

section \<open>Lists\<close>

lemma map_of_filter_key:
  "map_of (filter (\<lambda>(k, v). P k) kvs) k = (if P k then map_of kvs k else None)"
  by (induction kvs) auto

lemma sorted_map_fst_filter:
  "sorted (map fst kvs) \<Longrightarrow> sorted (map fst (filter P kvs))"
  by (rule sorted_filter)

lemma distinct_map_fst_filter:
  "distinct (map fst kvs) \<Longrightarrow> distinct (map fst (filter P kvs))"
  by (induction kvs) auto

end
