(* ===== verification/Utils.thy ===== *)
theory Utils
  imports Prelude
begin

text \<open>
  \<^verbatim>\<open>utils/utils.go\<close>: the big-endian encoding of counters and of the persisted timestamp bound.
\<close>

definition Uint64ToBytes :: "u64 \<Rightarrow> bytes" where
  "Uint64ToBytes v =
     [ucast (drop_bit 56 v), ucast (drop_bit 48 v), ucast (drop_bit 40 v), ucast (drop_bit 32 v),
      ucast (drop_bit 24 v), ucast (drop_bit 16 v), ucast (drop_bit 8 v), ucast v]"

unbundle bit_operations_syntax

definition BytesToUint64 :: "bytes \<Rightarrow> u64 res" where
  "BytesToUint64 b =
     (if length b < 8 then Panicked ''index out of range''
      else Ok (ucast (b ! 7) OR push_bit 8 (ucast (b ! 6)) OR push_bit 16 (ucast (b ! 5))
               OR push_bit 24 (ucast (b ! 4)) OR push_bit 32 (ucast (b ! 3))
               OR push_bit 40 (ucast (b ! 2)) OR push_bit 48 (ucast (b ! 1))
               OR push_bit 56 (ucast (b ! 0))))"

lemma bytes_of_word_join:
  fixes v :: u64
  shows "ucast (ucast v :: byte) OR push_bit 8 (ucast (ucast (drop_bit 8 v) :: byte))
      OR push_bit 16 (ucast (ucast (drop_bit 16 v) :: byte))
      OR push_bit 24 (ucast (ucast (drop_bit 24 v) :: byte))
      OR push_bit 32 (ucast (ucast (drop_bit 32 v) :: byte))
      OR push_bit 40 (ucast (ucast (drop_bit 40 v) :: byte))
      OR push_bit 48 (ucast (ucast (drop_bit 48 v) :: byte))
      OR push_bit 56 (ucast (ucast (drop_bit 56 v) :: byte)) = v" (is "?l = v")
proof (rule bit_word_eqI)
  fix n assume "n < LENGTH(64)"
  then consider "n < 8" | "8 \<le> n" "n < 16" | "16 \<le> n" "n < 24" | "24 \<le> n" "n < 32"
    | "32 \<le> n" "n < 40" | "40 \<le> n" "n < 48" | "48 \<le> n" "n < 56" | "56 \<le> n" "n < 64"
    by (simp, linarith)
  then show "bit ?l n \<longleftrightarrow> bit v n"
    by cases (simp_all add: bit_simps less_diff_conv2)
qed

lemma BytesToUint64_Uint64ToBytes [simp]: "BytesToUint64 (Uint64ToBytes v) = Ok v"
  using bytes_of_word_join [of v]
  by (simp add: BytesToUint64_def Uint64ToBytes_def numeral_eq_Suc)

lemma length_Uint64ToBytes [simp]: "length (Uint64ToBytes v) = 8"
  by (simp add: Uint64ToBytes_def)

lemma Uint64ToBytes_inject [simp]: "Uint64ToBytes v = Uint64ToBytes w \<longleftrightarrow> v = w"
  by (metis BytesToUint64_Uint64ToBytes res.inject(1))

end
