(* ===== verification/Types.thy ===== *)
theory Types
  imports Utils "HOL-Library.AList"
begin

text \<open>
  The package \<^verbatim>\<open>types\<close>: the \<^verbatim>\<open>Command\<close> message replicated through the Raft log
  (\<^verbatim>\<open>types.pb.go\<close>, \<^verbatim>\<open>types.proto\<close>), its constructors and accessors (\<^verbatim>\<open>methods.go\<close>), and the
  descriptor store with the field-level merge of Protobuf messages (\<^verbatim>\<open>dynamic.go\<close>).
  The Protobuf runtime and the JSON codec are parameters: the records \<open>proto_api\<close>,
  \<open>desc_api\<close> and \<open>json_api\<close> below.
\<close>

section \<open>Commands\<close>

datatype CommandType =
    UNKNOWN | SET | DELETE | DECR_BY | INCR_BY | TRANSACTION | DELETE_BY_PREFIX | UPDATE
  | UNRECOGNIZED_TYPE int

datatype UpdateDeltaType = UNKNOWN_DELTA | JSON | PROTOBUF | UNRECOGNIZED_DELTA int

record UpdateMeta =
  meta_UpdateDeltaType :: UpdateDeltaType
  meta_MessageName :: string

text \<open>A \<^verbatim>\<open>time.Duration\<close>, in nanoseconds.\<close>

type_synonym duration = int

datatype Command = Command
  (cmd_Id: string) (cmd_Type: CommandType) (cmd_Key: key) (cmd_Value: bytes) (cmd_Prefix: key)
  (cmd_IncrOrDecrDelta: u64) (cmd_Ttl: "duration option") (cmd_ReadTs: u64) (cmd_CommitTs: u64)
  (cmd_UpdateMeta: "UpdateMeta option") (cmd_SubCommands: "Command list")

definition empty_command :: "string \<Rightarrow> CommandType \<Rightarrow> Command" where
  "empty_command cid ty = Command cid ty [] [] [] 0 None 0 0 None []"

fun set_SubCommands :: "Command list \<Rightarrow> Command \<Rightarrow> Command" where
  "set_SubCommands subs (Command i t k v p d ttl r c m _) = Command i t k v p d ttl r c m subs"

fun set_ReadTs :: "u64 \<Rightarrow> Command \<Rightarrow> Command" where
  "set_ReadTs rts (Command i t k v p d ttl _ c m subs) = Command i t k v p d ttl rts c m subs"

fun set_CommitTs :: "u64 \<Rightarrow> Command \<Rightarrow> Command" where
  "set_CommitTs cts (Command i t k v p d ttl r _ m subs) = Command i t k v p d ttl r cts m subs"

text \<open>The constructors take the fresh identifier that \<^verbatim>\<open>uuid.New\<close> returns as an argument; a
  variadic \<^verbatim>\<open>ttl ...time.Duration\<close> is a list of which only the first element is used.\<close>

definition opt_ttl :: "duration list \<Rightarrow> duration option" where
  "opt_ttl ttl = (if length ttl > 0 then Some (ttl ! 0) else None)"

definition NewSetCommand :: "string \<Rightarrow> key \<Rightarrow> bytes \<Rightarrow> duration list \<Rightarrow> Command" where
  "NewSetCommand cid key value ttl =
     Command cid SET key value [] 0 (opt_ttl ttl) 0 0 None []"

definition NewUpdateCommand ::
    "string \<Rightarrow> key \<Rightarrow> bytes \<Rightarrow> UpdateDeltaType \<Rightarrow> string \<Rightarrow> duration list \<Rightarrow> Command" where
  "NewUpdateCommand cid key delta deltaType msgName ttl =
     Command cid UPDATE key delta [] 0 (opt_ttl ttl) 0 0
       (Some \<lparr>meta_UpdateDeltaType = deltaType, meta_MessageName = msgName\<rparr>) []"

definition NewDeleteCommand :: "string \<Rightarrow> key \<Rightarrow> Command" where
  "NewDeleteCommand cid key = Command cid DELETE key [] [] 0 None 0 0 None []"

definition NewDeleteByPrefixCommand :: "string \<Rightarrow> key \<Rightarrow> Command" where
  "NewDeleteByPrefixCommand cid pre = Command cid DELETE_BY_PREFIX [] [] pre 0 None 0 0 None []"

definition NewIncrByCommand :: "string \<Rightarrow> key \<Rightarrow> u64 \<Rightarrow> Command" where
  "NewIncrByCommand cid key delta = Command cid INCR_BY key [] [] delta None 0 0 None []"

definition NewDecrByCommand :: "string \<Rightarrow> key \<Rightarrow> u64 \<Rightarrow> Command" where
  "NewDecrByCommand cid key delta = Command cid DECR_BY key [] [] delta None 0 0 None []"

definition NewTransactionCommand :: "string \<Rightarrow> Command" where
  "NewTransactionCommand cid = Command cid TRANSACTION [] [] [] 0 None 0 0 None []"

definition AddSubCommand :: "Command option \<Rightarrow> (Command, unit) call" where
  "AddSubCommand subCmd c =
     (case subCmd of
        None \<Rightarrow> (Panicked ''dev stage panic: invalid sub command'', c)
      | Some sc \<Rightarrow>
          if cmd_Type sc = TRANSACTION
          then (Panicked ''dev stage panic: invalid sub command'', c)
          else (Ok (), set_SubCommands (cmd_SubCommands c @ [sc]) c))"

section \<open>The Protobuf runtime and the JSON codec\<close>

text \<open>What the program calls of \<^verbatim>\<open>google.golang.org/protobuf\<close> on dynamic messages of type \<open>'m\<close>
  with field descriptors of type \<open>'fd\<close>: the wire codec, \<^verbatim>\<open>proto.Merge\<close>, and the reflection calls
  \<^verbatim>\<open>Descriptor\<close>, \<^verbatim>\<open>Range\<close> (the populated fields, in the order of iteration), \<^verbatim>\<open>IsList\<close> and
  \<^verbatim>\<open>Mutable(fd).List().Truncate(0)\<close>.\<close>

record ('m, 'fd) proto_api =
  proto_Marshal :: "'m \<Rightarrow> bytes res"
  proto_Unmarshal :: "bytes \<Rightarrow> 'm \<Rightarrow> 'm res"
  proto_MessageName :: "'m \<Rightarrow> string"
  proto_Reset :: "'m \<Rightarrow> 'm"
  proto_Merge :: "'m \<Rightarrow> 'm \<Rightarrow> 'm"
  proto_Descriptor :: "'m \<Rightarrow> string"
  proto_Range :: "'m \<Rightarrow> 'fd list"
  proto_IsList :: "'fd \<Rightarrow> bool"
  proto_Truncate :: "'fd \<Rightarrow> 'm \<Rightarrow> 'm"

text \<open>The lookup of a message type in a set of file descriptors (\<^verbatim>\<open>protodesc.NewFiles\<close>,
  \<^verbatim>\<open>FindDescriptorByName\<close>, the assertion to \<^verbatim>\<open>MessageDescriptor\<close>, \<^verbatim>\<open>dynamicpb.NewMessage\<close>).\<close>

record ('set, 'files, 'desc, 'm) desc_api =
  desc_NewFiles :: "'set \<Rightarrow> 'files res"
  desc_FindDescriptorByName :: "'files \<Rightarrow> string \<Rightarrow> 'desc res"
  desc_asMessage :: "'desc \<Rightarrow> 'm option"

text \<open>\<^verbatim>\<open>encoding/json\<close> on a \<^verbatim>\<open>map[string]any\<close>. A map is a list of entries with distinct keys, whose order
  carries no meaning; \<^const>\<open>None\<close> is the nil map, which decoding \<^verbatim>\<open>null\<close> into a map variable leaves.\<close>

type_synonym 'j jmap = "(string \<times> 'j) list option"

record 'j json_api =
  json_Marshal :: "'j jmap \<Rightarrow> bytes res"
  json_Unmarshal :: "bytes \<Rightarrow> 'j jmap res"

text \<open>\<^verbatim>\<open>maps.Copy\<close>: assigning into a nil map panics.\<close>

definition maps_Copy :: "'j jmap \<Rightarrow> 'j jmap \<Rightarrow> 'j jmap res" where
  "maps_Copy dst src =
     (case src of
        None \<Rightarrow> Ok dst
      | Some kvs \<Rightarrow>
          if kvs = [] then Ok dst
          else case dst of
                 None \<Rightarrow> Panicked ''assignment to entry in nil map''
               | Some m \<Rightarrow> Ok (Some (fold (\<lambda>(k, v). AList.update k v) kvs m)))"

section \<open>The descriptor store\<close>

text \<open>The package-level singleton \<^verbatim>\<open>descriptorsCache\<close>; \<^const>\<open>None\<close> before the first call of
  \<open>NewProtoDescriptorStore\<close>, whose \<^verbatim>\<open>sync.Once\<close> makes later calls no-ops.\<close>

type_synonym 'set desc_store = "'set list option"

definition NewProtoDescriptorStore :: "'set list \<Rightarrow> 'set desc_store \<Rightarrow> 'set desc_store" where
  "NewProtoDescriptorStore s cache = (case cache of None \<Rightarrow> Some s | Some old \<Rightarrow> Some old)"

definition GetProtoDescriptorStore :: "'set desc_store \<Rightarrow> 'set desc_store" where
  "GetProtoDescriptorStore cache = cache"

fun IsValidMessage_loop ::
    "('set, 'files, 'desc, 'm) desc_api \<Rightarrow> string \<Rightarrow> 'set list \<Rightarrow> bool res" where
  "IsValidMessage_loop D msgName [] = Ok False"
| "IsValidMessage_loop D msgName (st # sets) =
     (case desc_NewFiles D st of
        Err e \<Rightarrow> Err e
      | Panicked p \<Rightarrow> Panicked p
      | Ok files \<Rightarrow>
          (case desc_FindDescriptorByName D files msgName of
             Err e \<Rightarrow> if e = ErrProtoNotFound then IsValidMessage_loop D msgName sets else Err e
           | Panicked p \<Rightarrow> Panicked p
           | Ok desc \<Rightarrow>
               (case desc_asMessage D desc of
                  Some _ \<Rightarrow> Ok True
                | None \<Rightarrow> IsValidMessage_loop D msgName sets)))"

definition IsValidMessage ::
    "('set, 'files, 'desc, 'm) desc_api \<Rightarrow> 'set desc_store \<Rightarrow> string \<Rightarrow> bool res" where
  "IsValidMessage D p msgName =
     (case p of
        None \<Rightarrow> Panicked ''invalid memory address or nil pointer dereference''
      | Some sets \<Rightarrow> IsValidMessage_loop D msgName sets)"

fun GetMessage_loop ::
    "('set, 'files, 'desc, 'm) desc_api \<Rightarrow> string \<Rightarrow> 'set list \<Rightarrow> 'm res" where
  "GetMessage_loop D msgName [] = Err ErrProtoNotFound"
| "GetMessage_loop D msgName (st # sets) =
     (case desc_NewFiles D st of
        Err e \<Rightarrow> Err e
      | Panicked p \<Rightarrow> Panicked p
      | Ok files \<Rightarrow>
          (case desc_FindDescriptorByName D files msgName of
             Err e \<Rightarrow> if e = ErrProtoNotFound then GetMessage_loop D msgName sets else Err e
           | Panicked p \<Rightarrow> Panicked p
           | Ok desc \<Rightarrow>
               (case desc_asMessage D desc of
                  Some md \<Rightarrow> Ok md
                | None \<Rightarrow> GetMessage_loop D msgName sets)))"

definition GetMessageFromDescriptorSet ::
    "('set, 'files, 'desc, 'm) desc_api \<Rightarrow> 'set desc_store \<Rightarrow> string \<Rightarrow> 'm res" where
  "GetMessageFromDescriptorSet D p msgName =
     (case p of
        None \<Rightarrow> Panicked ''invalid memory address or nil pointer dereference''
      | Some sets \<Rightarrow> GetMessage_loop D msgName sets)"

section \<open>Merging and decoding deltas\<close>

fun clear_lists :: "('m, 'fd) proto_api \<Rightarrow> 'fd list \<Rightarrow> 'm \<Rightarrow> 'm" where
  "clear_lists P [] original = original"
| "clear_lists P (fd # fds) original =
     clear_lists P fds (if proto_IsList P fd then proto_Truncate P fd original else original)"

definition MergeProtobufMessages :: "('m, 'fd) proto_api \<Rightarrow> 'm \<Rightarrow> 'm \<Rightarrow> 'm res" where
  "MergeProtobufMessages P original delta =
     (if proto_Descriptor P original \<noteq> proto_Descriptor P delta
      then Err (ErrText ''message types do not match for merging'')
      else Ok (proto_Merge P (clear_lists P (proto_Range P delta) original) delta))"

text \<open>\<^verbatim>\<open>reflect.TypeOf\<close> of a clone equals that of the message it was cloned from, so the second
  guard of \<^verbatim>\<open>MergeProtoDelta\<close> never fires and is not represented.\<close>

definition MergeProtoDelta :: "('m, 'fd) proto_api \<Rightarrow> bytes \<Rightarrow> 'm \<Rightarrow> bytes res" where
  "MergeProtoDelta P stored delta =
     bindR (proto_Unmarshal P stored (proto_Reset P delta)) (\<lambda>base.
     bindR (MergeProtobufMessages P base delta) (\<lambda>merged.
     proto_Marshal P merged))"

datatype ('j, 'm) delta = JsonDelta "'j jmap" | ProtoDelta 'm

definition UnmarshalUpdateDelta ::
    "'j json_api \<Rightarrow> ('m, 'fd) proto_api \<Rightarrow> ('set, 'files, 'desc, 'm) desc_api \<Rightarrow> 'set desc_store
     \<Rightarrow> Command \<Rightarrow> ('j, 'm) delta res" where
  "UnmarshalUpdateDelta J P D cache c =
     (case cmd_UpdateMeta c of
        None \<Rightarrow> Err (ErrText ''invalid update command'')
      | Some meta \<Rightarrow>
          if cmd_Type c \<noteq> UPDATE \<or> meta_UpdateDeltaType meta = UNKNOWN_DELTA
          then Err (ErrText ''invalid update command'')
          else if meta_UpdateDeltaType meta = JSON
          then bindR (json_Unmarshal J (cmd_Value c)) (\<lambda>m. Ok (JsonDelta m))
          else
            bindR (GetMessageFromDescriptorSet D (GetProtoDescriptorStore cache)
                     (meta_MessageName meta)) (\<lambda>msg.
            bindR (proto_Unmarshal P (cmd_Value c) msg) (\<lambda>msg'. Ok (ProtoDelta msg'))))"

text \<open>The wire format of commands (\<^verbatim>\<open>proto.Marshal\<close>, \<^verbatim>\<open>proto.Unmarshal\<close> on the generated type).\<close>

record cmd_codec =
  codec_Marshal :: "Command \<Rightarrow> bytes res"
  codec_Unmarshal :: "bytes \<Rightarrow> Command res"

definition Encode :: "cmd_codec \<Rightarrow> Command \<Rightarrow> bytes res" where
  "Encode C c = codec_Marshal C c"

definition DecodeCommand :: "cmd_codec \<Rightarrow> bytes \<Rightarrow> Command res" where
  "DecodeCommand C data = bindR (codec_Unmarshal C data) (\<lambda>c. Ok c)"

section \<open>Concrete codecs\<close>

text \<open>Small instances of the parameters, on which the hypotheses of the properties are checked.\<close>

definition demo_json :: "unit json_api" where
  "demo_json = \<lparr>json_Marshal = (\<lambda>m. Ok []), json_Unmarshal = (\<lambda>b. Ok (Some []))\<rparr>"

definition demo_proto :: "(bytes, unit) proto_api" where
  "demo_proto = \<lparr>proto_Marshal = Ok, proto_Unmarshal = (\<lambda>b _. Ok b), proto_MessageName = (\<lambda>_. ''m''),
     proto_Reset = (\<lambda>_. []), proto_Merge = (@), proto_Descriptor = (\<lambda>_. ''m''), proto_Range = (\<lambda>_. []),
     proto_IsList = (\<lambda>_. False), proto_Truncate = (\<lambda>_ m. m)\<rparr>"

definition demo_desc :: "(string list, string list, string, bytes) desc_api" where
  "demo_desc = \<lparr>desc_NewFiles = Ok, desc_FindDescriptorByName = (\<lambda>fs n. if n \<in> set fs then Ok n else Err ErrProtoNotFound),
     desc_asMessage = (\<lambda>_. Some [])\<rparr>"

section \<open>Lemmas\<close>

lemma set_SubCommands_simps [simp]:
  "cmd_SubCommands (set_SubCommands subs c) = subs"
  "cmd_Type (set_SubCommands subs c) = cmd_Type c"
  "cmd_Id (set_SubCommands subs c) = cmd_Id c"
  "cmd_ReadTs (set_SubCommands subs c) = cmd_ReadTs c"
  "cmd_CommitTs (set_SubCommands subs c) = cmd_CommitTs c"
  by (cases c; simp)+

lemma set_ReadTs_simps [simp]:
  "cmd_ReadTs (set_ReadTs r c) = r"
  "cmd_CommitTs (set_ReadTs r c) = cmd_CommitTs c"
  "cmd_SubCommands (set_ReadTs r c) = cmd_SubCommands c"
  "cmd_Type (set_ReadTs r c) = cmd_Type c"
  "cmd_Id (set_ReadTs r c) = cmd_Id c"
  "cmd_Key (set_ReadTs r c) = cmd_Key c"
  "cmd_Value (set_ReadTs r c) = cmd_Value c"
  "cmd_Prefix (set_ReadTs r c) = cmd_Prefix c"
  "cmd_IncrOrDecrDelta (set_ReadTs r c) = cmd_IncrOrDecrDelta c"
  "cmd_Ttl (set_ReadTs r c) = cmd_Ttl c"
  "cmd_UpdateMeta (set_ReadTs r c) = cmd_UpdateMeta c"
  by (cases c; simp)+

lemma set_CommitTs_simps [simp]:
  "cmd_CommitTs (set_CommitTs r c) = r"
  "cmd_ReadTs (set_CommitTs r c) = cmd_ReadTs c"
  "cmd_SubCommands (set_CommitTs r c) = cmd_SubCommands c"
  "cmd_Type (set_CommitTs r c) = cmd_Type c"
  "cmd_Id (set_CommitTs r c) = cmd_Id c"
  "cmd_Key (set_CommitTs r c) = cmd_Key c"
  "cmd_Value (set_CommitTs r c) = cmd_Value c"
  "cmd_Prefix (set_CommitTs r c) = cmd_Prefix c"
  "cmd_IncrOrDecrDelta (set_CommitTs r c) = cmd_IncrOrDecrDelta c"
  "cmd_Ttl (set_CommitTs r c) = cmd_Ttl c"
  "cmd_UpdateMeta (set_CommitTs r c) = cmd_UpdateMeta c"
  by (cases c; simp)+

lemmas new_command_defs = NewSetCommand_def NewUpdateCommand_def NewDeleteCommand_def
  NewDeleteByPrefixCommand_def NewIncrByCommand_def NewDecrByCommand_def NewTransactionCommand_def

text \<open>Both lookups walk the descriptor sets alike: a name is valid exactly when the message can be
  made.\<close>

lemma loop_valid_iff:
  "IsValidMessage_loop D n sets = Ok True \<longleftrightarrow> (\<exists>m. GetMessage_loop D n sets = Ok m)"
  by (induction sets) (auto split: res.splits option.splits)

end
