(* ===== verification/Watermark.thy ===== *)
theory Watermark
  imports Prelude
begin

text \<open>
  BadgerDB's \<^verbatim>\<open>y.WaterMark\<close>, which the timestamp oracle uses for its read and commit marks. It is
  library code: the operations are the parameter record \<open>watermark_api\<close>, and the locale
  \<open>watermark\<close> states its documentation: an index is finished once \<^verbatim>\<open>Done\<close> has been called on it as
  often as \<^verbatim>\<open>Begin\<close>, and \<^verbatim>\<open>DoneUntil\<close> never passes an index that is not finished.
\<close>

record 'w watermark_api =
  wm_Init :: "'w \<Rightarrow> 'w"
  wm_Begin :: "u64 \<Rightarrow> 'w \<Rightarrow> 'w"
  wm_Done :: "u64 \<Rightarrow> 'w \<Rightarrow> 'w"
  wm_DoneUntil :: "'w \<Rightarrow> u64"
  wm_SetDoneUntil :: "u64 \<Rightarrow> 'w \<Rightarrow> 'w"

text \<open>\<open>pend w k\<close> counts the calls of \<^verbatim>\<open>Begin k\<close> that are not yet matched by a \<^verbatim>\<open>Done k\<close>;
  \<open>top w\<close> is the largest index begun or set so far. \<^verbatim>\<open>SetDoneUntil\<close> may only be used while nothing
  is pending, as its documentation asks.\<close>

locale watermark =
  fixes W :: "'w watermark_api"
    and pend :: "'w \<Rightarrow> u64 \<Rightarrow> nat"
    and top :: "'w \<Rightarrow> u64"
    and wm_ok :: "'w \<Rightarrow> bool"
  assumes pend_Begin: "pend (wm_Begin W k w) = (pend w)(k := Suc (pend w k))"
    and pend_Done: "0 < pend w k \<Longrightarrow> pend (wm_Done W k w) = (pend w)(k := pend w k - 1)"
    and top_Begin: "top (wm_Begin W k w) = max (top w) k"
    and top_Done: "top (wm_Done W k w) = top w"
    and DoneUntil_top: "wm_ok w \<Longrightarrow> wm_DoneUntil W w \<le> top w"
    and DoneUntil_pending: "wm_ok w \<Longrightarrow> 0 < pend w k \<Longrightarrow> wm_DoneUntil W w \<le> k"
    and ok_Begin: "wm_ok w \<Longrightarrow> top w \<le> k \<Longrightarrow> wm_ok (wm_Begin W k w)"
    and ok_Done: "wm_ok w \<Longrightarrow> 0 < pend w k \<Longrightarrow> wm_ok (wm_Done W k w)"
    and ok_Set: "(\<forall>j. pend w j = 0) \<Longrightarrow> wm_ok (wm_SetDoneUntil W k w)
        \<and> top (wm_SetDoneUntil W k w) = k \<and> pend (wm_SetDoneUntil W k w) = pend w
        \<and> wm_DoneUntil W (wm_SetDoneUntil W k w) = k"
    and pend_Init: "pend (wm_Init W w) = (\<lambda>_. 0)"
begin

text \<open>Beginning and finishing an index the same number of times leaves the others as they were.\<close>

lemma pend_Begin_Done: "pend (wm_Done W k (wm_Begin W k w)) = pend w"
  by (simp add: pend_Begin pend_Done)

lemma Begin_holds_mark:
  "wm_ok w \<Longrightarrow> top w \<le> k \<Longrightarrow> wm_DoneUntil W (wm_Begin W k w) \<le> k"
  by (rule DoneUntil_pending) (simp_all add: pend_Begin ok_Begin)

end

section \<open>A watermark that keeps the pending indices in a list\<close>

record mark_state =
  ms_pending :: "u64 list"
  ms_until :: u64
  ms_top :: u64

definition list_watermark :: "mark_state watermark_api" where
  "list_watermark =
     \<lparr> wm_Init = (\<lambda>w. w\<lparr>ms_pending := []\<rparr>),
       wm_Begin = (\<lambda>k w. w\<lparr>ms_pending := k # ms_pending w, ms_top := max (ms_top w) k\<rparr>),
       wm_Done = (\<lambda>k w. let p = remove1 k (ms_pending w) in
                    w\<lparr>ms_pending := p, ms_until := (if p = [] then ms_top w else ms_until w)\<rparr>),
       wm_DoneUntil = ms_until,
       wm_SetDoneUntil = (\<lambda>k w. w\<lparr>ms_until := k, ms_top := k\<rparr>) \<rparr>"

definition list_mark_ok :: "mark_state \<Rightarrow> bool" where
  "list_mark_ok w \<longleftrightarrow> ms_until w \<le> ms_top w \<and> (\<forall>k \<in> set (ms_pending w). ms_until w \<le> k)"

definition list_mark_pend :: "mark_state \<Rightarrow> u64 \<Rightarrow> nat" where
  "list_mark_pend w k = count_list (ms_pending w) k"

lemma count_list_remove1:
  "k \<in> set xs \<Longrightarrow> count_list (remove1 k xs) j = (if j = k then count_list xs k - 1 else count_list xs j)"
  by (induction xs) auto

lemma count_list_pos: "0 < count_list xs k \<longleftrightarrow> k \<in> set xs"
  by (metis count_list_0_iff gr0I less_numeral_extra(3))

interpretation lw: watermark list_watermark list_mark_pend ms_top list_mark_ok
proof (unfold_locales, goal_cases)
  case (1 k w) show ?case by (auto simp: list_watermark_def list_mark_pend_def fun_eq_iff)
next
  case (2 w k) then show ?case
    by (auto simp: list_watermark_def list_mark_pend_def fun_eq_iff Let_def count_list_remove1 count_list_pos)
next
  case (3 k w) show ?case by (simp add: list_watermark_def)
next
  case (4 k w) show ?case by (simp add: list_watermark_def Let_def)
next
  case (5 w) then show ?case by (simp add: list_watermark_def list_mark_ok_def)
next
  case (6 w k) then show ?case
    by (simp add: list_watermark_def list_mark_ok_def list_mark_pend_def count_list_pos)
next
  case (7 w k) then show ?case by (auto simp: list_watermark_def list_mark_ok_def le_max_iff_disj)
next
  case (8 w k) then show ?case
    by (auto simp: list_watermark_def list_mark_ok_def Let_def dest: subsetD [OF set_remove1_subset])
next
  case (9 w k) then show ?case
    by (auto simp: list_watermark_def list_mark_ok_def list_mark_pend_def count_list_0_iff fun_eq_iff)
next
  case (10 w) show ?case by (simp add: list_watermark_def list_mark_pend_def fun_eq_iff)
qed

end
