(* ===== verification/Tso.thy ===== *)
theory Tso
  imports Types Watermark
begin

text \<open>
  \<^verbatim>\<open>tso.go\<close>: the timestamp oracle. A hybrid logical clock hands out commit timestamps below a
  bound persisted in the database; read timestamps are tracked in a watermark so that the list of
  committed transactions used for conflict detection can be trimmed.

  The wall clock \<^verbatim>\<open>time.Now().UnixMilli()\<close> is a parameter of type \<open>clock\<close>: its \<open>n\<close>-th value is the
  \<open>n\<close>-th reading taken. The oracle's record counts the readings. The two waiting loops of
  \<open>allocate\<close> need not end; they are partial functions, and \<^const>\<open>None\<close> is a call that never returns.
  The database behind the oracle is passed as the operations the oracle calls on it.
\<close>

section \<open>Timestamps\<close>

type_synonym clock = "nat \<Rightarrow> int"

abbreviation (input) LOGICAL_BITS :: nat where
  "LOGICAL_BITS \<equiv> 18"

definition MAX_LOGICAL :: int where
  "MAX_LOGICAL = 2 ^ LOGICAL_BITS - 1"

text \<open>\<^verbatim>\<open>defaultUpperBoundWindow.Milliseconds()\<close>\<close>

definition defaultUpperBoundWindow :: int where
  "defaultUpperBoundWindow = 2000"

definition persistentKey :: key where
  "persistentKey = ''_tso_last_timestamp''"

record timeStamp =
  physical :: int
  logical :: int

definition newEmptyTimeStamp :: timeStamp where
  "newEmptyTimeStamp = \<lparr>physical = 0, logical = 0\<rparr>"

definition Reset :: "int \<Rightarrow> timeStamp \<Rightarrow> timeStamp" where
  "Reset newTs ts = ts\<lparr>physical := newTs, logical := 0\<rparr>"

definition Incr :: "timeStamp \<Rightarrow> timeStamp" where
  "Incr ts = ts\<lparr>logical := i64 (logical ts + 1)\<rparr>"

definition ExceedLogicalMax :: "timeStamp \<Rightarrow> bool" where
  "ExceedLogicalMax ts \<longleftrightarrow> logical ts > MAX_LOGICAL"

definition Compose :: "timeStamp \<Rightarrow> u64" where
  "Compose ts = push_bit LOGICAL_BITS (word_of_int (physical ts)) OR word_of_int (logical ts)"

section \<open>State\<close>

record committedTxn =
  ct_ts :: u64
  ct_conflictKeys :: "key set"

text \<open>The fields of \<^verbatim>\<open>Txn\<close> (\<^verbatim>\<open>txn.go\<close>) other than its mutex, its logger and its pointers to the
  database and the oracle, which the operations receive as arguments.\<close>

record Txn =
  txn_id :: string
  txn_cmd :: Command
  txn_readTs :: u64
  txn_commitTs :: u64
  txn_reads :: "key list"
  txn_conflictKeys :: "key set"
  txn_writes :: "key list"
  txn_update :: bool
  txn_discarded :: bool

text \<open>A Go channel that is only ever closed.\<close>

datatype chan = ChanNil | ChanOpen | ChanClosed

record 'w TSO =
  current :: timeStamp
  saved :: timeStamp
  txnMark :: 'w
  readMark :: 'w
  readers :: "u64 set"
  lastCleanupTs :: u64
  stopNotifier :: chan
  committedTxns :: "committedTxn list"
  readings :: nat

definition newTSO :: "'w \<Rightarrow> 'w TSO" where
  "newTSO w0 =
     \<lparr> current = newEmptyTimeStamp, saved = newEmptyTimeStamp, txnMark = w0, readMark = w0,
       readers = {}, lastCleanupTs = 0, stopNotifier = ChanNil, committedTxns = [], readings = 0 \<rparr>"

section \<open>Allocation\<close>

partial_function (option) waitWindow :: "clock \<Rightarrow> int \<Rightarrow> nat \<Rightarrow> (int \<times> nat) option" where
  "waitWindow clk bound i =
     (if clk i < bound then Some (clk i, Suc i) else waitWindow clk bound (Suc i))"

partial_function (option) waitAdvance :: "clock \<Rightarrow> int \<Rightarrow> nat \<Rightarrow> (int \<times> nat) option" where
  "waitAdvance clk phys i =
     (if clk i > phys then Some (clk i, Suc i) else waitAdvance clk phys (Suc i))"

definition allocate :: "clock \<Rightarrow> 'w TSO \<Rightarrow> (u64 \<times> 'w TSO) option" where
  "allocate clk tso =
     (let now = clk (readings tso);
          cur1 = (if now > physical (current tso) then Reset now (current tso) else current tso);
          i1 = Suc (readings tso)
      in Option.bind
           (if physical cur1 \<ge> physical (saved tso)
            then map_option (\<lambda>(now', j). (Reset now' cur1, j))
                   (waitWindow clk (physical (saved tso)) i1)
            else Some (cur1, i1))
         (\<lambda>(cur2, i2). Option.bind
           (if ExceedLogicalMax cur2
            then map_option (\<lambda>(now', j). (Reset now' cur2, j)) (waitAdvance clk (physical cur2) i2)
            else Some (cur2, i2))
         (\<lambda>(cur3, i3).
            let cur4 = Incr cur3
            in Some (Compose cur4, tso\<lparr>current := cur4, readings := i3\<rparr>))))"

section \<open>Read timestamps, conflicts, commits\<close>

definition currentReadTs :: "'w TSO \<Rightarrow> u64" where
  "currentReadTs tso = Compose (current tso)"

text \<open>\<^verbatim>\<open>ReadTs\<close> takes the timestamp and registers the reader under the lock (\<open>ReadTs_lock\<close>), begins
  the read mark after releasing it (\<open>ReadTs_begin\<close>), and then waits for the commit mark;
  \<open>ReadTs_finish\<close> is what follows, given the error the wait ended with, if any. Other critical
  sections of the oracle may run between the three parts.\<close>

definition ReadTs_lock :: "'w TSO \<Rightarrow> u64 \<times> 'w TSO" where
  "ReadTs_lock tso =
     (let readTs = currentReadTs tso
      in (readTs, tso\<lparr>readers := insert readTs (readers tso)\<rparr>))"

definition ReadTs_begin :: "'w watermark_api \<Rightarrow> u64 \<Rightarrow> 'w TSO \<Rightarrow> 'w TSO" where
  "ReadTs_begin W readTs tso = tso\<lparr>readMark := wm_Begin W readTs (readMark tso)\<rparr>"

definition ReadTs_acquire :: "'w watermark_api \<Rightarrow> 'w TSO \<Rightarrow> u64 \<times> 'w TSO" where
  "ReadTs_acquire W tso =
     (let (readTs, tso') = ReadTs_lock tso in (readTs, ReadTs_begin W readTs tso'))"

definition ReadTs_finish ::
    "'w watermark_api \<Rightarrow> error option \<Rightarrow> u64 \<Rightarrow> ('w TSO, u64) call" where
  "ReadTs_finish W waitErr readTs tso =
     (case waitErr of
        Some e \<Rightarrow> (Err e, tso\<lparr>readMark := wm_Done W readTs (readMark tso)\<rparr>)
      | None \<Rightarrow> (Ok readTs, tso))"

definition ReadTs :: "'w watermark_api \<Rightarrow> error option \<Rightarrow> ('w TSO, u64) call" where
  "ReadTs W waitErr tso =
     (let (readTs, tso') = ReadTs_acquire W tso in ReadTs_finish W waitErr readTs tso')"

definition DiscardAt :: "'w watermark_api \<Rightarrow> 'w TSO \<Rightarrow> u64" where
  "DiscardAt W tso = wm_DoneUntil W (readMark tso)"

fun hasConflict_loop :: "committedTxn list \<Rightarrow> Txn \<Rightarrow> bool" where
  "hasConflict_loop [] txn = False"
| "hasConflict_loop (c # cs) txn =
     (if ct_ts c \<le> txn_readTs txn then hasConflict_loop cs txn
      else if list_ex (\<lambda>key. key \<in> ct_conflictKeys c) (txn_reads txn) then True
      else hasConflict_loop cs txn)"

definition hasConflict :: "Txn \<Rightarrow> 'w TSO \<Rightarrow> bool" where
  "hasConflict txn tso =
     (if length (txn_reads txn) = 0 then False else hasConflict_loop (committedTxns tso) txn)"

definition cleanupCommittedTransactions :: "'w watermark_api \<Rightarrow> 'w TSO \<Rightarrow> 'w TSO" where
  "cleanupCommittedTransactions W tso =
     (let maxReadTs = wm_DoneUntil W (readMark tso)
      in if maxReadTs = lastCleanupTs tso then tso
         else tso\<lparr>lastCleanupTs := maxReadTs,
                  committedTxns := filter (\<lambda>c. \<not> ct_ts c \<le> maxReadTs) (committedTxns tso)\<rparr>)"

definition doneRead :: "'w watermark_api \<Rightarrow> u64 \<Rightarrow> 'w TSO \<Rightarrow> 'w TSO" where
  "doneRead W readTs tso =
     (if readTs \<in> readers tso
      then tso\<lparr>readMark := wm_Done W readTs (readMark tso), readers := readers tso - {readTs}\<rparr>
      else tso)"

definition DoneRead :: "'w watermark_api \<Rightarrow> u64 \<Rightarrow> 'w TSO \<Rightarrow> 'w TSO" where
  "DoneRead W readTs tso = doneRead W readTs tso"

definition DoneCommit :: "'w watermark_api \<Rightarrow> u64 \<Rightarrow> 'w TSO \<Rightarrow> 'w TSO" where
  "DoneCommit W cts tso = tso\<lparr>txnMark := wm_Done W cts (txnMark tso)\<rparr>"

definition newCommitTs ::
    "'w watermark_api \<Rightarrow> clock \<Rightarrow> Txn \<Rightarrow> 'w TSO \<Rightarrow> ((u64 \<times> bool) \<times> 'w TSO) option" where
  "newCommitTs W clk txn tso =
     (if hasConflict txn tso then Some ((0, True), tso)
      else
        (let tso1 = doneRead W (txn_readTs txn) tso;
             tso2 = cleanupCommittedTransactions W tso1
         in map_option
              (\<lambda>(ts, tso3).
                 ((ts, False),
                  tso3\<lparr>txnMark := wm_Begin W ts (txnMark tso3),
                       committedTxns := committedTxns tso3 @
                         [\<lparr>ct_ts = ts, ct_conflictKeys = txn_conflictKeys txn\<rparr>]\<rparr>))
              (allocate clk tso2)))"

text \<open>\<^verbatim>\<open>TSO.Commit\<close> runs its callback with the new timestamp; the deferred \<^verbatim>\<open>DoneCommit\<close> follows it.
  The callback works on the oracle's and the caller's state \<open>'s\<close>.\<close>

definition tso_Commit ::
    "'w watermark_api \<Rightarrow> clock \<Rightarrow> Txn \<Rightarrow> (u64 \<Rightarrow> ('s, unit) call) \<Rightarrow> 'w TSO \<times> 's
     \<Rightarrow> (unit res \<times> ('w TSO \<times> 's)) option" where
  "tso_Commit W clk txn fn st =
     map_option
       (\<lambda>((ts, conflict), tso').
          if conflict then (Err ErrConflict, (tso', snd st))
          else (let (r, s') = fn ts (snd st) in (r, (DoneCommit W ts tso', s'))))
       (newCommitTs W clk txn (fst st))"

definition tso_Close :: "('w TSO, unit) call" where
  "tso_Close tso =
     (case stopNotifier tso of
        ChanNil \<Rightarrow> (Ok (), tso)
      | ChanOpen \<Rightarrow> (Ok (), tso\<lparr>stopNotifier := ChanClosed\<rparr>)
      | ChanClosed \<Rightarrow> (Panicked ''close of closed channel'', tso))"

section \<open>The persisted window\<close>

definition upperBoundBytes :: "int \<Rightarrow> bytes" where
  "upperBoundBytes upperBound = Uint64ToBytes (word_of_int upperBound)"

text \<open>\<open>persist b\<close> is the transaction that sets the persistent key to \<open>b\<close>; it works on the oracle and
  on the database and need not return.\<close>

definition UpdateWindow ::
    "(bytes \<Rightarrow> 'w TSO \<times> 'd \<Rightarrow> (unit res \<times> ('w TSO \<times> 'd)) option) \<Rightarrow> 'w TSO \<times> 'd
     \<Rightarrow> (unit res \<times> ('w TSO \<times> 'd)) option" where
  "UpdateWindow persist st =
     (let cur = physical (current (fst st));
          sav = physical (saved (fst st));
          upperBound = i64 (cur + defaultUpperBoundWindow)
      in if sav \<noteq> 0 \<and> upperBound \<le> sav then Some (Ok (), st)
         else map_option
                (\<lambda>(r, (tso', d')).
                   case r of
                     Ok _ \<Rightarrow> (Ok (), (tso'\<lparr>saved := Reset upperBound (saved tso')\<rparr>, d'))
                   | Err e \<Rightarrow> (Err e, (tso', d'))
                   | Panicked p \<Rightarrow> (Panicked p, (tso', d')))
                (persist (upperBoundBytes upperBound) st))"

datatype window_event = WindowTick | WindowStop | WindowCtxDone

text \<open>The background loop, over the events its \<^verbatim>\<open>select\<close> receives; a failed update is only logged.\<close>

fun windowUpdator ::
    "(bytes \<Rightarrow> 'w TSO \<times> 'd \<Rightarrow> (unit res \<times> ('w TSO \<times> 'd)) option) \<Rightarrow> window_event list
     \<Rightarrow> 'w TSO \<times> 'd \<Rightarrow> ('w TSO \<times> 'd) option" where
  "windowUpdator persist [] st = Some st"
| "windowUpdator persist (WindowTick # evs) st =
     Option.bind (UpdateWindow persist st) (\<lambda>(_, st'). windowUpdator persist evs st')"
| "windowUpdator persist (WindowStop # evs) st = Some st"
| "windowUpdator persist (WindowCtxDone # evs) st = Some st"

text \<open>\<open>propose\<close> is \<^verbatim>\<open>proposeAndWait\<close> of the database.\<close>

definition persistUpperboundOnStartup ::
    "(Command \<Rightarrow> ('d, unit) call) \<Rightarrow> string \<Rightarrow> ('w TSO \<times> 'd, unit) call" where
  "persistUpperboundOnStartup propose cid st =
     (let cur = physical (current (fst st));
          tso1 = (fst st)\<lparr>current := Incr (current (fst st))\<rparr>;
          ts = Compose (current tso1);
          upperBound = i64 (cur + defaultUpperBoundWindow);
          cmd = set_CommitTs ts (set_ReadTs ts
                  (NewSetCommand cid persistentKey (upperBoundBytes upperBound) []))
      in case propose cmd (snd st) of
           (Ok _, d') \<Rightarrow> (Ok (), (tso1\<lparr>saved := Reset upperBound (saved tso1)\<rparr>, d'))
         | (Err e, d') \<Rightarrow> (Err e, (tso1, d'))
         | (Panicked p, d') \<Rightarrow> (Panicked p, (tso1, d')))"

text \<open>The time \<^verbatim>\<open>calibrate\<close> sleeps, in milliseconds; it changes no state.\<close>

definition calibrate :: "clock \<Rightarrow> 'w TSO \<Rightarrow> int \<times> 'w TSO" where
  "calibrate clk tso =
     (let now = clk (readings tso)
      in (if now < physical (current tso) then physical (current tso) - now else 0,
          tso\<lparr>readings := Suc (readings tso)\<rparr>))"

definition StartServing_clock :: "clock \<Rightarrow> bytes option \<Rightarrow> ('w TSO, unit) call" where
  "StartServing_clock clk val tso =
     (case val of
        Some b \<Rightarrow>
          (case BytesToUint64 b of
             Ok w \<Rightarrow>
               (let last = sint w;
                    tso1 = tso\<lparr>saved := Reset last (saved tso)\<rparr>;
                    now = clk (readings tso1);
                    cur = (if now \<le> last then i64 (last + 1) else now);
                    tso2 = tso1\<lparr>current := Reset cur (current tso1), readings := Suc (readings tso1)\<rparr>
                in (Ok (), snd (calibrate clk tso2)))
           | Err e \<Rightarrow> (Err e, tso)
           | Panicked p \<Rightarrow> (Panicked p, tso))
      | None \<Rightarrow>
          (Ok (), tso\<lparr>current := Reset (clk (readings tso)) (current tso),
                      readings := Suc (readings tso)\<rparr>))"

definition StartServing ::
    "'w watermark_api \<Rightarrow> clock \<Rightarrow> ('d \<Rightarrow> bytes option res) \<Rightarrow> (Command \<Rightarrow> ('d, unit) call) \<Rightarrow> string
     \<Rightarrow> ('w TSO \<times> 'd, unit) call" where
  "StartServing W clk getVal propose cid st =
     (let tso0 = (fst st)\<lparr>stopNotifier := ChanOpen, readMark := wm_Init W (readMark (fst st)),
                          txnMark := wm_Init W (txnMark (fst st))\<rparr>
      in case getVal (snd st) of
           Err e \<Rightarrow> (Err e, (tso0, snd st))
         | Panicked p \<Rightarrow> (Panicked p, (tso0, snd st))
         | Ok val \<Rightarrow>
             (case StartServing_clock clk val tso0 of
                (Err e, tso1) \<Rightarrow> (Err e, (tso1, snd st))
              | (Panicked p, tso1) \<Rightarrow> (Panicked p, (tso1, snd st))
              | (Ok _, tso1) \<Rightarrow>
                  (case persistUpperboundOnStartup propose cid (tso1, snd st) of
                     (Err e, st2) \<Rightarrow> (Err e, st2)
                   | (Panicked p, st2) \<Rightarrow> (Panicked p, st2)
                   | (Ok _, (tso2, d2)) \<Rightarrow>
                       (let lastIndex = Compose (current tso2)
                        in (Ok (), (tso2\<lparr>readMark := wm_SetDoneUntil W lastIndex (readMark tso2),
                                         txnMark := wm_SetDoneUntil W lastIndex (txnMark tso2)\<rparr>, d2))))))"

section \<open>Vocabulary of the properties\<close>

text \<open>Timestamps whose physical part fits above the logical bits: milliseconds below \<open>2^45\<close>, which
  the Unix clock reaches in a thousand years.\<close>

definition ts_range :: "timeStamp \<Rightarrow> bool" where
  "ts_range t \<longleftrightarrow> 0 \<le> physical t \<and> physical t < 2 ^ 45 \<and> 0 \<le> logical t \<and> logical t \<le> MAX_LOGICAL"

text \<open>A wall clock that does not run backwards.\<close>

definition sane_clock :: "clock \<Rightarrow> bool" where
  "sane_clock clk \<longleftrightarrow> mono clk \<and> (\<forall>n. 0 \<le> clk n \<and> clk n < 2 ^ 45)"

text \<open>The state in which the oracle hands out timestamps.\<close>

definition serving :: "'w TSO \<Rightarrow> bool" where
  "serving tso \<longleftrightarrow> ts_range (current tso) \<and> physical (current tso) < physical (saved tso)
     \<and> physical (saved tso) < 2 ^ 45"

text \<open>What the persistent key may hold at the start of a term.\<close>

definition persisted_bound :: "bytes option \<Rightarrow> bool" where
  "persisted_bound val \<longleftrightarrow> val = None \<or> (\<exists>b. val = Some (upperBoundBytes b) \<and> 0 \<le> b \<and> b < 2 ^ 44)"

text \<open>Timestamps allocated in sequence.\<close>

fun allocate_n :: "clock \<Rightarrow> nat \<Rightarrow> 'w TSO \<Rightarrow> (u64 list \<times> 'w TSO) option" where
  "allocate_n clk 0 tso = Some ([], tso)"
| "allocate_n clk (Suc n) tso =
     Option.bind (allocate clk tso) (\<lambda>(ts, tso').
       map_option (\<lambda>(tss, tso''). (ts # tss, tso'')) (allocate_n clk n tso'))"

section \<open>Concrete oracles\<close>

definition demo_clock :: clock where
  "demo_clock n = (if n < 2 then 1000 else 1001)"

definition demo_mark :: mark_state where
  "demo_mark = \<lparr>ms_pending = [], ms_until = 0, ms_top = 0\<rparr>"

definition demo_tso :: "mark_state TSO" where
  "demo_tso = (newTSO demo_mark)\<lparr>current := \<lparr>physical = 1000, logical = 4\<rparr>,
     saved := \<lparr>physical = 3000, logical = 0\<rparr>\<rparr>"

definition idle_clock :: clock where
  "idle_clock n = (if n < 2 then 1000 else 5000)"

definition demo_get :: "bytes \<Rightarrow> bytes option res" where
  "demo_get d = Ok (Some d)"

definition demo_propose :: "Command \<Rightarrow> (bytes, unit) call" where
  "demo_propose c d = (Ok (), cmd_Value c)"

definition demo_started :: "clock \<Rightarrow> int \<Rightarrow> unit res \<times> (mark_state TSO \<times> bytes)" where
  "demo_started clk b = StartServing list_watermark clk demo_get demo_propose ''id'' (newTSO demo_mark, upperBoundBytes b)"

definition race_x :: key where "race_x = ''x''"

definition race_txn :: "u64 \<Rightarrow> key list \<Rightarrow> key set \<Rightarrow> Txn" where
  "race_txn r reads ks =
     \<lparr>txn_id = [], txn_cmd = NewTransactionCommand [], txn_readTs = r, txn_commitTs = 0, txn_reads = reads,
      txn_conflictKeys = ks, txn_writes = [], txn_update = True, txn_discarded = False\<rparr>"

text \<open>Four transactions at one oracle. A writer and a slow reader take the same read timestamp; the
  writer commits; a third transaction reads and ends; a fourth commits, which cleans up. The slow
  reader begins its mark either with its timestamp or, as the code allows, after all that.\<close>

definition race_reader :: "bool \<Rightarrow> u64 \<Rightarrow> u64 \<Rightarrow> mark_state TSO \<Rightarrow> (bool \<times> u64 \<times> u64) option" where
  "race_reader early r c tso =
     (let tso' = (if early then tso else ReadTs_begin list_watermark r tso)
      in Some (hasConflict (race_txn r [race_x] {''z''}) tso', r, c))"

definition race_others :: "bool \<Rightarrow> u64 \<Rightarrow> u64 \<Rightarrow> mark_state TSO \<Rightarrow> (bool \<times> u64 \<times> u64) option" where
  "race_others early r c tso =
     (let (r3, tso1) = ReadTs_acquire list_watermark tso
      in Option.bind
           (newCommitTs list_watermark demo_clock (race_txn r3 [] {''y''}) (DoneRead list_watermark r3 tso1))
           (\<lambda>(_, tso2). race_reader early r c tso2))"

definition race_run :: "bool \<Rightarrow> (bool \<times> u64 \<times> u64) option" where
  "race_run early =
     (let (w, tso1) = ReadTs_acquire list_watermark demo_tso;
          (r, tso2) = ReadTs_lock tso1;
          tso3 = (if early then ReadTs_begin list_watermark r tso2 else tso2)
      in Option.bind (newCommitTs list_watermark demo_clock (race_txn w [] {race_x}) tso3)
           (\<lambda>((c, _), tso4). race_others early r c tso4))"

section \<open>Order of composed timestamps\<close>

lemma i64_small: "- (2 ^ 63) \<le> x \<Longrightarrow> x < 2 ^ 63 \<Longrightarrow> i64 x = x"
  unfolding i64_def by (simp add: sint_sbintrunc' signed_take_bit_int_eq_self)

lemma Compose_value:
  assumes "0 \<le> p" "p < 2 ^ 46" "0 \<le> l" "l < 2 ^ 18"
  shows "uint (Compose \<lparr>physical = p, logical = l\<rparr>) = p * 2 ^ 18 + l"
proof -
  have "push_bit 18 (word_of_int p) AND (word_of_int l :: u64) = 0"
  proof (rule bit_eqI)
    fix n
    have "\<not> bit l n" if "18 \<le> n"
    proof -
      have "l < 2 ^ n" using assms(4) that power_increasing [of 18 n "2::int"] by simp
      then show ?thesis using assms(3) by (simp add: bit_iff_odd)
    qed
    then show "bit (push_bit 18 (word_of_int p) AND (word_of_int l :: u64)) n = bit 0 n"
      by (auto simp: bit_simps)
  qed
  then have "push_bit 18 (word_of_int p) OR (word_of_int l :: u64) = push_bit 18 (word_of_int p) + word_of_int l"
    by (rule disjunctive_add_eq_or [symmetric])
  also have "\<dots> = word_of_int (p * 2 ^ 18 + l)"
    by (simp add: push_bit_eq_mult)
  finally have "Compose \<lparr>physical = p, logical = l\<rparr> = word_of_int (p * 2 ^ 18 + l)"
    by (simp add: Compose_def)
  moreover have "0 \<le> p * 2 ^ 18 + l" "p * 2 ^ 18 + l < 2 ^ 64"
    using assms by auto
  ultimately show ?thesis
    by (simp only: uint_word_of_int_eq) (simp add: take_bit_int_eq_self)
qed

lemma Compose_value_range: "ts_range t \<Longrightarrow> uint (Compose t) = physical t * 2 ^ 18 + logical t"
  using Compose_value [of "physical t" "logical t"]
  by (cases t) (simp add: ts_range_def MAX_LOGICAL_def)

lemma Compose_less_iff:
  assumes "ts_range a" "ts_range b"
  shows "Compose a < Compose b \<longleftrightarrow>
    physical a < physical b \<or> physical a = physical b \<and> logical a < logical b"
  using assms
  by (auto simp: word_less_def Compose_value_range) (auto simp: ts_range_def MAX_LOGICAL_def)

lemma sane_clockD: "sane_clock clk \<Longrightarrow> 0 \<le> clk n" "sane_clock clk \<Longrightarrow> clk n < 2 ^ 45"
  "sane_clock clk \<Longrightarrow> i \<le> j \<Longrightarrow> clk i \<le> clk j"
  by (auto simp: sane_clock_def mono_def)

lemma waitWindow_SomeD:
  assumes "waitWindow clk b i = Some r"
  shows "\<exists>k\<ge>i. r = (clk k, Suc k) \<and> clk k < b"
proof (rule waitWindow.raw_induct [where P = "\<lambda>clk b i r. \<exists>k\<ge>i. r = (clk k, Suc k) \<and> clk k < b", OF _ assms])
  fix f :: "clock \<Rightarrow> int \<Rightarrow> nat \<Rightarrow> (int \<times> nat) option" and clk b i r
  assume IH: "\<And>clk b i r. f clk b i = Some r \<Longrightarrow> \<exists>k\<ge>i. r = (clk k, Suc k) \<and> clk k < b"
    and eq: "(if clk i < b then Some (clk i, Suc i) else f clk b (Suc i)) = Some r"
  show "\<exists>k\<ge>i. r = (clk k, Suc k) \<and> clk k < b"
    using eq IH [of clk b "Suc i" r] by (auto split: if_splits dest: Suc_leD)
qed

lemma waitWindow_None: "(\<And>k. i \<le> k \<Longrightarrow> b \<le> clk k) \<Longrightarrow> waitWindow clk b i = None"
  using waitWindow_SomeD by (metis linorder_not_less option.exhaust)

lemma waitWindow_returns:
  assumes "i \<le> k" "clk k < b" shows "\<exists>r. waitWindow clk b i = Some r"
  using assms
proof (induction "k - i" arbitrary: i)
  case 0 then show ?case by (simp add: waitWindow.simps)
next
  case (Suc d)
  then have "\<exists>r. waitWindow clk b (Suc i) = Some r"
    by (metis Suc_diff_Suc Suc_inject Suc_leI diff_is_0_eq' le_neq_implies_less nat.simps(3))
  then show ?case by (subst waitWindow.simps) simp
qed

lemma waitAdvance_SomeD:
  assumes "waitAdvance clk p i = Some r"
  shows "\<exists>k\<ge>i. r = (clk k, Suc k) \<and> p < clk k"
proof (rule waitAdvance.raw_induct [where P = "\<lambda>clk p i r. \<exists>k\<ge>i. r = (clk k, Suc k) \<and> p < clk k", OF _ assms])
  fix f :: "clock \<Rightarrow> int \<Rightarrow> nat \<Rightarrow> (int \<times> nat) option" and clk p i r
  assume IH: "\<And>clk p i r. f clk p i = Some r \<Longrightarrow> \<exists>k\<ge>i. r = (clk k, Suc k) \<and> p < clk k"
    and eq: "(if p < clk i then Some (clk i, Suc i) else f clk p (Suc i)) = Some r"
  show "\<exists>k\<ge>i. r = (clk k, Suc k) \<and> p < clk k"
    using eq IH [of clk p "Suc i" r] by (auto split: if_splits dest: Suc_leD)
qed

lemma allocate_cases:
  assumes "sane_clock clk" and "serving tso" and "logical (current tso) < MAX_LOGICAL"
    and "allocate clk tso = Some (ts, tso')"
  shows "\<exists>p l. tso' = tso\<lparr>current := \<lparr>physical = p, logical = l\<rparr>, readings := Suc (readings tso)\<rparr>
     \<and> ts = Compose \<lparr>physical = p, logical = l\<rparr>
     \<and> (p = physical (current tso) \<and> l = logical (current tso) + 1
        \<or> p = clk (readings tso) \<and> physical (current tso) < p \<and> p < physical (saved tso) \<and> l = 1)"
proof -
  let ?now = "clk (readings tso)"
  obtain p l where cur: "current tso = \<lparr>physical = p, logical = l\<rparr>" by (cases "current tso")
  have rng: "0 \<le> p" "p < physical (saved tso)" "0 \<le> l" "l < MAX_LOGICAL" "i64 (l + 1) = l + 1" "i64 1 = 1"
    using assms(2,3) i64_small [of "l + 1"] i64_small [of 1]
    by (auto simp: cur serving_def ts_range_def MAX_LOGICAL_def)
  show ?thesis
  proof (cases "p < ?now")
    case True
    have "waitWindow clk (physical (saved tso)) (Suc (readings tso)) = None" if "physical (saved tso) \<le> ?now"
    proof (rule waitWindow_None)
      fix k assume "Suc (readings tso) \<le> k"
      then show "physical (saved tso) \<le> clk k"
        using that sane_clockD(3) [OF assms(1), of "readings tso" k] by linarith
    qed
    then have "?now < physical (saved tso)"
      using assms(4) True by (cases "?now < physical (saved tso)") (auto simp: allocate_def cur Reset_def Let_def)
    then show ?thesis
      using assms(4) True rng by (auto simp: allocate_def cur Reset_def Let_def ExceedLogicalMax_def Incr_def MAX_LOGICAL_def)
  next
    case False
    then show ?thesis
      using assms(4) rng by (auto simp: allocate_def cur Reset_def Let_def ExceedLogicalMax_def Incr_def)
  qed
qed

lemma allocate_step:
  assumes "sane_clock clk" and "serving tso" and "logical (current tso) < MAX_LOGICAL"
    and "allocate clk tso = Some (ts, tso')"
  shows "currentReadTs tso < ts" and "ts = currentReadTs tso'" and "serving tso'"
    and "tso' = tso\<lparr>current := current tso', readings := Suc (readings tso)\<rparr>"
    and "logical (current tso') \<le> logical (current tso) + 1"
    and "uint ts < physical (saved tso) * 2 ^ 18"
proof -
  obtain p l where pl: "tso' = tso\<lparr>current := \<lparr>physical = p, logical = l\<rparr>, readings := Suc (readings tso)\<rparr>"
    and ts: "ts = Compose \<lparr>physical = p, logical = l\<rparr>"
    and c: "p = physical (current tso) \<and> l = logical (current tso) + 1
        \<or> p = clk (readings tso) \<and> physical (current tso) < p \<and> p < physical (saved tso) \<and> l = 1"
    using allocate_cases [OF assms] by blast
  have r: "ts_range \<lparr>physical = p, logical = l\<rparr>" "ts_range (current tso)" "p < physical (saved tso)"
    using c assms(2,3) by (auto simp: ts_range_def serving_def MAX_LOGICAL_def)
  show "currentReadTs tso < ts"
    unfolding currentReadTs_def ts using c by (subst Compose_less_iff [OF r(2,1)]) auto
  show "ts = currentReadTs tso'" by (simp add: pl ts currentReadTs_def)
  show "serving tso'" using r assms(2) by (simp add: pl serving_def)
  show "tso' = tso\<lparr>current := current tso', readings := Suc (readings tso)\<rparr>" by (simp add: pl)
  show "logical (current tso') \<le> logical (current tso) + 1"
    using c r by (auto simp: pl ts_range_def)
  show "uint ts < physical (saved tso) * 2 ^ 18"
    using r by (simp add: ts Compose_value_range) (simp add: ts_range_def MAX_LOGICAL_def)
qed

lemma allocate_n_sorted:
  assumes "sane_clock clk" and "serving tso" and "logical (current tso) + int n \<le> MAX_LOGICAL"
    and "allocate_n clk n tso = Some (tss, tso')"
  shows "sorted_wrt (<) (currentReadTs tso # tss) \<and> length tss = n
    \<and> (\<forall>ts \<in> set tss. uint ts < physical (saved tso) * 2 ^ 18)"
  using assms(2-)
proof (induction n arbitrary: tso tss)
  case 0 then show ?case by simp
next
  case (Suc n)
  obtain ts t1 rest where a: "allocate clk tso = Some (ts, t1)"
    and b: "allocate_n clk n t1 = Some (rest, tso')" and tss: "tss = ts # rest"
    using Suc.prems(3) by (auto simp: bind_eq_Some_conv)
  have lt: "logical (current tso) < MAX_LOGICAL" using Suc.prems(2) by simp
  note st = allocate_step [OF assms(1) Suc.prems(1) lt a]
  have "saved t1 = saved tso" by (subst st(4)) simp
  moreover have "logical (current t1) + int n \<le> MAX_LOGICAL" using st(5) Suc.prems(2) by simp
  ultimately show ?case
    using Suc.IH [OF st(3) _ b] st(1,2,6) by (auto simp: tss)
qed

lemma allocate_returns:
  assumes "serving tso" and "clk (readings tso) < physical (saved tso)"
  shows "\<exists>ts tso'. allocate clk tso = Some (ts, tso')"
  using assms
  by (auto simp: allocate_def Let_def Reset_def serving_def ts_range_def ExceedLogicalMax_def MAX_LOGICAL_def)

lemma allocate_blocks:
  assumes "\<And>k. readings tso \<le> k \<Longrightarrow> physical (saved tso) \<le> clk k"
  shows "allocate clk tso = None"
proof -
  have "waitWindow clk (physical (saved tso)) (Suc (readings tso)) = None"
    using assms by (intro waitWindow_None) simp
  then show ?thesis
    using assms [of "readings tso"] by (auto simp: allocate_def Let_def Reset_def)
qed

lemma Compose_overflow:
  assumes "0 \<le> p" "p < 2 ^ 45" "odd p"
  shows "Compose \<lparr>physical = p, logical = 2 ^ 18\<rparr> = Compose \<lparr>physical = p, logical = 0\<rparr>"
proof -
  have "push_bit 18 (word_of_int p) OR (word_of_int (2 ^ 18) :: u64) = push_bit 18 (word_of_int p)"
  proof (rule bit_eqI)
    fix n
    have "bit (word_of_int (2 ^ 18) :: u64) n \<longleftrightarrow> n = 18"
      by (simp only: of_int_power of_int_numeral bit_exp_iff) (auto simp: possible_bit_def)
    moreover have "bit (push_bit 18 (word_of_int p) :: u64) 18"
      using assms(3) by (simp add: bit_simps) (simp add: bit_0)
    ultimately show "bit (push_bit 18 (word_of_int p) OR (word_of_int (2 ^ 18) :: u64)) n
        = bit (push_bit 18 (word_of_int p) :: u64) n"
      by (auto simp only: bit_or_iff)
  qed
  then show ?thesis by (simp add: Compose_def)
qed

lemma hasConflict_loop_iff:
  "hasConflict_loop cs txn \<longleftrightarrow>
     (\<exists>c \<in> set cs. txn_readTs txn < ct_ts c \<and> (\<exists>k \<in> set (txn_reads txn). k \<in> ct_conflictKeys c))"
  by (induction cs) (auto simp: list_ex_iff not_le)

lemma hasConflict_iff:
  "hasConflict txn tso \<longleftrightarrow>
     (\<exists>c \<in> set (committedTxns tso). txn_readTs txn < ct_ts c
        \<and> (\<exists>k \<in> set (txn_reads txn). k \<in> ct_conflictKeys c))"
  by (auto simp: hasConflict_def hasConflict_loop_iff)

lemma set_cleanup:
  "set (committedTxns (cleanupCommittedTransactions W tso)) \<subseteq> set (committedTxns tso)"
  by (auto simp: cleanupCommittedTransactions_def Let_def)

lemma cleanup_keeps:
  assumes "c \<in> set (committedTxns tso)" "wm_DoneUntil W (readMark tso) < ct_ts c"
  shows "c \<in> set (committedTxns (cleanupCommittedTransactions W tso))"
  using assms by (auto simp: cleanupCommittedTransactions_def Let_def)

context watermark
begin

lemma hasConflict_cleanup:
  assumes "wm_ok (readMark tso)" and "0 < pend (readMark tso) (txn_readTs txn)"
  shows "hasConflict txn (cleanupCommittedTransactions W tso) = hasConflict txn tso"
proof -
  have "wm_DoneUntil W (readMark tso) \<le> txn_readTs txn"
    using assms by (rule DoneUntil_pending)
  then show ?thesis
    unfolding hasConflict_iff
    using set_cleanup [of W tso] cleanup_keeps [of _ tso W] by (meson le_less_trans subsetD)
qed

end

lemma sint_small: "0 \<le> b \<Longrightarrow> b < 2 ^ 63 \<Longrightarrow> sint (word_of_int b :: u64) = b"
  using i64_small [of b] by (simp add: i64_def)

lemma calibrate_state: "snd (calibrate clk tso) = tso\<lparr>readings := Suc (readings tso)\<rparr>"
  by (simp add: calibrate_def Let_def)

lemma StartServing_clock_found:
  assumes "sane_clock clk" and "0 \<le> b" and "b < 2 ^ 45"
  shows "StartServing_clock clk (Some (upperBoundBytes b)) tso =
    (Ok (), tso\<lparr>saved := \<lparr>physical = b, logical = 0\<rparr>,
               current := \<lparr>physical = max (b + 1) (clk (readings tso)), logical = 0\<rparr>,
               readings := readings tso + 2\<rparr>)"
proof -
  have "i64 (b + 1) = b + 1" "sint (word_of_int b :: u64) = b"
    using assms(2,3) by (simp_all add: i64_small sint_small)
  then show ?thesis
    by (auto simp: StartServing_clock_def upperBoundBytes_def calibrate_state Reset_def Let_def max_def)
qed

lemma persistUpperboundOnStartup_Ok:
  assumes "persistUpperboundOnStartup propose cid (tso, d) = (Ok u, (tso', d'))"
    and "0 \<le> physical (current tso)" and "physical (current tso) < 2 ^ 45" and "logical (current tso) = 0"
  shows "tso' = tso\<lparr>current := \<lparr>physical = physical (current tso), logical = 1\<rparr>,
                    saved := \<lparr>physical = physical (current tso) + 2000, logical = 0\<rparr>\<rparr>"
proof -
  have "i64 (physical (current tso) + 2000) = physical (current tso) + 2000" "i64 1 = 1"
    using assms(2,3) by (simp_all add: i64_small)
  then show ?thesis
    using assms(1,4)
    by (cases "current tso") (auto simp: persistUpperboundOnStartup_def Let_def Reset_def Incr_def defaultUpperBoundWindow_def
      split: prod.splits res.splits)
qed

lemma StartServing_found:
  assumes "sane_clock clk" and "0 \<le> b" and "b < 2 ^ 44" and "\<And>n. clk n < 2 ^ 44"
    and "getVal d = Ok (Some (upperBoundBytes b))"
    and "StartServing W clk getVal propose cid (tso, d) = (Ok u, (tso', d'))"
  shows "current tso' = \<lparr>physical = max (b + 1) (clk (readings tso)), logical = 1\<rparr>"
    and "saved tso' = \<lparr>physical = max (b + 1) (clk (readings tso)) + 2000, logical = 0\<rparr>"
    and "serving tso'" and "stopNotifier tso' = ChanOpen"
    and "readings tso' = readings tso + 2"
proof -
  let ?t0 = "tso\<lparr>stopNotifier := ChanOpen, readMark := wm_Init W (readMark tso), txnMark := wm_Init W (txnMark tso)\<rparr>"
  let ?p = "max (b + 1) (clk (readings tso))"
  let ?t1 = "?t0\<lparr>saved := \<lparr>physical = b, logical = 0\<rparr>, current := \<lparr>physical = ?p, logical = 0\<rparr>,
               readings := readings tso + 2\<rparr>"
  have p: "0 \<le> ?p" "?p < 2 ^ 45" "?p + 2000 < 2 ^ 45"
    using assms(2,3) assms(4) [of "readings tso"] by auto
  have "StartServing_clock clk (Some (upperBoundBytes b)) ?t0 = (Ok (), ?t1)"
    using StartServing_clock_found [OF assms(1,2), of ?t0] assms(3) by simp
  then obtain t2 where per: "persistUpperboundOnStartup propose cid (?t1, d) = (Ok (), (t2, d'))"
    and t': "tso' = t2\<lparr>readMark := wm_SetDoneUntil W (Compose (current t2)) (readMark t2),
        txnMark := wm_SetDoneUntil W (Compose (current t2)) (txnMark t2)\<rparr>"
    using assms(5,6) by (auto simp: StartServing_def Let_def split: prod.splits res.splits)
  have t2: "t2 = ?t1\<lparr>current := \<lparr>physical = ?p, logical = 1\<rparr>, saved := \<lparr>physical = ?p + 2000, logical = 0\<rparr>\<rparr>"
    using persistUpperboundOnStartup_Ok [OF per] p by simp
  show "current tso' = \<lparr>physical = ?p, logical = 1\<rparr>"
    and "saved tso' = \<lparr>physical = ?p + 2000, logical = 0\<rparr>" and "stopNotifier tso' = ChanOpen"
    and "readings tso' = readings tso + 2"
    by (simp_all add: t' t2)
  show "serving tso'" using p by (simp add: t' t2 serving_def ts_range_def MAX_LOGICAL_def)
qed

lemma demo_clock_sane: "sane_clock demo_clock"
  by (auto simp: sane_clock_def demo_clock_def mono_def)

lemma demo_tso_serving: "serving demo_tso"
  by (simp add: demo_tso_def newTSO_def serving_def ts_range_def MAX_LOGICAL_def)

lemma doneRead_simps [simp]:
  "current (doneRead W r tso) = current tso" "saved (doneRead W r tso) = saved tso"
  "readings (doneRead W r tso) = readings tso" "committedTxns (doneRead W r tso) = committedTxns tso"
  "txnMark (doneRead W r tso) = txnMark tso" "lastCleanupTs (doneRead W r tso) = lastCleanupTs tso"
  "stopNotifier (doneRead W r tso) = stopNotifier tso"
  by (simp_all add: doneRead_def)

lemma cleanup_simps [simp]:
  "current (cleanupCommittedTransactions W tso) = current tso"
  "saved (cleanupCommittedTransactions W tso) = saved tso"
  "readings (cleanupCommittedTransactions W tso) = readings tso"
  "readMark (cleanupCommittedTransactions W tso) = readMark tso"
  "txnMark (cleanupCommittedTransactions W tso) = txnMark tso"
  "readers (cleanupCommittedTransactions W tso) = readers tso"
  by (simp_all add: cleanupCommittedTransactions_def Let_def)

lemma serving_cong:
  "current t = current u \<Longrightarrow> saved t = saved u \<Longrightarrow> serving t = serving u"
  by (simp add: serving_def)

context watermark
begin

lemma ReadTs_acquire_pend:
  assumes "ReadTs_acquire W tso = (r, tso')"
  shows "r = currentReadTs tso" "pend (readMark tso') = (pend (readMark tso))(r := Suc (pend (readMark tso) r))"
    "readers tso' = insert r (readers tso)" "currentReadTs tso' = currentReadTs tso"
  using assms by (auto simp: ReadTs_acquire_def ReadTs_lock_def ReadTs_begin_def currentReadTs_def Let_def pend_Begin)

lemma doneRead_pend:
  assumes "0 < pend (readMark tso) r"
  shows "pend (readMark (doneRead W r tso)) =
    (if r \<in> readers tso then (pend (readMark tso))(r := pend (readMark tso) r - 1) else pend (readMark tso))"
  using assms by (simp add: doneRead_def pend_Done)

lemma shared_read_leak:
  assumes "ReadTs_acquire W tso = (r, t1)" and "ReadTs_acquire W t1 = (r', t2)"
  shows "r' = r \<and> pend (readMark (DoneRead W r' (DoneRead W r t2))) r = Suc (pend (readMark tso) r)"
proof -
  note a = ReadTs_acquire_pend [OF assms(1)] ReadTs_acquire_pend [OF assms(2)]
  have r: "r' = r" using a by simp
  have p2: "pend (readMark t2) r = Suc (Suc (pend (readMark tso) r))" "r \<in> readers t2"
    using a r by simp_all
  have "pend (readMark (DoneRead W r t2)) r = Suc (pend (readMark tso) r)"
    using p2 by (simp add: DoneRead_def doneRead_pend)
  moreover have "DoneRead W r (DoneRead W r t2) = DoneRead W r t2"
    by (simp add: DoneRead_def doneRead_def)
  ultimately show ?thesis by (simp add: r)
qed

end

lemma race_unfold:
  "race_reader early r c \<lparr>current = a1, saved = a2, txnMark = a3, readMark = a4, readers = a5, lastCleanupTs = a6,
     stopNotifier = a7, committedTxns = a8, readings = a9\<rparr> =
   Some (hasConflict (race_txn r [race_x] {''z''}) (if early then \<lparr>current = a1, saved = a2, txnMark = a3, readMark = a4, readers = a5, lastCleanupTs = a6,
     stopNotifier = a7, committedTxns = a8, readings = a9\<rparr> else \<lparr>current = a1, saved = a2, txnMark = a3, readMark = wm_Begin list_watermark r a4, readers = a5, lastCleanupTs = a6,
     stopNotifier = a7, committedTxns = a8, readings = a9\<rparr>), r, c)"
  "race_others early r c \<lparr>current = a1, saved = a2, txnMark = a3, readMark = a4, readers = a5, lastCleanupTs = a6,
     stopNotifier = a7, committedTxns = a8, readings = a9\<rparr> =
   (case ReadTs_acquire list_watermark \<lparr>current = a1, saved = a2, txnMark = a3, readMark = a4, readers = a5, lastCleanupTs = a6,
     stopNotifier = a7, committedTxns = a8, readings = a9\<rparr> of (r3, tso1) \<Rightarrow> Option.bind
           (newCommitTs list_watermark demo_clock (race_txn r3 [] {''y''}) (DoneRead list_watermark r3 tso1))
           (\<lambda>(_, tso2). race_reader early r c tso2))"
  by (simp_all add: race_reader_def race_others_def ReadTs_begin_def)

lemmas run_simps = allocate_def demo_tso_def newTSO_def demo_clock_def Let_def Reset_def Incr_def ExceedLogicalMax_def MAX_LOGICAL_def Compose_def i64_def
lemmas race_simps = race_run_def race_txn_def newCommitTs_def hasConflict_def ReadTs_acquire_def
  ReadTs_lock_def ReadTs_begin_def DoneRead_def doneRead_def currentReadTs_def demo_mark_def list_watermark_def
  cleanupCommittedTransactions_def race_x_def

lemma demo_allocate_3: "map_option fst (allocate_n demo_clock 3 demo_tso) =
    Some [1000 * 2 ^ 18 + 5, 1000 * 2 ^ 18 + 6, 1001 * 2 ^ 18 + 1]"
  by (simp add: numeral_3_eq_3 run_simps)

lemma Reset_eq: "Reset n t = \<lparr>physical = n, logical = 0\<rparr>"
  by (cases t) (simp add: Reset_def)

lemma StartServing_clock_readMark: "StartServing_clock clk val tso = (r, tso') \<Longrightarrow> readMark tso' = readMark tso"
  by (auto simp: StartServing_clock_def calibrate_def Let_def split: option.splits res.splits)

lemma persistUpperbound_readMark:
  "persistUpperboundOnStartup propose cid (tso, d) = (r, (tso', d')) \<Longrightarrow> readMark tso' = readMark tso"
  by (auto simp: persistUpperboundOnStartup_def Let_def split: prod.splits res.splits)

lemma StartServing_OkE:
  assumes "StartServing W clk getVal propose cid (tso, d) = (Ok u, (tso', d'))"
  obtains val t1 t2 where "getVal d = Ok val"
    "StartServing_clock clk val (tso\<lparr>stopNotifier := ChanOpen, readMark := wm_Init W (readMark tso),
       txnMark := wm_Init W (txnMark tso)\<rparr>) = (Ok (), t1)"
    "persistUpperboundOnStartup propose cid (t1, d) = (Ok (), (t2, d'))"
    "tso' = t2\<lparr>readMark := wm_SetDoneUntil W (Compose (current t2)) (readMark t2),
        txnMark := wm_SetDoneUntil W (Compose (current t2)) (txnMark t2)\<rparr>"
  using assms unfolding StartServing_def
  by (simp add: Let_def split: res.splits prod.splits)

lemma StartServing_readMark:
  assumes "StartServing W clk getVal propose cid (tso, d) = (Ok u, (tso', d'))"
  shows "readMark tso' = wm_SetDoneUntil W (currentReadTs tso') (wm_Init W (readMark tso))"
proof (rule StartServing_OkE [OF assms])
  fix val t1 t2
  assume "StartServing_clock clk val (tso\<lparr>stopNotifier := ChanOpen, readMark := wm_Init W (readMark tso),
       txnMark := wm_Init W (txnMark tso)\<rparr>) = (Ok (), t1)"
    and "persistUpperboundOnStartup propose cid (t1, d) = (Ok (), (t2, d'))"
    and "tso' = t2\<lparr>readMark := wm_SetDoneUntil W (Compose (current t2)) (readMark t2),
        txnMark := wm_SetDoneUntil W (Compose (current t2)) (txnMark t2)\<rparr>"
  then show ?thesis
    by (simp add: currentReadTs_def StartServing_clock_readMark persistUpperbound_readMark)
qed

lemma StartServing_fresh:
  assumes "sane_clock clk" and "\<And>n. clk n < 2 ^ 44" and "getVal d = Ok None"
    and "StartServing W clk getVal propose cid (tso, d) = (Ok u, (tso', d'))"
  shows "serving tso'"
proof -
  obtain t1 t2 where
    c1: "StartServing_clock clk None (tso\<lparr>stopNotifier := ChanOpen, readMark := wm_Init W (readMark tso),
       txnMark := wm_Init W (txnMark tso)\<rparr>) = (Ok (), t1)"
    and per: "persistUpperboundOnStartup propose cid (t1, d) = (Ok (), (t2, d'))"
    and t': "tso' = t2\<lparr>readMark := wm_SetDoneUntil W (Compose (current t2)) (readMark t2),
        txnMark := wm_SetDoneUntil W (Compose (current t2)) (txnMark t2)\<rparr>"
    by (rule StartServing_OkE [OF assms(4)]) (auto simp: assms(3))
  have t1: "current t1 = \<lparr>physical = clk (readings tso), logical = 0\<rparr>"
    using c1 by (auto simp: StartServing_clock_def Reset_eq)
  have c: "0 \<le> clk (readings tso)" "clk (readings tso) < 2 ^ 44"
    using assms(2) sane_clockD(1) [OF assms(1)] by auto
  show ?thesis
    using persistUpperboundOnStartup_Ok [OF per] c t1 by (simp add: t' serving_def ts_range_def MAX_LOGICAL_def)
qed

lemma StartServing_serving:
  assumes "sane_clock clk" and "\<And>n. clk n < 2 ^ 44" and "getVal d = Ok val" and "persisted_bound val"
    and "StartServing W clk getVal propose cid (tso, d) = (Ok u, (tso', d'))"
  shows "serving tso'"
proof (cases val)
  case None
  then show ?thesis using StartServing_fresh [OF assms(1,2) _ assms(5)] assms(3) by simp
next
  case (Some v)
  then obtain b where "v = upperBoundBytes b" "0 \<le> b" "b < 2 ^ 44" using assms(4) by (auto simp: persisted_bound_def)
  then show ?thesis using StartServing_found(3) [OF assms(1) _ _ assms(2) _ assms(5)] assms(3) Some by auto
qed

lemma acquire_simps [simp]:
  "current (snd (ReadTs_acquire W tso)) = current tso" "saved (snd (ReadTs_acquire W tso)) = saved tso"
  "readings (snd (ReadTs_acquire W tso)) = readings tso" "committedTxns (snd (ReadTs_acquire W tso)) = committedTxns tso"
  by (simp_all add: ReadTs_acquire_def ReadTs_lock_def ReadTs_begin_def Let_def)

lemma currentReadTs_doneRead [simp]: "currentReadTs (doneRead W r t) = currentReadTs t"
  by (simp add: currentReadTs_def)

lemma currentReadTs_cleanup [simp]: "currentReadTs (cleanupCommittedTransactions W t) = currentReadTs t"
  by (simp add: currentReadTs_def)

lemma doneRead_absent: "r \<notin> readers tso \<Longrightarrow> doneRead W r tso = tso"
  by (simp add: doneRead_def)

lemma idle_clock_sane: "sane_clock idle_clock" "idle_clock n < 2 ^ 44"
  by (auto simp: sane_clock_def idle_clock_def mono_def)

lemma demo_started_Ok:
  assumes "sane_clock clk" "\<And>n. clk n < 2 ^ 44" "0 \<le> b" "b < 2 ^ 44"
  shows "\<exists>t d. demo_started clk b = (Ok (), (t, d))"
proof -
  have "StartServing_clock clk (Some (upperBoundBytes b)) (t :: mark_state TSO) =
    (Ok (), t\<lparr>saved := \<lparr>physical = b, logical = 0\<rparr>,
               current := \<lparr>physical = max (b + 1) (clk (readings t)), logical = 0\<rparr>,
               readings := readings t + 2\<rparr>)" for t
    using assms by (intro StartServing_clock_found) auto
  then show ?thesis
    by (auto simp: demo_started_def StartServing_def demo_get_def demo_propose_def persistUpperboundOnStartup_def Let_def)
qed

section \<open>Properties\<close>



text \<open>C8: a leader that starts serving from the bound its predecessor persisted continues above every
  timestamp the predecessor handed out, and is ready to serve, whatever the two clocks show.\<close>

theorem leader_handover_increases:
  assumes "sane_clock clk" and "serving old" and "logical (current old) + int n \<le> MAX_LOGICAL"
    and "allocate_n clk n old = Some (tss, old')"
    and "sane_clock clk'" and "\<And>i. clk' i < 2 ^ 44" and "physical (saved old) < 2 ^ 44"
    and "getVal d = Ok (Some (upperBoundBytes (physical (saved old))))"
    and "StartServing W clk' getVal propose cid (new, d) = (Ok u, (new', d'))"
  shows "serving new' \<and> (\<forall>ts \<in> set tss. ts < currentReadTs new')"
proof
  have b: "0 \<le> physical (saved old)" using assms(2) by (auto simp: serving_def ts_range_def)
  note st = StartServing_found [OF assms(5) b assms(7,6,8,9)]
  show "serving new'" by (rule st(3))
  show "\<forall>ts \<in> set tss. ts < currentReadTs new'"
  proof
    fix ts assume "ts \<in> set tss"
    then have "uint ts < physical (saved old) * 2 ^ 18"
      using allocate_n_sorted [OF assms(1-4)] by blast
    also have "\<dots> < uint (currentReadTs new')"
      using st(3) by (simp add: currentReadTs_def Compose_value_range serving_def) (simp add: st(1))
    finally show "ts < currentReadTs new'" by (simp add: word_less_def)
  qed
qed

theorem leader_handover_increases_witness:
  "\<exists>tss old' new' d'. allocate_n demo_clock 3 demo_tso = Some (tss, old')
     \<and> demo_started demo_clock 3000 = (Ok (), (new', d'))
     \<and> serving new' \<and> (\<forall>ts \<in> set tss. ts < currentReadTs new')"
proof -
  have c: "demo_clock i < 2 ^ 44" for i by (simp add: demo_clock_def)
  have b: "(0::int) \<le> 3000" "(3000::int) < 2 ^ 44" by simp_all
  obtain tss o' where a: "allocate_n demo_clock 3 demo_tso = Some (tss, o')"
    using demo_allocate_3 by auto
  obtain t d where s: "StartServing list_watermark demo_clock demo_get demo_propose ''id''
      (newTSO demo_mark, upperBoundBytes 3000) = (Ok (), (t, d))"
    using demo_started_Ok [OF demo_clock_sane c b] by (auto simp: demo_started_def)
  have "serving t \<and> (\<forall>ts \<in> set tss. ts < currentReadTs t)"
    by (rule leader_handover_increases [OF demo_clock_sane demo_tso_serving _ a demo_clock_sane c _ _ s])
      (simp_all add: demo_tso_def newTSO_def MAX_LOGICAL_def demo_get_def)
  then show ?thesis using a s by (auto simp: demo_started_def)
qed

text \<open>C9: cleaning up does not lose conflicts. While a transaction's read timestamp is pending in the
  read mark, its conflict check after a cleanup finds exactly the transactions, among all recorded
  before it, that committed after the read timestamp and wrote a key it read.\<close>

theorem conflict_survives_cleanup:
  assumes "watermark W pend hi wm_ok" and "wm_ok (readMark tso)"
    and "0 < pend (readMark tso) (txn_readTs txn)"
  shows "hasConflict txn (cleanupCommittedTransactions W tso) \<longleftrightarrow>
    (\<exists>c \<in> set (committedTxns tso). txn_readTs txn < ct_ts c
       \<and> (\<exists>k \<in> set (txn_reads txn). k \<in> ct_conflictKeys c))"
  using watermark.hasConflict_cleanup [OF assms] by (simp add: hasConflict_iff)

theorem conflict_survives_cleanup_witness:
  "hasConflict (race_txn 7 [race_x] {})
     (cleanupCommittedTransactions list_watermark
        (demo_tso\<lparr>readMark := \<lparr>ms_pending = [7], ms_until = 6, ms_top = 7\<rparr>,
                  committedTxns := [\<lparr>ct_ts = 5, ct_conflictKeys = {race_x}\<rparr>, \<lparr>ct_ts = 9, ct_conflictKeys = {race_x}\<rparr>]\<rparr>))"
  by (subst conflict_survives_cleanup [OF lw.watermark_axioms])
    (simp_all add: list_mark_ok_def list_mark_pend_def race_txn_def)

text \<open>C27: an idle leader blocks. When the clock has passed the bound persisted at start-up before any
  transaction has moved the oracle's clock, the periodic window update changes nothing and the next
  commit never returns.\<close>

theorem oracle_idle_blocks:
  assumes "sane_clock clk" and "0 \<le> b" and "b < 2 ^ 44" and "\<And>n. clk n < 2 ^ 44"
    and "getVal d = Ok (Some (upperBoundBytes b))"
    and "StartServing W clk getVal propose cid (tso, d) = (Ok u, (tso', d'))"
    and "\<And>k. readings tso' \<le> k \<Longrightarrow> physical (saved tso') \<le> clk k"
    and "\<not> hasConflict txn tso'"
  shows "UpdateWindow persist (tso', e) = Some (Ok (), (tso', e)) \<and> newCommitTs W clk txn tso' = None"
proof
  note st = StartServing_found [OF assms(1-6)]
  have "i64 (physical (current tso') + 2000) = physical (saved tso')"
    using st(3) by (subst i64_small) (auto simp: st(1,2) serving_def ts_range_def)
  moreover have "physical (saved tso') \<noteq> 0" using st(3) by (auto simp: serving_def ts_range_def)
  ultimately show "UpdateWindow persist (tso', e) = Some (Ok (), (tso', e))"
    by (simp add: UpdateWindow_def Let_def defaultUpperBoundWindow_def)
  have "allocate clk (cleanupCommittedTransactions W (doneRead W (txn_readTs txn) tso')) = None"
    using assms(7) by (intro allocate_blocks) simp
  then show "newCommitTs W clk txn tso' = None"
    using assms(8) by (simp add: newCommitTs_def Let_def)
qed

theorem oracle_idle_blocks_witness:
  "\<exists>tso' d'. demo_started idle_clock 500 = (Ok (), (tso', d'))
     \<and> newCommitTs list_watermark idle_clock (race_txn 0 [] {''k''}) tso' = None"
proof -
  have b: "(0::int) \<le> 500" "(500::int) < 2 ^ 44" by simp_all
  obtain t d where s: "StartServing list_watermark idle_clock demo_get demo_propose ''id''
      (newTSO demo_mark, upperBoundBytes 500) = (Ok (), (t, d))"
    using demo_started_Ok [OF idle_clock_sane b] by (auto simp: demo_started_def)
  note st = StartServing_found [OF idle_clock_sane(1) b idle_clock_sane(2) _ s]
  have r: "readings t = 2" "physical (saved t) = 3000"
    using st(2,5) by (auto simp: demo_get_def newTSO_def idle_clock_def)
  have "newCommitTs list_watermark idle_clock (race_txn 0 [] {''k''}) t = None"
    by (rule oracle_idle_blocks [OF idle_clock_sane(1) b idle_clock_sane(2) _ s, THEN conjunct2])
      (use r in \<open>simp_all add: demo_get_def idle_clock_def hasConflict_def race_txn_def\<close>)
  then show ?thesis using s by (auto simp: demo_started_def)
qed

text \<open>C28: the overflow test precedes the increment. With the logical counter at its maximum and the clock
  still in the same, odd millisecond, the timestamp handed out is smaller than the previous one.\<close>

theorem oracle_overflow_regresses:
  assumes "serving tso" and "logical (current tso) = MAX_LOGICAL" and "odd (physical (current tso))"
    and "clk (readings tso) \<le> physical (current tso)"
  shows "\<exists>ts tso'. allocate clk tso = Some (ts, tso') \<and> ts < currentReadTs tso"
proof -
  obtain p where cur: "current tso = \<lparr>physical = p, logical = MAX_LOGICAL\<rparr>"
    using assms(2) by (cases "current tso") simp
  have p: "0 \<le> p" "p < 2 ^ 45" "p < physical (saved tso)" "odd p" "clk (readings tso) \<le> p"
    using assms by (auto simp: serving_def ts_range_def cur)
  have "i64 (2 ^ 18) = 2 ^ 18" by (simp add: i64_small)
  then have "allocate clk tso = Some (Compose \<lparr>physical = p, logical = 0\<rparr>,
      tso\<lparr>current := \<lparr>physical = p, logical = 2 ^ 18\<rparr>, readings := Suc (readings tso)\<rparr>)"
    using p Compose_overflow [of p]
    by (simp add: allocate_def cur Let_def ExceedLogicalMax_def Incr_def MAX_LOGICAL_def)
  moreover have "Compose \<lparr>physical = p, logical = 0\<rparr> < currentReadTs tso"
    unfolding currentReadTs_def using p
    by (subst Compose_less_iff) (simp_all add: cur ts_range_def MAX_LOGICAL_def)
  ultimately show ?thesis by blast
qed

theorem oracle_overflow_regresses_witness:
  "\<exists>ts tso'. allocate demo_clock (demo_tso\<lparr>current := \<lparr>physical = 1001, logical = MAX_LOGICAL\<rparr>\<rparr>) = Some (ts, tso')
     \<and> ts < currentReadTs (demo_tso\<lparr>current := \<lparr>physical = 1001, logical = MAX_LOGICAL\<rparr>\<rparr>)"
  by (rule oracle_overflow_regresses)
    (simp_all add: demo_tso_def newTSO_def serving_def ts_range_def MAX_LOGICAL_def demo_clock_def)

text \<open>C29: two transactions that begin at the same read timestamp leave it pending. The set of readers
  forgets the timestamp at the first end, so the second end does not reach the read mark, and one
  mark stays pending for ever.\<close>

theorem shared_read_timestamp_leaks:
  assumes "watermark W pend hi wm_ok"
    and "ReadTs_acquire W tso = (r, t1)" and "ReadTs_acquire W t1 = (r', t2)"
  shows "r' = r \<and> pend (readMark (DoneRead W r' (DoneRead W r t2))) r = Suc (pend (readMark tso) r)"
  using assms(2,3) by (rule watermark.shared_read_leak [OF assms(1)])

theorem shared_read_timestamp_leaks_witness:
  "\<exists>r t1 r' t2. ReadTs_acquire list_watermark demo_tso = (r, t1) \<and> ReadTs_acquire list_watermark t1 = (r', t2)
     \<and> list_mark_pend (readMark (DoneRead list_watermark r' (DoneRead list_watermark r t2))) r = 1"
proof -
  obtain r t1 where a: "ReadTs_acquire list_watermark demo_tso = (r, t1)" by force
  obtain r' t2 where b: "ReadTs_acquire list_watermark t1 = (r', t2)" by force
  have "list_mark_pend (readMark demo_tso) r = 0"
    by (simp add: demo_tso_def newTSO_def demo_mark_def list_mark_pend_def)
  with shared_read_timestamp_leaks [OF lw.watermark_axioms a b] a b show ?thesis by auto
qed


end
