(* ===== verification/Txn.thy ===== *)
theory Txn
  imports Tso
begin

text \<open>
  \<^verbatim>\<open>txn.go\<close>: transactions of a leader. A transaction reads at the timestamp it began with, buffers its
  writes as sub-commands, and asks the timestamp oracle for a commit timestamp. The transactional
  reads of \<^verbatim>\<open>distributed.go\<close>, which record the keys a transaction has read, are here too, since
  \<^verbatim>\<open>DeleteByPrefix\<close> calls one of them.
\<close>

section \<open>Transactions\<close>

definition newTxn :: "string \<Rightarrow> string \<Rightarrow> bool \<Rightarrow> u64 \<Rightarrow> Txn" where
  "newTxn uid cid update readTs =
     \<lparr> txn_id = uid, txn_cmd = set_ReadTs readTs (NewTransactionCommand cid), txn_readTs = readTs,
       txn_commitTs = 0, txn_reads = [], txn_conflictKeys = {}, txn_writes = [],
       txn_update = update, txn_discarded = False \<rparr>"

definition BeginTxn ::
    "'w watermark_api \<Rightarrow> error option \<Rightarrow> string \<Rightarrow> string \<Rightarrow> bool \<Rightarrow> ('w TSO, Txn) call" where
  "BeginTxn W waitErr uid cid update tso =
     (case ReadTs W waitErr tso of
        (Ok readTs, tso') \<Rightarrow> (Ok (newTxn uid cid update readTs), tso')
      | (Err e, tso') \<Rightarrow> (Err e, tso')
      | (Panicked p, tso') \<Rightarrow> (Panicked p, tso'))"

definition addReadKey :: "key \<Rightarrow> Txn \<Rightarrow> Txn" where
  "addReadKey key txn = txn\<lparr>txn_reads := txn_reads txn @ [key]\<rparr>"

definition AddWriteKey :: "key \<Rightarrow> Txn \<Rightarrow> Txn" where
  "AddWriteKey key txn = txn\<lparr>txn_writes := txn_writes txn @ [key]\<rparr>"

definition validate :: "key \<Rightarrow> (Txn, unit) call" where
  "validate key txn =
     (if \<not> txn_update txn then (Err ErrReadOnlyTxn, txn)
      else if txn_discarded txn then (Err ErrDiscardedTxn, txn)
      else if length key = 0 then (Err ErrEmptyKey, txn)
      else (Ok (), txn\<lparr>txn_conflictKeys := insert key (txn_conflictKeys txn),
                       txn_writes := txn_writes txn @ [key]\<rparr>))"

text \<open>\<^verbatim>\<open>txn.cmd.AddSubCommand\<close> on the transaction's own command.\<close>

definition txn_addSub :: "Command \<Rightarrow> (Txn, unit) call" where
  "txn_addSub sc txn = (let (r, c) = AddSubCommand (Some sc) (txn_cmd txn) in (r, txn\<lparr>txn_cmd := c\<rparr>))"

definition txn_IncrBy :: "string \<Rightarrow> key \<Rightarrow> u64 \<Rightarrow> (Txn, unit) call" where
  "txn_IncrBy cid key delta = bindS (validate key) (\<lambda>_. txn_addSub (NewIncrByCommand cid key delta))"

definition txn_DecrBy :: "string \<Rightarrow> key \<Rightarrow> u64 \<Rightarrow> (Txn, unit) call" where
  "txn_DecrBy cid key delta = bindS (validate key) (\<lambda>_. txn_addSub (NewDecrByCommand cid key delta))"

definition txn_Set :: "string \<Rightarrow> key \<Rightarrow> bytes \<Rightarrow> duration list \<Rightarrow> (Txn, unit) call" where
  "txn_Set cid key value ttl =
     bindS (validate key) (\<lambda>_. txn_addSub (NewSetCommand cid key value ttl))"

definition txn_Delete :: "string \<Rightarrow> key \<Rightarrow> (Txn, unit) call" where
  "txn_Delete cid key = bindS (validate key) (\<lambda>_. txn_addSub (NewDeleteCommand cid key))"

fun validate_all :: "key list \<Rightarrow> (Txn, unit) call" where
  "validate_all [] = retS ()"
| "validate_all (k # ks) = bindS (validate k) (\<lambda>_. validate_all ks)"

definition txn_DeleteByPrefix ::
    "(key \<Rightarrow> (Txn, key list) call) \<Rightarrow> string \<Rightarrow> key \<Rightarrow> (Txn, unit) call" where
  "txn_DeleteByPrefix getKeys cid pre =
     bindS (getKeys pre) (\<lambda>keys.
     bindS (validate_all keys) (\<lambda>_.
     txn_addSub (NewDeleteByPrefixCommand cid pre)))"

definition txn_UpdateJson ::
    "'j json_api \<Rightarrow> string \<Rightarrow> key \<Rightarrow> 'j jmap \<Rightarrow> duration list \<Rightarrow> (Txn, unit) call" where
  "txn_UpdateJson J cid key delta ttl =
     bindS (validate key) (\<lambda>_.
     bindS (liftR (json_Marshal J delta)) (\<lambda>b.
     txn_addSub (NewUpdateCommand cid key b JSON [] ttl)))"

definition txn_UpdateProtobuf ::
    "('m, 'fd) proto_api \<Rightarrow> ('set, 'files, 'desc, 'm) desc_api \<Rightarrow> 'set desc_store
     \<Rightarrow> string \<Rightarrow> key \<Rightarrow> 'm \<Rightarrow> duration list \<Rightarrow> (Txn, unit) call" where
  "txn_UpdateProtobuf P D cache cid key deltaProtoMsg ttl =
     bindS (validate key) (\<lambda>_.
     bindS (liftR (proto_Marshal P deltaProtoMsg)) (\<lambda>b.
     let msgName = proto_MessageName P deltaProtoMsg
     in case IsValidMessage D (GetProtoDescriptorStore cache) msgName of
          Err e \<Rightarrow> failS ErrUnknownProtoMsg
        | Panicked p \<Rightarrow> panicS p
        | Ok valid \<Rightarrow>
            if \<not> valid then failS ErrUnknownProtoMsg
            else txn_addSub (NewUpdateCommand cid key b PROTOBUF msgName ttl)))"

definition txn_Discard :: "'w watermark_api \<Rightarrow> Txn \<times> 'w TSO \<Rightarrow> Txn \<times> 'w TSO" where
  "txn_Discard W st =
     (if txn_discarded (fst st) then st
      else ((fst st)\<lparr>txn_discarded := True\<rparr>, DoneRead W (txn_readTs (fst st)) (snd st)))"

text \<open>\<^verbatim>\<open>MaxBatchSize\<close> of \<^verbatim>\<open>badger.go\<close>\<close>

definition MaxBatchSize :: nat where
  "MaxBatchSize = 100"

definition txn_stamp :: "u64 \<Rightarrow> (Txn, unit) call" where
  "txn_stamp commitTs txn =
     (Ok (), txn\<lparr>txn_cmd := set_CommitTs commitTs (txn_cmd txn), txn_commitTs := commitTs\<rparr>)"

definition txn_Commit ::
    "'w watermark_api \<Rightarrow> clock \<Rightarrow> Txn \<times> 'w TSO \<Rightarrow> (Command option res \<times> (Txn \<times> 'w TSO)) option" where
  "txn_Commit W clk st =
     (let (txn, tso) = st
      in if txn_discarded txn then Some (Err ErrDiscardedTxn, st)
         else if length (txn_writes txn) = 0 \<and> length (cmd_SubCommands (txn_cmd txn)) = 0
         then Some (Ok None, txn_Discard W st)
         else if length (cmd_SubCommands (txn_cmd txn)) > MaxBatchSize
         then Some (Err ErrBatchTooBig, txn_Discard W st)
         else map_option
                (\<lambda>(r, (tso', txn')).
                   ((case r of Ok _ \<Rightarrow> Ok (Some (txn_cmd txn')) | Err e \<Rightarrow> Err e | Panicked p \<Rightarrow> Panicked p),
                    txn_Discard W (txn', tso')))
                (tso_Commit W clk txn txn_stamp (tso, txn)))"

section \<open>Transactional reads\<close>

text \<open>\<open>getAt\<close>, \<open>getByPrefixAt\<close> and \<open>getKeysByPrefixAt\<close> are the reads of the local database at a
  timestamp; \<open>readErr\<close> is the error with which \<^verbatim>\<open>waitForReadState\<close> failed, if it did.\<close>

definition GetWithTxn ::
    "error option \<Rightarrow> (key \<Rightarrow> u64 \<Rightarrow> bytes option res) \<Rightarrow> key \<Rightarrow> (Txn, bytes option) call" where
  "GetWithTxn readErr getAt key txn =
     (case readErr of
        Some e \<Rightarrow> (Err e, txn)
      | None \<Rightarrow>
          (case getAt key (txn_readTs txn) of
             Err e \<Rightarrow> (Err e, txn)
           | Panicked p \<Rightarrow> (Panicked p, txn)
           | Ok None \<Rightarrow> (Ok None, txn)
           | Ok (Some v) \<Rightarrow> (Ok (Some v), addReadKey key txn)))"

definition GetByPrefixWithTxn ::
    "(key \<Rightarrow> u64 \<Rightarrow> (key \<times> bytes) list res) \<Rightarrow> key \<Rightarrow> (Txn, (key \<times> bytes) list) call" where
  "GetByPrefixWithTxn getByPrefixAt pre txn =
     (case getByPrefixAt pre (txn_readTs txn) of
        Err e \<Rightarrow> (Err e, txn)
      | Panicked p \<Rightarrow> (Panicked p, txn)
      | Ok kvs \<Rightarrow> (Ok kvs, fold addReadKey (map fst kvs) txn))"

definition GetKeysByPrefixWithTxn ::
    "(key \<Rightarrow> u64 \<Rightarrow> key list res) \<Rightarrow> key \<Rightarrow> (Txn, key list) call" where
  "GetKeysByPrefixWithTxn getKeysByPrefixAt pre txn =
     (case getKeysByPrefixAt pre (txn_readTs txn) of
        Err e \<Rightarrow> (Err e, txn)
      | Panicked p \<Rightarrow> (Panicked p, txn)
      | Ok keys \<Rightarrow> (Ok keys, fold addReadKey keys txn))"

section \<open>Vocabulary of the properties\<close>

text \<open>A sub-command is not a transaction, and the key it writes is in the conflict set.\<close>

definition sub_tracked :: "key set \<Rightarrow> Command \<Rightarrow> bool" where
  "sub_tracked ks sc \<longleftrightarrow> cmd_Type sc \<noteq> TRANSACTION \<and>
     (cmd_Type sc \<noteq> DELETE_BY_PREFIX \<longrightarrow> cmd_Key sc \<in> ks)"

definition txn_wf :: "Txn \<Rightarrow> bool" where
  "txn_wf txn \<longleftrightarrow>
     (\<forall>sc \<in> set (cmd_SubCommands (txn_cmd txn)). sub_tracked (txn_conflictKeys txn) sc)
     \<and> txn_conflictKeys txn \<subseteq> set (txn_writes txn) \<and> [] \<notin> txn_conflictKeys txn
     \<and> cmd_Type (txn_cmd txn) = TRANSACTION \<and> cmd_ReadTs (txn_cmd txn) = txn_readTs txn"

text \<open>What a transaction may do between its begin and its end, whatever the call returns.\<close>

inductive txn_op ::
    "'j json_api \<Rightarrow> ('m, 'fd) proto_api \<Rightarrow> ('set, 'files, 'desc, 'm) desc_api \<Rightarrow> 'set desc_store
     \<Rightarrow> Txn \<Rightarrow> Txn \<Rightarrow> bool"
  for J P D cache where
  op_Get: "txn_op J P D cache txn (snd (GetWithTxn e getAt k txn))"
| op_GetByPrefix: "txn_op J P D cache txn (snd (GetByPrefixWithTxn getByPrefixAt k txn))"
| op_GetKeysByPrefix: "txn_op J P D cache txn (snd (GetKeysByPrefixWithTxn getKeysAt k txn))"
| op_AddWriteKey: "txn_op J P D cache txn (AddWriteKey k txn)"
| op_IncrBy: "txn_op J P D cache txn (snd (txn_IncrBy cid k d txn))"
| op_DecrBy: "txn_op J P D cache txn (snd (txn_DecrBy cid k d txn))"
| op_Set: "txn_op J P D cache txn (snd (txn_Set cid k v ttl txn))"
| op_Delete: "txn_op J P D cache txn (snd (txn_Delete cid k txn))"
| op_DeleteByPrefix:
    "txn_op J P D cache txn (snd (txn_DeleteByPrefix (GetKeysByPrefixWithTxn getKeysAt) cid k txn))"
| op_UpdateJson: "txn_op J P D cache txn (snd (txn_UpdateJson J cid k dj ttl txn))"
| op_UpdateProtobuf: "txn_op J P D cache txn (snd (txn_UpdateProtobuf P D cache cid k dm ttl txn))"

section \<open>Two crossing transactions\<close>

text \<open>Two transactions that begin together, each reading the key the other writes.\<close>

definition skew_txn :: "(key \<Rightarrow> u64 \<Rightarrow> bytes option res) \<Rightarrow> key \<Rightarrow> key \<Rightarrow> u64 \<Rightarrow> Txn" where
  "skew_txn getAt rk wk r =
     snd (txn_Set ''c'' wk [1] [] (snd (GetWithTxn None getAt rk (newTxn ''u'' ''t'' True r))))"

definition skew_second ::
    "(key \<Rightarrow> u64 \<Rightarrow> bytes option res) \<Rightarrow> u64 \<Rightarrow> mark_state TSO \<Rightarrow> Command option res option" where
  "skew_second getAt r tso = map_option fst (txn_Commit list_watermark demo_clock (skew_txn getAt ''y'' ''x'' r, tso))"

definition skew_run :: "(key \<Rightarrow> u64 \<Rightarrow> bytes option res) \<Rightarrow> (Command option res \<times> Command option res) option" where
  "skew_run getAt =
     (let (r1, tso1) = ReadTs_acquire list_watermark demo_tso;
          (r2, tso2) = ReadTs_acquire list_watermark tso1
      in Option.bind (txn_Commit list_watermark demo_clock (skew_txn getAt ''x'' ''y'' r1, tso2)) (\<lambda>(res1, (_, tso3)).
         map_option (\<lambda>res2. (res1, res2)) (skew_second getAt r2 tso3)))"

section \<open>Transactions keep their read timestamp\<close>

lemma txn_addSub_readTs [simp]: "txn_readTs (snd (txn_addSub sc txn)) = txn_readTs txn"
  by (simp add: txn_addSub_def split: prod.splits)

lemma validate_readTs [simp]: "txn_readTs (snd (validate k txn)) = txn_readTs txn"
  by (simp add: validate_def)

lemma bindS_invariant:
  assumes "\<And>s. f (snd (m s)) = f s" and "\<And>a s. f (snd (g a s)) = f s"
  shows "f (snd (bindS m g s)) = f s"
  using assms(1) [of s] assms(2)
  by (auto simp: bindS_def split: prod.splits res.splits)

lemma validate_all_readTs [simp]: "txn_readTs (snd (validate_all ks txn)) = txn_readTs txn"
  by (induction ks arbitrary: txn) (auto simp: retS_def intro!: bindS_invariant [where f = txn_readTs])

lemma fold_addReadKey_readTs [simp]: "txn_readTs (fold addReadKey ks txn) = txn_readTs txn"
  by (induction ks arbitrary: txn) (simp_all add: addReadKey_def)

lemma txn_op_readTs:
  assumes "txn_op J P D cache txn txn'"
  shows "txn_readTs txn' = txn_readTs txn"
  using assms
proof cases
  case op_DeleteByPrefix
  then show ?thesis
    by (auto simp: txn_DeleteByPrefix_def GetKeysByPrefixWithTxn_def split: res.splits
        intro!: bindS_invariant [where f = txn_readTs])
next
  case op_UpdateProtobuf
  then show ?thesis
    by (auto simp: txn_UpdateProtobuf_def call_simps(1-4) Let_def split: res.splits
        intro!: bindS_invariant [where f = txn_readTs])
qed (auto simp: GetWithTxn_def GetByPrefixWithTxn_def GetKeysByPrefixWithTxn_def AddWriteKey_def
      addReadKey_def txn_IncrBy_def txn_DecrBy_def txn_Set_def txn_Delete_def txn_UpdateJson_def liftR_def
      split: option.splits res.splits intro!: bindS_invariant [where f = txn_readTs])

section \<open>Buffered writes are tracked\<close>

lemma newTxn_wf: "txn_wf (newTxn uid cid upd r)"
  by (simp add: txn_wf_def newTxn_def new_command_defs)

lemma validate_wf: "txn_wf txn \<Longrightarrow> txn_wf (snd (validate k txn))"
  by (auto simp: txn_wf_def validate_def sub_tracked_def)

lemma validate_Ok: "validate k txn = (Ok u, txn') \<Longrightarrow> k \<in> txn_conflictKeys txn'"
  by (auto simp: validate_def split: if_splits)

lemma txn_addSub_wf:
  "txn_wf txn \<Longrightarrow> sub_tracked (txn_conflictKeys txn) sc \<Longrightarrow> txn_wf (snd (txn_addSub sc txn))"
  by (auto simp: txn_wf_def txn_addSub_def AddSubCommand_def sub_tracked_def)

lemma buffer_wf:
  assumes "txn_wf txn" and "\<And>ks. k \<in> ks \<Longrightarrow> sub_tracked ks sc"
  shows "txn_wf (snd (bindS (validate k) (\<lambda>_. txn_addSub sc) txn))"
  using validate_wf [OF assms(1), of k] validate_Ok [of k txn] txn_addSub_wf assms(2)
  by (auto simp: bindS_def split: prod.splits res.splits)

lemma bindS_wf:
  assumes "txn_wf (snd (m txn))" and "\<And>a t. m txn = (Ok a, t) \<Longrightarrow> txn_wf t \<Longrightarrow> txn_wf (snd (f a t))"
  shows "txn_wf (snd (bindS m f txn))"
  using assms by (auto simp: bindS_def split: prod.splits res.splits)

lemma validate_all_wf: "txn_wf txn \<Longrightarrow> txn_wf (snd (validate_all ks txn))"
  by (induction ks arbitrary: txn) (auto simp: retS_def intro!: bindS_wf validate_wf)

lemma fold_addReadKey_wf: "txn_wf txn \<Longrightarrow> txn_wf (fold addReadKey ks txn)"
  by (induction ks arbitrary: txn) (simp_all add: addReadKey_def txn_wf_def)

lemma reads_wf:
  assumes "txn_wf txn"
  shows "txn_wf (snd (GetWithTxn e getAt k txn))" "txn_wf (snd (GetByPrefixWithTxn getByPrefixAt k txn))"
    "txn_wf (snd (GetKeysByPrefixWithTxn getKeysAt k txn))"
  using assms fold_addReadKey_wf [OF assms] fold_addReadKey_wf [OF assms, of "[k]"]
  by (auto simp: GetWithTxn_def GetByPrefixWithTxn_def GetKeysByPrefixWithTxn_def split: option.splits res.splits)

lemma txn_op_wf:
  assumes "txn_op J P D cache txn txn'" and wf: "txn_wf txn"
  shows "txn_wf txn'"
  using assms(1)
proof cases
  case (op_AddWriteKey k)
  then show ?thesis using wf by (auto simp: txn_wf_def AddWriteKey_def)
next
  case (op_DeleteByPrefix getKeysAt cid k)
  then show ?thesis
    using wf by (auto simp: txn_DeleteByPrefix_def sub_tracked_def new_command_defs
        intro!: bindS_wf reads_wf validate_all_wf txn_addSub_wf)
next
  case (op_UpdateJson cid k dj ttl)
  then show ?thesis
    using wf by (auto simp: txn_UpdateJson_def sub_tracked_def new_command_defs liftR_def dest: validate_Ok
        intro!: bindS_wf validate_wf txn_addSub_wf)
next
  case (op_UpdateProtobuf cid k dm ttl)
  then show ?thesis
    using wf by (auto simp: txn_UpdateProtobuf_def sub_tracked_def new_command_defs liftR_def failS_def panicS_def Let_def
        split: res.splits intro!: bindS_wf validate_wf txn_addSub_wf) (metis validate_Ok)
qed (auto simp: reads_wf wf txn_IncrBy_def txn_DecrBy_def txn_Set_def txn_Delete_def
      new_command_defs sub_tracked_def intro!: buffer_wf)

section \<open>The outcomes of a commit\<close>

lemma txn_Commit_cases:
  assumes "txn_Commit W clk (txn, tso) = Some (r, (txn', tso'))"
  obtains (aborted) "\<nexists>c. r = Ok (Some c)" "tso' = tso \<or> tso' = doneRead W (txn_readTs txn) tso"
  | (committed) c ts tso3 where "r = Ok (Some c)" "txn_commitTs txn' = ts" "\<not> hasConflict txn tso"
      "allocate clk (cleanupCommittedTransactions W (doneRead W (txn_readTs txn) tso)) = Some (ts, tso3)"
      "tso' = tso3\<lparr>txnMark := wm_Done W ts (wm_Begin W ts (txnMark tso3)),
                  committedTxns := committedTxns tso3 @ [\<lparr>ct_ts = ts, ct_conflictKeys = txn_conflictKeys txn\<rparr>]\<rparr>"
proof (cases "txn_discarded txn \<or> txn_writes txn = [] \<and> cmd_SubCommands (txn_cmd txn) = []
    \<or> MaxBatchSize < length (cmd_SubCommands (txn_cmd txn))")
  case True
  then show ?thesis
    using assms aborted by (auto simp: txn_Commit_def txn_Discard_def DoneRead_def split: if_splits)
next
  case False
  then obtain r0 tso0 txn0 where t: "tso_Commit W clk txn txn_stamp (tso, txn) = Some (r0, (tso0, txn0))"
    and r: "r = (case r0 of Ok _ \<Rightarrow> Ok (Some (txn_cmd txn0)) | Err e \<Rightarrow> Err e | Panicked p \<Rightarrow> Panicked p)"
    and d: "txn_Discard W (txn0, tso0) = (txn', tso')"
    using assms by (auto simp: txn_Commit_def split: if_splits)
  show ?thesis
  proof (cases "hasConflict txn tso")
    case True
    then show ?thesis
      using t r d False aborted
      by (auto simp: tso_Commit_def newCommitTs_def txn_Discard_def DoneRead_def)
  next
    case nc: False
    then obtain ts tso3 where
      a: "allocate clk (cleanupCommittedTransactions W (doneRead W (txn_readTs txn) tso)) = Some (ts, tso3)"
      and tso0: "tso0 = tso3\<lparr>txnMark := wm_Done W ts (wm_Begin W ts (txnMark tso3)),
            committedTxns := committedTxns tso3 @ [\<lparr>ct_ts = ts, ct_conflictKeys = txn_conflictKeys txn\<rparr>]\<rparr>"
      and r0: "r0 = Ok ()" and txn0: "txn0 = txn\<lparr>txn_cmd := set_CommitTs ts (txn_cmd txn), txn_commitTs := ts\<rparr>"
      using t by (auto simp: tso_Commit_def newCommitTs_def txn_stamp_def DoneCommit_def Let_def)
    have "readers tso3 = readers (doneRead W (txn_readTs txn) tso)"
      using a by (auto simp: allocate_def Let_def bind_eq_Some_conv split: if_splits)
    then have "txn_readTs txn \<notin> readers tso0" by (simp add: tso0 doneRead_def)
    then have "tso' = tso0" "txn_commitTs txn' = ts"
      using d txn0 by (auto simp: txn_Discard_def DoneRead_def doneRead_def split: if_splits)
    then show ?thesis using committed [OF _ _ nc a] r r0 tso0 by simp
  qed
qed

lemma txn_Commit_succeeds:
  assumes "serving tso" and "clk (readings tso) < physical (saved tso)"
    and "\<not> txn_discarded txn" and "cmd_SubCommands (txn_cmd txn) \<noteq> []"
    and "length (cmd_SubCommands (txn_cmd txn)) \<le> MaxBatchSize" and "\<not> hasConflict txn tso"
  shows "\<exists>ts txn' tso'. txn_Commit W clk (txn, tso) = Some (Ok (Some (set_CommitTs ts (txn_cmd txn))), (txn', tso'))
    \<and> txn_commitTs txn' = ts \<and> txn_discarded txn'"
proof -
  let ?t2 = "cleanupCommittedTransactions W (doneRead W (txn_readTs txn) tso)"
  have "serving ?t2" using assms(1) by (simp add: serving_def)
  then obtain ts t3 where "allocate clk ?t2 = Some (ts, t3)"
    using allocate_returns [of ?t2 clk] assms(2) by auto
  then show ?thesis
    using assms(3-) by (simp add: txn_Commit_def tso_Commit_def newCommitTs_def txn_stamp_def txn_Discard_def Let_def)
qed

lemma skew_unfold:
  "skew_second getAt r \<lparr>current = a1, saved = a2, txnMark = a3, readMark = a4, readers = a5, lastCleanupTs = a6,
     stopNotifier = a7, committedTxns = a8, readings = a9\<rparr> =
   map_option fst (txn_Commit list_watermark demo_clock (skew_txn getAt ''y'' ''x'' r,
     \<lparr>current = a1, saved = a2, txnMark = a3, readMark = a4, readers = a5, lastCleanupTs = a6,
     stopNotifier = a7, committedTxns = a8, readings = a9\<rparr>))"
  by (simp add: skew_second_def)

lemmas txn_simps = txn_Commit_def tso_Commit_def txn_stamp_def txn_Discard_def DoneCommit_def newTxn_def
  txn_Set_def bindS_def validate_def txn_addSub_def AddSubCommand_def new_command_defs MaxBatchSize_def
  GetWithTxn_def addReadKey_def skew_txn_def

section \<open>Properties\<close>

text \<open>C22: every buffered write is tracked. In a transaction that has only been used through its
  operations, a sub-command other than a prefix deletion has a non-empty key that is in the conflict
  set and the write list, is not itself a transaction, and the command carries the read timestamp.\<close>

theorem buffered_writes_tracked:
  assumes "(txn_op J P D cache)\<^sup>*\<^sup>* (newTxn uid cid upd r) txn"
    and "sc \<in> set (cmd_SubCommands (txn_cmd txn))" and "cmd_Type sc \<noteq> DELETE_BY_PREFIX"
  shows "cmd_Type sc \<noteq> TRANSACTION \<and> cmd_Key sc \<noteq> [] \<and> cmd_Key sc \<in> txn_conflictKeys txn
    \<and> cmd_Key sc \<in> set (txn_writes txn) \<and> cmd_ReadTs (txn_cmd txn) = r"
proof -
  have "txn_wf txn \<and> txn_readTs txn = r"
    using assms(1)
  proof (induction rule: rtranclp_induct)
    case base show ?case by (simp add: newTxn_wf) (simp add: newTxn_def)
  next
    case (step y z) then show ?case using txn_op_wf txn_op_readTs by metis
  qed
  then show ?thesis using assms(2,3) by (auto simp: txn_wf_def sub_tracked_def)
qed

theorem buffered_writes_tracked_witness:
  "cmd_Key (NewSetCommand ''c'' ''x'' [1] [])
     \<in> txn_conflictKeys (snd (txn_Set ''c'' ''x'' [1] [] (newTxn ''u'' ''t'' True 7)))"
proof -
  let ?txn = "snd (txn_Set ''c'' ''x'' [1] [] (newTxn ''u'' ''t'' True 7))"
  have "(txn_op demo_json demo_proto demo_desc None)\<^sup>*\<^sup>* (newTxn ''u'' ''t'' True 7) ?txn"
    by (rule r_into_rtranclp, rule op_Set)
  from buffered_writes_tracked [OF this, of "NewSetCommand ''c'' ''x'' [1] []"] show ?thesis
    by (simp add: txn_simps)
qed



text \<open>C17: a commit returns. When the clock is below the persisted bound, a live transaction with writes,
  within the batch limit and without a conflict, gets a commit timestamp and its stamped command.\<close>

theorem commit_succeeds:
  assumes "serving tso" and "clk (readings tso) < physical (saved tso)"
    and "\<not> txn_discarded txn" and "cmd_SubCommands (txn_cmd txn) \<noteq> []"
    and "length (cmd_SubCommands (txn_cmd txn)) \<le> MaxBatchSize" and "\<not> hasConflict txn tso"
  shows "\<exists>ts txn' tso'. txn_Commit W clk (txn, tso) = Some (Ok (Some (set_CommitTs ts (txn_cmd txn))), (txn', tso'))
    \<and> txn_commitTs txn' = ts \<and> txn_discarded txn'"
  using assms by (rule txn_Commit_succeeds)

theorem commit_succeeds_witness:
  "\<exists>ts txn' tso'. txn_Commit list_watermark demo_clock (snd (txn_Set ''c'' ''x'' [1] [] (newTxn ''u'' ''t'' True 7)), demo_tso) =
     Some (Ok (Some (set_CommitTs ts (txn_cmd (snd (txn_Set ''c'' ''x'' [1] [] (newTxn ''u'' ''t'' True 7)))))), (txn', tso'))
    \<and> txn_commitTs txn' = ts \<and> txn_discarded txn'"
  by (rule commit_succeeds [OF demo_tso_serving])
    (simp_all add: txn_simps demo_tso_def newTSO_def demo_clock_def hasConflict_def)


end
