(* ===== verification/Txn_System.thy ===== *)
theory Txn_System
  imports Txn
begin

text \<open>
  The transactions of one leadership term as a step relation: any number of goroutines begin
  transactions, read, buffer writes, commit and discard, in any interleaving of the oracle's critical
  sections, while the background updater moves the window and the clock runs. The record \<open>sys\<close> holds
  the oracle, the read timestamps still waiting for the commit mark, the transactions in flight, and,
  for the statements only, the history of the commits that succeeded.

  A step takes the read timestamp and begins its mark at once; \<^verbatim>\<open>ReadTs\<close> does the two in separate
  critical sections, and what can happen in between is shown in \<^verbatim>\<open>Tso\<close>. A commit is one step: after
  the critical section of \<^verbatim>\<open>newCommitTs\<close> it touches only the commit mark and its own transaction.
\<close>

section \<open>The system\<close>

record hist =
  h_readTs :: u64
  h_commitTs :: u64
  h_reads :: "key set"
  h_writes :: "key set"

record 'w sys =
  s_tso :: "'w TSO"
  s_waiting :: "u64 list"
  s_active :: "Txn list"
  s_log :: "hist list"

definition hist_of :: "Txn \<Rightarrow> u64 \<Rightarrow> hist" where
  "hist_of txn cts = \<lparr>h_readTs = txn_readTs txn, h_commitTs = cts, h_reads = set (txn_reads txn),
     h_writes = txn_conflictKeys txn\<rparr>"

definition log_commit :: "Txn \<Rightarrow> Command option res \<Rightarrow> Txn \<Rightarrow> hist list \<Rightarrow> hist list" where
  "log_commit txn r txn' log =
     (case r of Ok (Some _) \<Rightarrow> log @ [hist_of txn (txn_commitTs txn')] | _ \<Rightarrow> log)"

inductive sys_step ::
    "'w watermark_api \<Rightarrow> clock \<Rightarrow> 'j json_api \<Rightarrow> ('m, 'fd) proto_api
     \<Rightarrow> ('set, 'files, 'desc, 'm) desc_api \<Rightarrow> 'set desc_store \<Rightarrow> 'w sys \<Rightarrow> 'w sys \<Rightarrow> bool"
  for W clk J P D cache where
  step_acquire:
    "ReadTs_acquire W (s_tso s) = (r, tso') \<Longrightarrow>
     sys_step W clk J P D cache s (s\<lparr>s_tso := tso', s_waiting := r # s_waiting s\<rparr>)"
| step_ready:
    "s_waiting s = xs @ r # ys \<Longrightarrow> ReadTs_finish W None r (s_tso s) = (Ok r', tso') \<Longrightarrow>
     sys_step W clk J P D cache s
       (s\<lparr>s_tso := tso', s_waiting := xs @ ys, s_active := newTxn uid cid upd r' # s_active s\<rparr>)"
| step_wait_failed:
    "s_waiting s = xs @ r # ys \<Longrightarrow> ReadTs_finish W (Some e) r (s_tso s) = (Err e, tso') \<Longrightarrow>
     sys_step W clk J P D cache s (s\<lparr>s_tso := tso', s_waiting := xs @ ys\<rparr>)"
| step_op:
    "s_active s = xs @ txn # ys \<Longrightarrow> txn_op J P D cache txn txn' \<Longrightarrow>
     sys_step W clk J P D cache s (s\<lparr>s_active := xs @ txn' # ys\<rparr>)"
| step_commit:
    "s_active s = xs @ txn # ys \<Longrightarrow> logical (current (s_tso s)) < MAX_LOGICAL \<Longrightarrow>
     txn_Commit W clk (txn, s_tso s) = Some (r, (txn', tso')) \<Longrightarrow>
     sys_step W clk J P D cache s
       (s\<lparr>s_tso := tso', s_active := xs @ ys, s_log := log_commit txn r txn' (s_log s)\<rparr>)"
| step_discard:
    "s_active s = xs @ txn # ys \<Longrightarrow> txn_Discard W (txn, s_tso s) = (txn', tso') \<Longrightarrow>
     sys_step W clk J P D cache s (s\<lparr>s_tso := tso', s_active := xs @ ys\<rparr>)"
| step_window:
    "physical (saved (s_tso s)) < b \<Longrightarrow> b < 2 ^ 45 \<Longrightarrow>
     sys_step W clk J P D cache s (s\<lparr>s_tso := (s_tso s)\<lparr>saved := Reset b (saved (s_tso s))\<rparr>\<rparr>)"

inductive_cases sys_stepE: "sys_step W clk J P D cache s s'"

text \<open>The start of a term: nothing in flight, the read mark set to the current timestamp.\<close>

definition sys_init :: "'w TSO \<Rightarrow> 'w sys" where
  "sys_init tso = \<lparr>s_tso = tso, s_waiting = [], s_active = [], s_log = []\<rparr>"

section \<open>Reads of a history\<close>

text \<open>The commit that wrote the version of a key visible at a timestamp, and the one a serial
  execution in the order of the commit timestamps would find just before a commit.\<close>

definition last_opt :: "'a list \<Rightarrow> 'a option" where
  "last_opt xs = (if xs = [] then None else Some (last xs))"

definition snapshot_read :: "hist list \<Rightarrow> u64 \<Rightarrow> key \<Rightarrow> hist option" where
  "snapshot_read log ts k = last_opt (filter (\<lambda>h. h_commitTs h \<le> ts \<and> k \<in> h_writes h) log)"

definition serial_read :: "hist list \<Rightarrow> u64 \<Rightarrow> key \<Rightarrow> hist option" where
  "serial_read log ts k = last_opt (filter (\<lambda>h. h_commitTs h < ts \<and> k \<in> h_writes h) log)"

definition serializable :: "hist list \<Rightarrow> bool" where
  "serializable log \<longleftrightarrow>
     sorted_wrt (<) (map h_commitTs log) \<and>
     (\<forall>h \<in> set log. h_readTs h < h_commitTs h \<and>
        (\<forall>k \<in> h_reads h. snapshot_read log (h_readTs h) k = serial_read log (h_commitTs h) k))"

section \<open>The invariant\<close>

definition inflight :: "'w sys \<Rightarrow> u64 list" where
  "inflight s = s_waiting s @ map txn_readTs (s_active s)"

definition mark_inv ::
    "('w \<Rightarrow> u64 \<Rightarrow> nat) \<Rightarrow> ('w \<Rightarrow> u64) \<Rightarrow> ('w \<Rightarrow> bool) \<Rightarrow> 'w TSO \<Rightarrow> u64 list \<Rightarrow> bool" where
  "mark_inv pend hi wm_ok tso rs \<longleftrightarrow>
     serving tso \<and> wm_ok (readMark tso) \<and> hi (readMark tso) \<le> currentReadTs tso
     \<and> (\<forall>r. count_list rs r \<le> pend (readMark tso) r) \<and> (\<forall>r \<in> set rs. r \<le> currentReadTs tso)"

definition recorded :: "committedTxn list \<Rightarrow> hist list \<Rightarrow> u64 list \<Rightarrow> bool" where
  "recorded cs log rs \<longleftrightarrow>
     (\<forall>h \<in> set log. \<forall>r \<in> set rs. r < h_commitTs h \<longrightarrow>
        \<lparr>ct_ts = h_commitTs h, ct_conflictKeys = h_writes h\<rparr> \<in> set cs)"

definition log_inv :: "'w TSO \<Rightarrow> hist list \<Rightarrow> bool" where
  "log_inv tso log \<longleftrightarrow>
     sorted_wrt (<) (map h_commitTs log)
     \<and> (\<forall>h \<in> set log. h_readTs h < h_commitTs h \<and> h_commitTs h \<le> currentReadTs tso)
     \<and> (\<forall>h \<in> set log. \<forall>g \<in> set log. h_readTs h < h_commitTs g \<and> h_commitTs g < h_commitTs h
          \<longrightarrow> h_reads h \<inter> h_writes g = {})"

definition sys_inv ::
    "('w \<Rightarrow> u64 \<Rightarrow> nat) \<Rightarrow> ('w \<Rightarrow> u64) \<Rightarrow> ('w \<Rightarrow> bool) \<Rightarrow> 'w sys \<Rightarrow> bool" where
  "sys_inv pend hi wm_ok s \<longleftrightarrow>
     mark_inv pend hi wm_ok (s_tso s) (inflight s)
     \<and> recorded (committedTxns (s_tso s)) (s_log s) (inflight s)
     \<and> log_inv (s_tso s) (s_log s)"

section \<open>A term of one transaction\<close>

definition demo_term :: "mark_state TSO" where
  "demo_term = fst (snd (demo_started demo_clock 500))"

definition demo_txn :: Txn where
  "demo_txn = snd (txn_Set ''c'' ''x'' [1] [] (newTxn ''u'' ''t'' True (fst (ReadTs_acquire list_watermark demo_term))))"

definition demo_commit :: "(Command option res \<times> (Txn \<times> mark_state TSO)) option" where
  "demo_commit = txn_Commit list_watermark demo_clock (demo_txn, snd (ReadTs_acquire list_watermark demo_term))"

section \<open>Preservation\<close>

lemma currentReadTs_cong: "current t = current u \<Longrightarrow> currentReadTs t = currentReadTs u"
  by (simp add: currentReadTs_def)

lemma log_inv_mono: "log_inv tso log \<Longrightarrow> currentReadTs tso \<le> currentReadTs tso' \<Longrightarrow> log_inv tso' log"
  by (force simp: log_inv_def)

lemma recorded_subset: "recorded cs log rs \<Longrightarrow> set rs' \<subseteq> set rs \<Longrightarrow> recorded cs log rs'"
  by (auto simp: recorded_def)

lemma mark_inv_cong:
  "mark_inv pend hi wm_ok t rs \<Longrightarrow> current u = current t \<Longrightarrow> saved u = saved t \<Longrightarrow> readMark u = readMark t
   \<Longrightarrow> mark_inv pend hi wm_ok u rs"
  by (simp add: mark_inv_def serving_def currentReadTs_def)

context watermark
begin

lemma mark_inv_acquire:
  assumes "mark_inv pend top wm_ok tso rs" and "ReadTs_acquire W tso = (r, tso')"
  shows "mark_inv pend top wm_ok tso' (r # rs)" and "r = currentReadTs tso"
    and "committedTxns tso' = committedTxns tso" and "currentReadTs tso' = currentReadTs tso"
  using assms
  by (auto simp: mark_inv_def ReadTs_acquire_def ReadTs_lock_def ReadTs_begin_def currentReadTs_def Let_def
      serving_def pend_Begin ok_Begin top_Begin)

lemma mark_inv_Done:
  assumes "mark_inv pend top wm_ok tso (xs @ r # ys)"
  shows "mark_inv pend top wm_ok (tso\<lparr>readMark := wm_Done W r (readMark tso)\<rparr>) (xs @ ys)"
proof -
  have c: "count_list (xs @ r # ys) q \<le> pend (readMark tso) q" for q
    using assms by (simp add: mark_inv_def del: count_list_append)
  then have "0 < pend (readMark tso) r" using c [of r] by simp
  moreover have "count_list (xs @ ys) q \<le> ((pend (readMark tso))(r := pend (readMark tso) r - 1)) q" for q
    using c [of q] by auto
  ultimately show ?thesis
    using assms by (auto simp: mark_inv_def serving_def currentReadTs_def ok_Done top_Done pend_Done)
qed

lemma mark_inv_drop:
  assumes "mark_inv pend top wm_ok tso (xs @ r # ys)"
  shows "mark_inv pend top wm_ok tso (xs @ ys)"
proof -
  have "count_list (xs @ ys) q \<le> pend (readMark tso) q" for q
  proof -
    have "count_list (xs @ r # ys) q \<le> pend (readMark tso) q"
      using assms by (simp add: mark_inv_def del: count_list_append)
    then show ?thesis by (simp split: if_splits)
  qed
  then show ?thesis using assms by (auto simp: mark_inv_def)
qed

lemma mark_inv_doneRead:
  assumes "mark_inv pend top wm_ok tso (xs @ r # ys)"
  shows "mark_inv pend top wm_ok (doneRead W r tso) (xs @ ys)"
proof (cases "r \<in> readers tso")
  case True
  show ?thesis
    by (rule mark_inv_cong [OF mark_inv_Done [OF assms]]) (simp_all add: doneRead_def True)
next
  case False
  then show ?thesis using mark_inv_drop [OF assms] by (simp add: doneRead_def)
qed

lemma recorded_cleanup:
  assumes "mark_inv pend top wm_ok tso rs" and "recorded (committedTxns tso) log rs"
  shows "recorded (committedTxns (cleanupCommittedTransactions W tso)) log rs"
  unfolding recorded_def
proof (intro ballI impI)
  fix h r assume h: "h \<in> set log" and r: "r \<in> set rs" and lt: "r < h_commitTs h"
  have "0 < count_list rs r" using r by (simp add: count_list_pos)
  then have "0 < pend (readMark tso) r" using assms(1) by (meson le_trans leD not_less mark_inv_def order_less_le_trans)
  then have "wm_DoneUntil W (readMark tso) \<le> r"
    using assms(1) by (intro DoneUntil_pending) (simp_all add: mark_inv_def)
  then show "\<lparr>ct_ts = h_commitTs h, ct_conflictKeys = h_writes h\<rparr> \<in> set (committedTxns (cleanupCommittedTransactions W tso))"
    using assms(2) h r lt by (intro cleanup_keeps) (auto simp: recorded_def)
qed

lemma mark_inv_allocate:
  assumes "sane_clock clk" and "mark_inv pend top wm_ok tso rs" and "logical (current tso) < MAX_LOGICAL"
    and "allocate clk tso = Some (ts, tso')"
  shows "mark_inv pend top wm_ok tso' rs" and "currentReadTs tso < ts" and "ts = currentReadTs tso'"
    and "committedTxns tso' = committedTxns tso"
proof -
  have s: "serving tso" using assms(2) by (simp add: mark_inv_def)
  note a = allocate_step [OF assms(1) s assms(3,4)]
  show "currentReadTs tso < ts" by (rule a(1))
  show "ts = currentReadTs tso'" by (rule a(2))
  have "readMark tso' = readMark tso" "saved tso' = saved tso" by (subst a(4), simp)+
  then show "mark_inv pend top wm_ok tso' rs"
    using assms(2) a(1,2,3) by (auto simp: mark_inv_def)
  show "committedTxns tso' = committedTxns tso" by (subst a(4)) simp
qed

end

lemma log_inv_commit:
  assumes "log_inv tso log" and "recorded (committedTxns tso) log rs" and "txn_readTs txn \<in> set rs"
    and "\<not> hasConflict txn tso" and "txn_readTs txn \<le> currentReadTs tso"
    and "currentReadTs tso < ts" and "ts = currentReadTs tso'"
  shows "log_inv tso' (log @ [hist_of txn ts])"
proof -
  have lt: "h_commitTs g < ts" if "g \<in> set log" for g
    using assms(1,6) that by (auto simp: log_inv_def)
  have "set (txn_reads txn) \<inter> h_writes g = {}" if "g \<in> set log" "txn_readTs txn < h_commitTs g" for g
    using assms(2-4) that by (force simp: recorded_def hasConflict_iff)
  then show ?thesis
    using assms(1,5-7) lt
    by (auto simp: log_inv_def hist_of_def sorted_wrt_append order.strict_implies_order dest: order.asym)
qed

lemma recorded_commit:
  assumes "recorded cs log rs" and "ts = currentReadTs tso'"
  shows "recorded (cs @ [\<lparr>ct_ts = ts, ct_conflictKeys = txn_conflictKeys txn\<rparr>]) (log @ [hist_of txn ts]) rs"
  using assms by (auto simp: recorded_def hist_of_def)

lemma mark_inv_reorder:
  assumes "mark_inv pend hi wm_ok tso rs" and "\<And>r. count_list rs' r = count_list rs r"
  shows "mark_inv pend hi wm_ok tso rs'"
proof -
  have "r \<in> set rs' \<longleftrightarrow> r \<in> set rs" for r by (simp flip: count_list_pos add: assms(2))
  then have "set rs' = set rs" by blast
  then show ?thesis using assms by (simp add: mark_inv_def)
qed

context watermark
begin

lemma commit_preserves:
  assumes "sane_clock clk" and "mark_inv pend top wm_ok tso (xs @ txn_readTs txn # ys)"
    and "recorded (committedTxns tso) log (xs @ txn_readTs txn # ys)" and "log_inv tso log"
    and "logical (current tso) < MAX_LOGICAL"
    and "txn_Commit W clk (txn, tso) = Some (r, (txn', tso'))"
  shows "mark_inv pend top wm_ok tso' (xs @ ys)
    \<and> recorded (committedTxns tso') (log_commit txn r txn' log) (xs @ ys)
    \<and> log_inv tso' (log_commit txn r txn' log)"
  using assms(6)
proof (cases rule: txn_Commit_cases)
  case aborted
  have "log_commit txn r txn' log = log" using aborted(1) by (auto simp: log_commit_def split: res.splits option.splits)
  moreover have "recorded (committedTxns tso) log (xs @ ys)"
    by (rule recorded_subset [OF assms(3)]) auto
  ultimately show ?thesis
    using aborted(2) mark_inv_drop [OF assms(2)] mark_inv_doneRead [OF assms(2)]
      log_inv_mono [OF assms(4), of tso']
    by auto
next
  case (committed c ts tso3)
  let ?t1 = "doneRead W (txn_readTs txn) tso"
  let ?t2 = "cleanupCommittedTransactions W ?t1"
  have m1: "mark_inv pend top wm_ok ?t1 (xs @ ys)" by (rule mark_inv_doneRead [OF assms(2)])
  have m2: "mark_inv pend top wm_ok ?t2 (xs @ ys)" by (rule mark_inv_cong [OF m1]) simp_all
  have l2: "logical (current ?t2) < MAX_LOGICAL" using assms(5) by simp
  note a = mark_inv_allocate [OF assms(1) m2 l2 committed(4)]
  have rec1: "recorded (committedTxns ?t1) log (xs @ ys)"
    by (simp, rule recorded_subset [OF assms(3)]) auto
  have rec: "recorded (committedTxns tso3) log (xs @ ys)"
    using recorded_cleanup [OF m1 rec1] by (simp only: a(4))
  have log': "log_commit txn r txn' log = log @ [hist_of txn ts]"
    using committed(1,2) by (simp add: log_commit_def)
  have "mark_inv pend top wm_ok tso' (xs @ ys)"
    by (rule mark_inv_cong [OF a(1)]) (simp_all add: committed(5))
  moreover have "recorded (committedTxns tso') (log @ [hist_of txn ts]) (xs @ ys)"
    using recorded_commit [OF rec, where tso' = tso3] a(3) by (simp add: committed(5))
  moreover have "log_inv tso' (log @ [hist_of txn ts])"
  proof (rule log_inv_commit [OF assms(4,3) _ committed(3)])
    show "txn_readTs txn \<le> currentReadTs tso" using assms(2) by (simp add: mark_inv_def)
    show "currentReadTs tso < ts" using a(2) by simp
    show "ts = currentReadTs tso'" using a(3) by (simp add: committed(5) currentReadTs_def)
  qed simp
  ultimately show ?thesis by (simp add: log')
qed

lemma sys_invD:
  assumes "sys_inv pend top wm_ok s"
  shows "mark_inv pend top wm_ok (s_tso s) (inflight s)"
    "recorded (committedTxns (s_tso s)) (s_log s) (inflight s)" "log_inv (s_tso s) (s_log s)"
  using assms by (simp_all add: sys_inv_def)

lemma sys_inv_acquire:
  assumes "sys_inv pend top wm_ok s" and "ReadTs_acquire W (s_tso s) = (r, tso')"
  shows "sys_inv pend top wm_ok (s\<lparr>s_tso := tso', s_waiting := r # s_waiting s\<rparr>)"
proof -
  note inv = sys_invD [OF assms(1)]
  note a = mark_inv_acquire [OF inv(1) assms(2)]
  have "recorded (committedTxns tso') (s_log s) (r # inflight s)"
    using inv(2,3) a(2,3) by (auto simp: recorded_def log_inv_def)
  then show ?thesis
    using a log_inv_mono [OF inv(3), of tso'] by (simp add: sys_inv_def inflight_def)
qed

lemma sys_inv_ready:
  assumes "sys_inv pend top wm_ok s" and "s_waiting s = xs @ r # ys"
  shows "sys_inv pend top wm_ok (s\<lparr>s_waiting := xs @ ys, s_active := newTxn uid cid upd r # s_active s\<rparr>)"
proof -
  note inv = sys_invD [OF assms(1)]
  have "mark_inv pend top wm_ok (s_tso s) ((xs @ ys) @ r # map txn_readTs (s_active s))"
    by (rule mark_inv_reorder [OF inv(1)]) (simp add: inflight_def assms(2))
  moreover have "recorded (committedTxns (s_tso s)) (s_log s) ((xs @ ys) @ r # map txn_readTs (s_active s))"
    by (rule recorded_subset [OF inv(2)]) (auto simp: inflight_def assms(2))
  ultimately show ?thesis
    using inv(3) by (simp add: sys_inv_def inflight_def newTxn_def)
qed

lemma sys_inv_wait_failed:
  assumes "sys_inv pend top wm_ok s" and "s_waiting s = xs @ r # ys"
  shows "sys_inv pend top wm_ok
    (s\<lparr>s_tso := (s_tso s)\<lparr>readMark := wm_Done W r (readMark (s_tso s))\<rparr>, s_waiting := xs @ ys\<rparr>)"
proof -
  note inv = sys_invD [OF assms(1)]
  let ?ys = "ys @ map txn_readTs (s_active s)"
  let ?tso = "(s_tso s)\<lparr>readMark := wm_Done W r (readMark (s_tso s))\<rparr>"
  have "mark_inv pend top wm_ok ?tso (xs @ ?ys)"
    using inv(1) by (intro mark_inv_Done) (simp add: inflight_def assms(2))
  moreover have "recorded (committedTxns (s_tso s)) (s_log s) (xs @ ?ys)"
    by (rule recorded_subset [OF inv(2)]) (auto simp: inflight_def assms(2))
  moreover have "log_inv ?tso (s_log s)"
    by (rule log_inv_mono [OF inv(3)]) (simp add: currentReadTs_def)
  ultimately show ?thesis by (simp add: sys_inv_def inflight_def)
qed

lemma sys_inv_commit:
  assumes "sane_clock clk" and "sys_inv pend top wm_ok s" and "s_active s = xs @ txn # ys"
    and "logical (current (s_tso s)) < MAX_LOGICAL"
    and "txn_Commit W clk (txn, s_tso s) = Some (r, (txn', tso'))"
  shows "sys_inv pend top wm_ok
    (s\<lparr>s_tso := tso', s_active := xs @ ys, s_log := log_commit txn r txn' (s_log s)\<rparr>)"
proof -
  let ?xs = "s_waiting s @ map txn_readTs xs" and ?ys = "map txn_readTs ys"
  have "mark_inv pend top wm_ok (s_tso s) (?xs @ txn_readTs txn # ?ys)"
    "recorded (committedTxns (s_tso s)) (s_log s) (?xs @ txn_readTs txn # ?ys)" "log_inv (s_tso s) (s_log s)"
    using sys_invD [OF assms(2)] by (simp_all add: inflight_def assms(3))
  from commit_preserves [OF assms(1) this assms(4,5)] show ?thesis
    by (simp add: sys_inv_def inflight_def)
qed

lemma sys_inv_discard:
  assumes "sys_inv pend top wm_ok s" and "s_active s = xs @ txn # ys"
    and "txn_Discard W (txn, s_tso s) = (txn', tso')"
  shows "sys_inv pend top wm_ok (s\<lparr>s_tso := tso', s_active := xs @ ys\<rparr>)"
proof -
  note inv = sys_invD [OF assms(1)]
  let ?xs = "s_waiting s @ map txn_readTs xs" and ?ys = "map txn_readTs ys"
  have m: "mark_inv pend top wm_ok (s_tso s) (?xs @ txn_readTs txn # ?ys)"
    using inv(1) by (simp add: inflight_def assms(2))
  have tso': "tso' = s_tso s \<or> tso' = doneRead W (txn_readTs txn) (s_tso s)"
    using assms(3) by (auto simp: txn_Discard_def DoneRead_def split: if_splits)
  have "mark_inv pend top wm_ok tso' (?xs @ ?ys)"
    using tso' mark_inv_drop [OF m] mark_inv_doneRead [OF m] by auto
  moreover have "recorded (committedTxns tso') (s_log s) (?xs @ ?ys)"
    by (rule recorded_subset [of _ _ "inflight s"]) (use inv(2) tso' in \<open>auto simp: inflight_def assms(2)\<close>)
  moreover have "log_inv tso' (s_log s)"
    by (rule log_inv_mono [OF inv(3)]) (use tso' in auto)
  ultimately show ?thesis by (simp add: sys_inv_def inflight_def)
qed

lemma sys_inv_step:
  assumes "sane_clock clk" and "sys_step W clk J P D cache s s'" and "sys_inv pend top wm_ok s"
  shows "sys_inv pend top wm_ok s'"
  using assms(2)
proof (cases rule: sys_step.cases)
  case (step_acquire r tso')
  then show ?thesis using sys_inv_acquire [OF assms(3)] by simp
next
  case (step_ready xs r ys r' tso' uid cid upd)
  then have "r' = r" "tso' = s_tso s" by (simp_all add: ReadTs_finish_def)
  then show ?thesis using sys_inv_ready [OF assms(3) step_ready(2)] step_ready(1) by simp
next
  case (step_wait_failed xs r ys e tso')
  then show ?thesis using sys_inv_wait_failed [OF assms(3)] by (auto simp: ReadTs_finish_def)
next
  case (step_op xs txn ys txn')
  then show ?thesis
    using assms(3) txn_op_readTs [OF step_op(3)] by (simp add: sys_inv_def inflight_def)
next
  case (step_commit xs txn ys r txn' tso')
  then show ?thesis using sys_inv_commit [OF assms(1,3)] by simp
next
  case (step_discard xs txn ys txn' tso')
  then show ?thesis using sys_inv_discard [OF assms(3)] by simp
next
  case (step_window b)
  then show ?thesis
    using assms(3)
    by (auto simp: sys_inv_def inflight_def mark_inv_def serving_def log_inv_def currentReadTs_def Reset_def)
qed

lemma sys_inv_reachable:
  assumes "sane_clock clk" and "(sys_step W clk J P D cache)\<^sup>*\<^sup>* s s'" and "sys_inv pend top wm_ok s"
  shows "sys_inv pend top wm_ok s'"
  using assms(2,3) by (induction rule: rtranclp_induct) (auto intro: sys_inv_step [OF assms(1)])

lemma sys_inv_init:
  assumes "serving tso" and "wm_ok (readMark tso)" and "top (readMark tso) \<le> currentReadTs tso"
  shows "sys_inv pend top wm_ok (sys_init tso)"
  using assms by (simp add: sys_inv_def sys_init_def inflight_def mark_inv_def recorded_def log_inv_def)

end

lemma serializable_if_log_inv:
  assumes "log_inv tso log"
  shows "serializable log"
  unfolding serializable_def
proof (intro conjI ballI)
  show "sorted_wrt (<) (map h_commitTs log)" using assms by (simp add: log_inv_def)
  fix h assume h: "h \<in> set log"
  show "h_readTs h < h_commitTs h" using assms h by (simp add: log_inv_def)
  fix k assume k: "k \<in> h_reads h"
  have "filter (\<lambda>g. h_commitTs g \<le> h_readTs h \<and> k \<in> h_writes g) log
      = filter (\<lambda>g. h_commitTs g < h_commitTs h \<and> k \<in> h_writes g) log"
  proof (rule filter_cong)
    fix g assume "g \<in> set log"
    then show "(h_commitTs g \<le> h_readTs h \<and> k \<in> h_writes g) = (h_commitTs g < h_commitTs h \<and> k \<in> h_writes g)"
      using assms h k by (fastforce simp: log_inv_def not_le)
  qed simp
  then show "snapshot_read log (h_readTs h) k = serial_read log (h_commitTs h) k"
    by (simp add: snapshot_read_def serial_read_def)
qed

lemma demo_started_eq: "StartServing list_watermark demo_clock demo_get demo_propose ''id''
    (newTSO demo_mark, upperBoundBytes 500) = (Ok (), (demo_term, snd (snd (demo_started demo_clock 500))))"
proof -
  obtain t d where "demo_started demo_clock 500 = (Ok (), (t, d))"
    using demo_started_Ok [OF demo_clock_sane, of 500] by (force simp: demo_clock_def)
  then show ?thesis by (simp add: demo_term_def demo_started_def)
qed

lemma demo_term_eq:
  "current demo_term = \<lparr>physical = 1000, logical = 1\<rparr>" "saved demo_term = \<lparr>physical = 3000, logical = 0\<rparr>"
  "readings demo_term = 2" 
  using StartServing_found [OF demo_clock_sane _ _ _ _ demo_started_eq, of 500]
  by (simp_all add: demo_clock_def demo_get_def newTSO_def)

lemma demo_term_serving: "serving demo_term"
  by (simp add: serving_def demo_term_eq ts_range_def MAX_LOGICAL_def)

lemma demo_commit_eq: "\<exists>c t' tso'. demo_commit = Some (Ok (Some c), (t', tso'))"
proof -
  have "serving (snd (ReadTs_acquire list_watermark demo_term))"
    using demo_term_serving by (simp add: serving_def)
  then show ?thesis
    unfolding demo_commit_def
    using txn_Commit_succeeds [of "snd (ReadTs_acquire list_watermark demo_term)" demo_clock demo_txn list_watermark]
    by (auto simp: demo_term_eq demo_clock_def demo_txn_def newTxn_def txn_Set_def bindS_def validate_def txn_addSub_def
      AddSubCommand_def new_command_defs MaxBatchSize_def hasConflict_def)
qed

section \<open>Properties\<close>



end
