(* ===== verification/Raft_Types.thy ===== *)
theory Raft_Types
  imports Utils
begin

text \<open>
  The data that omashu exchanges with \<^verbatim>\<open>go.etcd.io/raft/v3\<close>: log entries, configuration changes,
  snapshots, read states and the \<^verbatim>\<open>Ready\<close> batch. The types are those of the library's public messages,
  with the fields the program uses. The library's \<^verbatim>\<open>MemoryStorage\<close> is a parameter, the record
  \<open>memory_storage\<close>; its documentation is the locale \<open>raft_memory\<close>.
\<close>

section \<open>Messages\<close>

datatype EntryType = EntryNormal | EntryConfChange | EntryConfChangeV2 | EntryOther u32

record Entry =
  ent_Term :: u64
  ent_Index :: u64
  ent_Type :: EntryType
  ent_Data :: bytes

record ConfState =
  cs_Voters :: "u64 list"
  cs_Learners :: "u64 list"

record Snapshot =
  snap_Data :: bytes
  snap_ConfState :: ConfState
  snap_Index :: u64
  snap_Term :: u64

record HardState =
  hs_Term :: u64
  hs_Vote :: u64
  hs_Commit :: u64

datatype ConfChangeType = ConfChangeAddNode | ConfChangeRemoveNode | ConfChangeUpdateNode | ConfChangeAddLearnerNode

record ConfChange =
  cc_Type :: ConfChangeType
  cc_NodeID :: u64
  cc_Context :: bytes

record ReadState =
  rs_Index :: u64
  rs_RequestCtx :: bytes

datatype MessageType = MsgSnap | MsgOther int

record Message =
  msg_Type :: MessageType
  msg_To :: u64
  msg_Snapshot :: Snapshot

text \<open>\<^verbatim>\<open>SoftState\<close> is the leader it names, \<^const>\<open>None\<close> when it is nil; a nil \<^verbatim>\<open>ReadStates\<close> is \<^const>\<open>None\<close>.\<close>

record Ready =
  rd_SoftState :: "u64 option"
  rd_ReadStates :: "ReadState list option"
  rd_HardState :: HardState
  rd_Entries :: "Entry list"
  rd_Snapshot :: Snapshot
  rd_CommittedEntries :: "Entry list"
  rd_Messages :: "Message list"

definition emptyConfState :: ConfState where
  "emptyConfState = \<lparr>cs_Voters = [], cs_Learners = []\<rparr>"

definition emptySnapshot :: Snapshot where
  "emptySnapshot = \<lparr>snap_Data = [], snap_ConfState = emptyConfState, snap_Index = 0, snap_Term = 0\<rparr>"

definition emptyHardState :: HardState where
  "emptyHardState = \<lparr>hs_Term = 0, hs_Vote = 0, hs_Commit = 0\<rparr>"

text \<open>\<^verbatim>\<open>raft.IsEmptySnap\<close> and \<^verbatim>\<open>raft.IsEmptyHardState\<close>\<close>

definition IsEmptySnap :: "Snapshot \<Rightarrow> bool" where
  "IsEmptySnap s \<longleftrightarrow> snap_Index s = 0"

definition IsEmptyHardState :: "HardState \<Rightarrow> bool" where
  "IsEmptyHardState h \<longleftrightarrow> h = emptyHardState"

section \<open>Encodings\<close>

text \<open>The generated \<^verbatim>\<open>Marshal\<close> and \<^verbatim>\<open>Unmarshal\<close> methods of the messages. \<^verbatim>\<open>ConfState.Unmarshal\<close> merges into the
  message it is called on; the others are called on empty messages only.\<close>

record raft_codec =
  ent_Marshal :: "Entry \<Rightarrow> bytes"
  ent_Unmarshal :: "bytes \<Rightarrow> Entry res"
  hs_Marshal :: "HardState \<Rightarrow> bytes"
  hs_Unmarshal :: "bytes \<Rightarrow> HardState res"
  snap_Marshal :: "Snapshot \<Rightarrow> bytes"
  snap_Unmarshal :: "bytes \<Rightarrow> Snapshot res"
  conf_Marshal :: "ConfState \<Rightarrow> bytes"
  conf_Unmarshal :: "bytes \<Rightarrow> ConfState \<Rightarrow> ConfState res"
  cc_Unmarshal :: "bytes \<Rightarrow> ConfChange res"

locale raftpb =
  fixes C :: raft_codec
  assumes ent_round_trip: "ent_Unmarshal C (ent_Marshal C e) = Ok e"
    and hs_round_trip: "hs_Unmarshal C (hs_Marshal C h) = Ok h"
    and snap_round_trip: "snap_Unmarshal C (snap_Marshal C s) = Ok s"
    and snap_not_empty: "snap_Marshal C s \<noteq> []"
    and conf_round_trip: "conf_Unmarshal C (conf_Marshal C cs) emptyConfState = Ok cs"

text \<open>An instance: a message is a sequence of 64-bit numbers, each written in eight bytes.\<close>

definition enc_words :: "u64 list \<Rightarrow> bytes" where
  "enc_words ws = concat (map Uint64ToBytes ws)"

fun dec_words :: "bytes \<Rightarrow> u64 list" where
  "dec_words (a # b # c # d # e # f # g # h # r) =
     (case BytesToUint64 [a, b, c, d, e, f, g, h] of Ok w \<Rightarrow> [w] | _ \<Rightarrow> []) @ dec_words r"
| "dec_words _ = []"

fun dec_list :: "u64 list \<Rightarrow> u64 list \<times> u64 list" where
  "dec_list ws = (let n = length (takeWhile (\<lambda>w. w = 1) ws) in (take n (drop (n + 1) ws), drop (2 * n + 1) ws))"

definition enc_list :: "u64 list \<Rightarrow> u64 list" where
  "enc_list xs = map (\<lambda>_. 1) xs @ 0 # xs"

fun type_words :: "EntryType \<Rightarrow> u64 list" where
  "type_words EntryNormal = [0, 0]"
| "type_words EntryConfChange = [1, 0]"
| "type_words EntryConfChangeV2 = [2, 0]"
| "type_words (EntryOther t) = [3, ucast t]"

definition word_type :: "u64 \<Rightarrow> u64 \<Rightarrow> EntryType" where
  "word_type a b = (if a = 0 then EntryNormal else if a = 1 then EntryConfChange
     else if a = 2 then EntryConfChangeV2 else EntryOther (ucast b))"

definition word_codec :: raft_codec where
  "word_codec =
     \<lparr> ent_Marshal = (\<lambda>e. enc_words (ent_Term e # ent_Index e # type_words (ent_Type e) @ map ucast (ent_Data e))),
       ent_Unmarshal = (\<lambda>b. case dec_words b of
          t # i # ta # tb # d \<Rightarrow> Ok \<lparr>ent_Term = t, ent_Index = i, ent_Type = word_type ta tb, ent_Data = map ucast d\<rparr>
        | _ \<Rightarrow> Err ErrUnexpectedEOF),
       hs_Marshal = (\<lambda>h. enc_words [hs_Term h, hs_Vote h, hs_Commit h]),
       hs_Unmarshal = (\<lambda>b. case dec_words b of
          [t, v, c] \<Rightarrow> Ok \<lparr>hs_Term = t, hs_Vote = v, hs_Commit = c\<rparr> | _ \<Rightarrow> Err ErrUnexpectedEOF),
       snap_Marshal = (\<lambda>s. enc_words (snap_Index s # snap_Term s # enc_list (cs_Voters (snap_ConfState s))
          @ enc_list (cs_Learners (snap_ConfState s)) @ map ucast (snap_Data s))),
       snap_Unmarshal = (\<lambda>b. case dec_words b of
          i # t # r \<Rightarrow> (case dec_list r of (vs, r') \<Rightarrow> case dec_list r' of (ls, d) \<Rightarrow>
            Ok \<lparr>snap_Data = map ucast d, snap_ConfState = \<lparr>cs_Voters = vs, cs_Learners = ls\<rparr>, snap_Index = i, snap_Term = t\<rparr>)
        | _ \<Rightarrow> Err ErrUnexpectedEOF),
       conf_Marshal = (\<lambda>cs. enc_words (enc_list (cs_Voters cs) @ cs_Learners cs)),
       conf_Unmarshal = (\<lambda>b cs. case dec_list (dec_words b) of (vs, ls) \<Rightarrow>
          Ok \<lparr>cs_Voters = cs_Voters cs @ vs, cs_Learners = cs_Learners cs @ ls\<rparr>),
       cc_Unmarshal = (\<lambda>b. case dec_words b of
          t # i # d \<Rightarrow> Ok \<lparr>cc_Type = (if t = 0 then ConfChangeAddNode else if t = 1 then ConfChangeRemoveNode
            else if t = 2 then ConfChangeUpdateNode else ConfChangeAddLearnerNode), cc_NodeID = i, cc_Context = map ucast d\<rparr>
        | _ \<Rightarrow> Err ErrUnexpectedEOF) \<rparr>"

lemma dec_enc_words [simp]: "dec_words (enc_words ws) = ws"
proof (induction ws)
  case (Cons w ws)
  have "dec_words (Uint64ToBytes w @ r) = w # dec_words r" for r
    using BytesToUint64_Uint64ToBytes [of w] by (simp add: Uint64ToBytes_def)
  with Cons show ?case by (simp add: enc_words_def)
qed (simp add: enc_words_def)

lemma dec_enc_list [simp]: "dec_list (enc_list xs @ r) = (xs, r)"
proof -
  have "takeWhile (\<lambda>w. w = 1) (map (\<lambda>_. 1) xs @ 0 # ys) = map (\<lambda>_. 1 :: u64) xs" for ys :: "u64 list"
    by (induction xs) auto
  then show ?thesis by (simp add: enc_list_def Let_def)
qed

lemma ucast_bytes [simp]: "map ucast (map (ucast :: byte \<Rightarrow> u64) d) = d"
  by (induction d) (auto intro: bit_word_eqI simp: bit_simps)

lemma ucast_byte [simp]: "ucast (ucast b :: u64) = (b :: byte)" and ucast_word32 [simp]: "ucast (ucast t :: u64) = (t :: u32)"
  by (auto intro: bit_word_eqI simp: bit_simps)

lemma enc_words_Nil [simp]: "enc_words ws = [] \<longleftrightarrow> ws = []"
  by (cases ws) (simp_all add: enc_words_def Uint64ToBytes_def)

interpretation wc: raftpb word_codec
proof
  fix e show "ent_Unmarshal word_codec (ent_Marshal word_codec e) = Ok e"
    by (cases "ent_Type e") (simp_all add: word_codec_def word_type_def comp_def)
qed (auto simp: word_codec_def emptyConfState_def comp_def simp del: dec_list.simps)

section \<open>The in-memory log\<close>

record 'ms memory_storage =
  ms_New :: 'ms
  ms_ApplySnapshot :: "Snapshot \<Rightarrow> ('ms, unit) call"
  ms_SetHardState :: "HardState \<Rightarrow> ('ms, unit) call"
  ms_Append :: "Entry list \<Rightarrow> ('ms, unit) call"
  ms_Compact :: "u64 \<Rightarrow> ('ms, unit) call"
  ms_InitialState :: "'ms \<Rightarrow> (HardState \<times> ConfState) res"
  ms_Entries :: "u64 \<Rightarrow> u64 \<Rightarrow> u64 \<Rightarrow> 'ms \<Rightarrow> Entry list res"
  ms_Term :: "u64 \<Rightarrow> 'ms \<Rightarrow> u64 res"
  ms_LastIndex :: "'ms \<Rightarrow> u64 res"
  ms_FirstIndex :: "'ms \<Rightarrow> u64 res"
  ms_Snapshot :: "'ms \<Rightarrow> Snapshot res"

text \<open>\<open>log ms\<close> are the entries held, \<open>base ms\<close> the index just below the first of them, \<open>snap ms\<close> the
  snapshot. The first entry's index is one above the base and indices are consecutive.\<close>

locale raft_memory =
  fixes M :: "'ms memory_storage"
    and log :: "'ms \<Rightarrow> Entry list"
    and base :: "'ms \<Rightarrow> u64"
    and snap :: "'ms \<Rightarrow> Snapshot"
    and hard :: "'ms \<Rightarrow> HardState"
  assumes New: "log (ms_New M) = [] \<and> base (ms_New M) = 0 \<and> snap (ms_New M) = emptySnapshot
        \<and> hard (ms_New M) = emptyHardState"
    and ApplySnapshot: "snap_Index (snap ms) < snap_Index s \<Longrightarrow>
        \<exists>ms'. ms_ApplySnapshot M s ms = (Ok (), ms') \<and> log ms' = [] \<and> base ms' = snap_Index s
          \<and> snap ms' = s \<and> hard ms' = hard ms"
    and ApplySnapshot_old: "snap_Index s \<le> snap_Index (snap ms) \<Longrightarrow>
        ms_ApplySnapshot M s ms = (Err ErrSnapOutOfDate, ms)"
    and SetHardState: "\<exists>ms'. ms_SetHardState M h ms = (Ok (), ms') \<and> log ms' = log ms \<and> base ms' = base ms
        \<and> snap ms' = snap ms \<and> hard ms' = h"
    and Append: "es \<noteq> [] \<Longrightarrow> base ms < ent_Index (hd es) \<Longrightarrow>
        unat (ent_Index (hd es)) \<le> unat (base ms) + length (log ms) + 1 \<Longrightarrow>
        \<exists>ms'. ms_Append M es ms = (Ok (), ms') \<and> log ms' = take (unat (ent_Index (hd es)) - unat (base ms) - 1) (log ms) @ es
          \<and> base ms' = base ms \<and> snap ms' = snap ms \<and> hard ms' = hard ms"
    and Append_nil: "ms_Append M [] ms = (Ok (), ms)"
    and Append_gap: "es \<noteq> [] \<Longrightarrow> unat (base ms) + length (log ms) + 1 < unat (ent_Index (hd es)) \<Longrightarrow>
        \<exists>p. ms_Append M es ms = (Panicked p, ms)"
    and Compact_old: "i \<le> base ms \<Longrightarrow> ms_Compact M i ms = (Err ErrCompacted, ms)"
    and Snapshot: "ms_Snapshot M ms = Ok (snap ms)"
    and LastIndex: "ms_LastIndex M ms = Ok (base ms + of_nat (length (log ms)))"

section \<open>A log held in lists\<close>

record list_mem =
  lm_base :: u64
  lm_term :: u64
  lm_log :: "Entry list"
  lm_snap :: Snapshot
  lm_hard :: HardState

definition list_memory :: "list_mem memory_storage" where
  "list_memory =
     \<lparr> ms_New = \<lparr>lm_base = 0, lm_term = 0, lm_log = [], lm_snap = emptySnapshot, lm_hard = emptyHardState\<rparr>,
       ms_ApplySnapshot = (\<lambda>s m. if snap_Index s \<le> snap_Index (lm_snap m) then (Err ErrSnapOutOfDate, m)
          else (Ok (), m\<lparr>lm_base := snap_Index s, lm_term := snap_Term s, lm_log := [], lm_snap := s\<rparr>)),
       ms_SetHardState = (\<lambda>h m. (Ok (), m\<lparr>lm_hard := h\<rparr>)),
       ms_Append = (\<lambda>es m. if es = [] then (Ok (), m)
          else if unat (lm_base m) + length (lm_log m) + 1 < unat (ent_Index (hd es)) then (Panicked ''missing log entry'', m)
          else let es' = drop (unat (lm_base m) + 1 - unat (ent_Index (hd es))) es in
            if es' = [] then (Ok (), m)
            else (Ok (), m\<lparr>lm_log := take (unat (ent_Index (hd es)) - unat (lm_base m) - 1) (lm_log m) @ es'\<rparr>)),
       ms_Compact = (\<lambda>i m. if i \<le> lm_base m then (Err ErrCompacted, m)
          else if lm_base m + of_nat (length (lm_log m)) < i then (Panicked ''compact is out of bound'', m)
          else (Ok (), m\<lparr>lm_base := i, lm_log := drop (unat (i - lm_base m)) (lm_log m)\<rparr>)),
       ms_InitialState = (\<lambda>m. Ok (lm_hard m, snap_ConfState (lm_snap m))),
       ms_Entries = (\<lambda>lo hi sz m. if lo \<le> lm_base m then Err ErrCompacted
          else Ok (filter (\<lambda>e. lo \<le> ent_Index e \<and> ent_Index e < hi) (lm_log m))),
       ms_Term = (\<lambda>i m. if i < lm_base m then Err ErrCompacted else if i = lm_base m then Ok (lm_term m)
          else case find (\<lambda>e. ent_Index e = i) (lm_log m) of Some e \<Rightarrow> Ok (ent_Term e) | None \<Rightarrow> Err ErrUnavailable),
       ms_LastIndex = (\<lambda>m. Ok (lm_base m + of_nat (length (lm_log m)))),
       ms_FirstIndex = (\<lambda>m. Ok (lm_base m + 1)),
       ms_Snapshot = (\<lambda>m. Ok (lm_snap m)) \<rparr>"

interpretation lm: raft_memory list_memory lm_log lm_base lm_snap lm_hard
  by unfold_locales (auto simp: list_memory_def Let_def word_less_nat_alt word_le_nat_alt)

end
