(* ===== verification/Walpb.thy ===== *)
theory Walpb
  imports Raft_Types
begin

text \<open>
  The vendored Protobuf encoding of write-ahead-log records and of snapshot files:
  \<^verbatim>\<open>walpb/record.pb.go\<close>, \<^verbatim>\<open>walpb/record.go\<close> and \<^verbatim>\<open>snappb/snap.pb.go\<close>. Marshalling fills a buffer of the
  computed size from its end; unmarshalling walks over the fields. The encoding of
  \<^verbatim>\<open>raftpb.ConfState\<close> inside a snapshot marker is the parameter \<open>raft_codec\<close>.
\<close>

unbundle bit_operations_syntax

section \<open>Messages\<close>

text \<open>A nil byte slice is \<^const>\<open>None\<close>. \<^verbatim>\<open>int64\<close> fields are kept as their 64 bits.\<close>

record Record =
  rec_Type :: u64
  rec_Crc :: u32
  rec_Data :: "bytes option"
  rec_unrecognized :: "bytes option"

record WalSnapshot =
  ws_Index :: u64
  ws_Term :: u64
  ws_ConfState :: "ConfState option"
  ws_unrecognized :: "bytes option"

record SnapFile =
  sf_Crc :: u32
  sf_Data :: "bytes option"
  sf_unrecognized :: "bytes option"

definition emptyRecord :: Record where
  "emptyRecord = \<lparr>rec_Type = 0, rec_Crc = 0, rec_Data = None, rec_unrecognized = None\<rparr>"

definition emptyWalSnapshot :: WalSnapshot where
  "emptyWalSnapshot = \<lparr>ws_Index = 0, ws_Term = 0, ws_ConfState = None, ws_unrecognized = None\<rparr>"

definition emptySnapFile :: SnapFile where
  "emptySnapFile = \<lparr>sf_Crc = 0, sf_Data = None, sf_unrecognized = None\<rparr>"

definition rec_Validate :: "Record \<Rightarrow> u32 \<Rightarrow> unit res" where
  "rec_Validate r crc = (if rec_Crc r = crc then Ok () else Err ErrCRCMismatch)"

definition ValidateSnapshotForWrite :: "WalSnapshot \<Rightarrow> unit res" where
  "ValidateSnapshotForWrite e =
     (if ws_ConfState e = None \<and> ws_Index e > 0 then Err (ErrText ''Saved (not-initial) snapshot is missing ConfState'')
      else Ok ())"

section \<open>Sizes\<close>

text \<open>\<^verbatim>\<open>bits.Len64\<close>: the number of bits of the binary representation.\<close>

fun bit_len :: "nat \<Rightarrow> nat" where
  "bit_len n = (if n = 0 then 0 else Suc (bit_len (n div 2)))"

declare bit_len.simps [simp del]

definition Len64 :: "u64 \<Rightarrow> nat" where
  "Len64 x = bit_len (unat x)"

definition sovRecord :: "u64 \<Rightarrow> nat" where
  "sovRecord x = (Len64 (x OR 1) + 6) div 7"

definition opt_len :: "bytes option \<Rightarrow> nat" where
  "opt_len b = (case b of None \<Rightarrow> 0 | Some d \<Rightarrow> length d)"

definition sized_field :: "bytes option \<Rightarrow> nat" where
  "sized_field b = (case b of None \<Rightarrow> 0 | Some d \<Rightarrow> 1 + length d + sovRecord (of_nat (length d)))"

definition rec_Size :: "Record \<Rightarrow> nat" where
  "rec_Size m = (1 + sovRecord (rec_Type m)) + (1 + sovRecord (ucast (rec_Crc m)))
     + sized_field (rec_Data m) + opt_len (rec_unrecognized m)"

definition ws_Size :: "raft_codec \<Rightarrow> WalSnapshot \<Rightarrow> nat" where
  "ws_Size C m = (1 + sovRecord (ws_Index m)) + (1 + sovRecord (ws_Term m))
     + sized_field (map_option (conf_Marshal C) (ws_ConfState m)) + opt_len (ws_unrecognized m)"

definition sf_Size :: "SnapFile \<Rightarrow> nat" where
  "sf_Size m = (1 + sovRecord (ucast (sf_Crc m))) + sized_field (sf_Data m) + opt_len (sf_unrecognized m)"

section \<open>Marshalling into a sized buffer\<close>

text \<open>The buffer and the position above which it is filled. An index below zero or beyond the buffer panics.\<close>

type_synonym sized = "bytes \<times> nat"

definition put_bytes :: "bytes \<Rightarrow> sized \<Rightarrow> sized res" where
  "put_bytes data = (\<lambda>(dAtA, i).
     if length data \<le> i
     then Ok (take (i - length data) dAtA @ data @ drop i dAtA, i - length data)
     else Panicked ''slice bounds out of range'')"

function putVarint :: "bytes \<Rightarrow> nat \<Rightarrow> u64 \<Rightarrow> bytes res" where
  "putVarint dAtA offset v =
     (if length dAtA \<le> offset then Panicked ''index out of range''
      else if 0x80 \<le> v then
        putVarint (dAtA[offset := ucast (v AND 0x7F OR 0x80)]) (offset + 1) (drop_bit 7 v)
      else Ok (dAtA[offset := ucast v]))"
  by pat_completeness auto
termination
  by (relation "measure (\<lambda>(d, i, v). unat v)")
     (auto simp: drop_bit_eq_div word_le_nat_alt unat_div)

declare putVarint.simps [simp del]

definition encodeVarintRecord :: "u64 \<Rightarrow> sized \<Rightarrow> sized res" where
  "encodeVarintRecord v = (\<lambda>(dAtA, offset).
     if sovRecord v \<le> offset
     then bindR (putVarint dAtA (offset - sovRecord v) v) (\<lambda>d. Ok (d, offset - sovRecord v))
     else Panicked ''index out of range'')"

definition put_opt :: "bytes option \<Rightarrow> sized \<Rightarrow> sized res" where
  "put_opt b st = (case b of None \<Rightarrow> Ok st | Some d \<Rightarrow> put_bytes d st)"

definition put_field :: "byte \<Rightarrow> bytes option \<Rightarrow> sized \<Rightarrow> sized res" where
  "put_field tag b st =
     (case b of
        None \<Rightarrow> Ok st
      | Some d \<Rightarrow>
          bindR (put_bytes d st) (\<lambda>st.
          bindR (encodeVarintRecord (of_nat (length d)) st) (\<lambda>st.
          put_bytes [tag] st)))"

definition put_varint_field :: "byte \<Rightarrow> u64 \<Rightarrow> sized \<Rightarrow> sized res" where
  "put_varint_field tag v st = bindR (encodeVarintRecord v st) (put_bytes [tag])"

definition rec_MarshalToSizedBuffer :: "Record \<Rightarrow> bytes \<Rightarrow> sized res" where
  "rec_MarshalToSizedBuffer m dAtA =
     bindR (put_opt (rec_unrecognized m) (dAtA, length dAtA)) (\<lambda>st.
     bindR (put_field 0x1a (rec_Data m) st) (\<lambda>st.
     bindR (put_varint_field 0x10 (ucast (rec_Crc m)) st) (\<lambda>st.
     put_varint_field 0x8 (rec_Type m) st)))"

definition ws_MarshalToSizedBuffer :: "raft_codec \<Rightarrow> WalSnapshot \<Rightarrow> bytes \<Rightarrow> sized res" where
  "ws_MarshalToSizedBuffer C m dAtA =
     bindR (put_opt (ws_unrecognized m) (dAtA, length dAtA)) (\<lambda>st.
     bindR (put_field 0x1a (map_option (conf_Marshal C) (ws_ConfState m)) st) (\<lambda>st.
     bindR (put_varint_field 0x10 (ws_Term m) st) (\<lambda>st.
     put_varint_field 0x8 (ws_Index m) st)))"

definition sf_MarshalToSizedBuffer :: "SnapFile \<Rightarrow> bytes \<Rightarrow> sized res" where
  "sf_MarshalToSizedBuffer m dAtA =
     bindR (put_opt (sf_unrecognized m) (dAtA, length dAtA)) (\<lambda>st.
     bindR (put_field 0x12 (sf_Data m) st) (\<lambda>st.
     put_varint_field 0x8 (ucast (sf_Crc m)) st))"

text \<open>\<^verbatim>\<open>Marshal\<close> returns the first \<open>n\<close> bytes of the buffer, \<open>n\<close> being the number of bytes filled in at its end.\<close>

definition marshalled :: "sized res \<Rightarrow> bytes res" where
  "marshalled r = bindR r (\<lambda>(dAtA, i). Ok (take (length dAtA - i) dAtA))"

definition rec_Marshal :: "Record \<Rightarrow> bytes res" where
  "rec_Marshal m = marshalled (rec_MarshalToSizedBuffer m (replicate (rec_Size m) 0))"

definition ws_Marshal :: "raft_codec \<Rightarrow> WalSnapshot \<Rightarrow> bytes res" where
  "ws_Marshal C m = marshalled (ws_MarshalToSizedBuffer C m (replicate (ws_Size C m) 0))"

definition sf_Marshal :: "SnapFile \<Rightarrow> bytes res" where
  "sf_Marshal m = marshalled (sf_MarshalToSizedBuffer m (replicate (sf_Size m) 0))"

section \<open>Unmarshalling\<close>

text \<open>The loops that read a variable-length integer, on the bytes from the current index on: the integer and the
  number of bytes read. The integer is accumulated at its own width.\<close>

fun readVarint :: "nat \<Rightarrow> bytes \<Rightarrow> 'a::len word \<Rightarrow> ('a word \<times> nat) res" where
  "readVarint shift bs acc =
     (if 64 \<le> shift then Err (ErrText ''proto: integer overflow'')
      else case bs of
        [] \<Rightarrow> Err ErrUnexpectedEOF
      | b # r \<Rightarrow>
          (let acc' = acc OR push_bit shift (ucast (b AND 0x7F)) in
           if b < 0x80 then Ok (acc', 1)
           else bindR (readVarint (shift + 7) r acc') (\<lambda>(v, n). Ok (v, Suc n))))"

declare readVarint.simps [simp del]

definition maxInt :: nat where
  "maxInt = 2 ^ 63"

text \<open>\<^verbatim>\<open>skipRecord\<close>: the number of bytes of an unknown field. The index is below zero once the addition passes
  \<^const>\<open>maxInt\<close>.\<close>

definition skipField :: "bytes \<Rightarrow> nat \<Rightarrow> nat \<Rightarrow> nat \<Rightarrow> (nat \<times> nat) res" where
  "skipField dAtA iNdEx depth wireType =
     (if wireType = 0 then bindR (readVarint 0 (drop iNdEx dAtA) (0 :: u64)) (\<lambda>(_, n). Ok (iNdEx + n, depth))
      else if wireType = 1 then Ok (iNdEx + 8, depth)
      else if wireType = 2 then
        bindR (readVarint 0 (drop iNdEx dAtA) (0 :: u64)) (\<lambda>(len, n).
        if sint len < 0 then Err (ErrText ''proto: negative length found during unmarshaling'')
        else Ok (iNdEx + n + unat len, depth))
      else if wireType = 3 then Ok (iNdEx, depth + 1)
      else if wireType = 4 then
        (if depth = 0 then Err (ErrText ''proto: unexpected end of group'') else Ok (iNdEx, depth - 1))
      else if wireType = 5 then Ok (iNdEx + 4, depth)
      else Err (ErrText ''proto: illegal wireType''))"

lemma readVarint_pos: "readVarint sh bs acc = Ok (v, n) \<Longrightarrow> 0 < n"
  by (cases bs) (auto simp: readVarint.simps [of sh] Let_def bindR_Ok_iff split: if_splits)

lemma skipField_le: "skipField d i dp w = Ok (j, dp') \<Longrightarrow> i \<le> j"
  by (auto simp: skipField_def bindR_Ok_iff split: if_splits)

function skipRecord_loop :: "bytes \<Rightarrow> nat \<Rightarrow> nat \<Rightarrow> nat res" where
  "skipRecord_loop dAtA iNdEx depth =
     (if iNdEx < length dAtA then
        bindR (readVarint 0 (drop iNdEx dAtA) (0 :: u64)) (\<lambda>(wire, n).
        bindR (skipField dAtA (iNdEx + n) depth (unat (wire AND 7))) (\<lambda>(j, depth').
        if maxInt \<le> j then Err (ErrText ''proto: negative length found during unmarshaling'')
        else if depth' = 0 then Ok j
        else skipRecord_loop dAtA j depth'))
      else Err ErrUnexpectedEOF)"
  by pat_completeness auto
termination
proof (relation "measure (\<lambda>(d, i, _). length d - i)", simp)
  fix d :: bytes and i dp j dp' n :: nat and p q and wire :: u64
  assume "i < length d" "readVarint 0 (drop i d) (0 :: u64) = Ok p" "(wire, n) = p"
    "skipField d (i + n) dp (unat (wire AND 7)) = Ok q" "(j, dp') = q"
  then have "0 < n" "i + n \<le> j" using readVarint_pos skipField_le by metis+
  with \<open>i < length d\<close> show "((d, j, dp'), (d, i, dp)) \<in> measure (\<lambda>(d, i, _). length d - i)" by auto
qed

declare skipRecord_loop.simps [simp del]

definition skipRecord :: "bytes \<Rightarrow> nat res" where
  "skipRecord dAtA = skipRecord_loop dAtA 0 0"

lemma skipRecord_loop_gt: "skipRecord_loop d i dp = Ok k \<Longrightarrow> i < k"
proof (induction d i dp rule: skipRecord_loop.induct)
  case (1 d i dp)
  from "1.prems" obtain wire n j dp' where r: "i < length d" "readVarint 0 (drop i d) (0 :: u64) = Ok (wire, n)"
    "skipField d (i + n) dp (unat (wire AND 7)) = Ok (j, dp')" "\<not> maxInt \<le> j"
    "dp' = 0 \<and> k = j \<or> dp' \<noteq> 0 \<and> skipRecord_loop d j dp' = Ok k"
    by (auto simp: skipRecord_loop.simps [of d i dp] bindR_Ok_iff split: if_splits)
  have "i < j" using readVarint_pos [OF r(2)] skipField_le [OF r(3)] by simp
  then show ?case using r(5) "1.IH" [OF r(1,2) refl r(3) refl r(4)] by auto
qed

lemma skipRecord_pos: "skipRecord d = Ok k \<Longrightarrow> 0 < k"
  by (simp add: skipRecord_def skipRecord_loop_gt)

text \<open>The handler of a message gets the field number, the wire type, the bytes after the tag, the index there and
  the message so far; it returns the message and the number of bytes of the field, or nothing for an
  unknown field.\<close>

type_synonym 'm handler = "int \<Rightarrow> nat \<Rightarrow> bytes \<Rightarrow> nat \<Rightarrow> 'm \<Rightarrow> ('m \<times> nat) res option"

function unmarshal_loop :: "'m handler \<Rightarrow> (bytes \<Rightarrow> 'm \<Rightarrow> 'm) \<Rightarrow> bytes \<Rightarrow> nat \<Rightarrow> 'm \<Rightarrow> 'm res" where
  "unmarshal_loop field unknown dAtA iNdEx m =
     (if iNdEx < length dAtA then
        bindR (readVarint 0 (drop iNdEx dAtA) (0 :: u64)) (\<lambda>(wire, n).
        let fieldNum = sint (ucast (drop_bit 3 wire) :: u32); wireType = unat (wire AND 7) in
        if wireType = 4 then Err (ErrText ''proto: wiretype end group for non-group'')
        else if fieldNum \<le> 0 then Err (ErrText ''proto: illegal tag'')
        else
          (case field fieldNum wireType (drop (iNdEx + n) dAtA) (iNdEx + n) m of
             Some r \<Rightarrow> bindR r (\<lambda>(m', k). unmarshal_loop field unknown dAtA (iNdEx + n + k) m')
           | None \<Rightarrow>
               bindR (skipRecord (drop iNdEx dAtA)) (\<lambda>skippy.
               if maxInt \<le> iNdEx + skippy then Err (ErrText ''proto: negative length found during unmarshaling'')
               else if length dAtA < iNdEx + skippy then Err ErrUnexpectedEOF
               else unmarshal_loop field unknown dAtA (iNdEx + skippy)
                      (unknown (take skippy (drop iNdEx dAtA)) m))))
      else if length dAtA < iNdEx then Err ErrUnexpectedEOF
      else Ok m)"
  by pat_completeness auto
termination
proof (relation "measure (\<lambda>(_, _, d, i, _). length d - i)", simp_all)
  fix d :: bytes and i n k :: nat and p and wire :: u64
  assume "i < length d" "readVarint 0 (drop i d) (0 :: u64) = Ok p" "(wire, n) = p"
  then show "length d - (i + n + k) < length d - i" using readVarint_pos by fastforce
next
  fix d :: bytes and i k :: nat
  assume "i < length d" "skipRecord (drop i d) = Ok k"
  then show "length d - (i + k) < length d - i" using skipRecord_pos by fastforce
qed

declare unmarshal_loop.simps [simp del]

text \<open>A length-delimited field: its bytes and the number of bytes read.\<close>

definition get_bytes :: "bytes \<Rightarrow> nat \<Rightarrow> (bytes \<times> nat) res" where
  "get_bytes bs iNdEx =
     bindR (readVarint 0 bs (0 :: u64)) (\<lambda>(len, n).
     if sint len < 0 then Err (ErrText ''proto: negative length found during unmarshaling'')
     else if maxInt \<le> iNdEx + n + unat len then Err (ErrText ''proto: negative length found during unmarshaling'')
     else if length bs < n + unat len then Err ErrUnexpectedEOF
     else Ok (take (unat len) (drop n bs), n + unat len))"

definition wrongWireType :: error where
  "wrongWireType = ErrText ''proto: wrong wireType''"

definition add_unknown :: "bytes \<Rightarrow> bytes option \<Rightarrow> bytes option" where
  "add_unknown bs u = Some (case u of None \<Rightarrow> bs | Some old \<Rightarrow> old @ bs)"

definition rec_field :: "Record handler" where
  "rec_field fieldNum wireType bs iNdEx m =
     (if fieldNum = 1 then Some (if wireType \<noteq> 0 then Err wrongWireType
        else bindR (readVarint 0 bs 0) (\<lambda>(v, n). Ok (m\<lparr>rec_Type := v\<rparr>, n)))
      else if fieldNum = 2 then Some (if wireType \<noteq> 0 then Err wrongWireType
        else bindR (readVarint 0 bs 0) (\<lambda>(v, n). Ok (m\<lparr>rec_Crc := v\<rparr>, n)))
      else if fieldNum = 3 then Some (if wireType \<noteq> 2 then Err wrongWireType
        else bindR (get_bytes bs iNdEx) (\<lambda>(d, n). Ok (m\<lparr>rec_Data := Some d\<rparr>, n)))
      else None)"

definition rec_Unmarshal :: "bytes \<Rightarrow> Record \<Rightarrow> Record res" where
  "rec_Unmarshal dAtA m =
     unmarshal_loop rec_field (\<lambda>bs m. m\<lparr>rec_unrecognized := add_unknown bs (rec_unrecognized m)\<rparr>) dAtA 0 m"

definition ws_field :: "raft_codec \<Rightarrow> WalSnapshot handler" where
  "ws_field C fieldNum wireType bs iNdEx m =
     (if fieldNum = 1 then Some (if wireType \<noteq> 0 then Err wrongWireType
        else bindR (readVarint 0 bs 0) (\<lambda>(v, n). Ok (m\<lparr>ws_Index := v\<rparr>, n)))
      else if fieldNum = 2 then Some (if wireType \<noteq> 0 then Err wrongWireType
        else bindR (readVarint 0 bs 0) (\<lambda>(v, n). Ok (m\<lparr>ws_Term := v\<rparr>, n)))
      else if fieldNum = 3 then Some (if wireType \<noteq> 2 then Err wrongWireType
        else bindR (get_bytes bs iNdEx) (\<lambda>(d, n).
          bindR (conf_Unmarshal C d (case ws_ConfState m of None \<Rightarrow> emptyConfState | Some cs \<Rightarrow> cs)) (\<lambda>cs.
          Ok (m\<lparr>ws_ConfState := Some cs\<rparr>, n))))
      else None)"

definition ws_Unmarshal :: "raft_codec \<Rightarrow> bytes \<Rightarrow> WalSnapshot \<Rightarrow> WalSnapshot res" where
  "ws_Unmarshal C dAtA m =
     unmarshal_loop (ws_field C) (\<lambda>bs m. m\<lparr>ws_unrecognized := add_unknown bs (ws_unrecognized m)\<rparr>) dAtA 0 m"

definition sf_field :: "SnapFile handler" where
  "sf_field fieldNum wireType bs iNdEx m =
     (if fieldNum = 1 then Some (if wireType \<noteq> 0 then Err wrongWireType
        else bindR (readVarint 0 bs 0) (\<lambda>(v, n). Ok (m\<lparr>sf_Crc := v\<rparr>, n)))
      else if fieldNum = 2 then Some (if wireType \<noteq> 2 then Err wrongWireType
        else bindR (get_bytes bs iNdEx) (\<lambda>(d, n). Ok (m\<lparr>sf_Data := Some d\<rparr>, n)))
      else None)"

definition sf_Unmarshal :: "bytes \<Rightarrow> SnapFile \<Rightarrow> SnapFile res" where
  "sf_Unmarshal dAtA m =
     unmarshal_loop sf_field (\<lambda>bs m. m\<lparr>sf_unrecognized := add_unknown bs (sf_unrecognized m)\<rparr>) dAtA 0 m"

section \<open>Reference encoding\<close>

text \<open>The bytes of a message as a concatenation of its fields.\<close>

function varint :: "u64 \<Rightarrow> bytes" where
  "varint v = (if 0x80 \<le> v then ucast (v AND 0x7F OR 0x80) # varint (drop_bit 7 v) else [ucast v])"
  by pat_completeness auto
termination
  by (relation "measure unat") (auto simp: drop_bit_eq_div word_le_nat_alt unat_div)

declare varint.simps [simp del]

definition field_bytes :: "byte \<Rightarrow> bytes option \<Rightarrow> bytes" where
  "field_bytes tag b = (case b of None \<Rightarrow> [] | Some d \<Rightarrow> tag # varint (of_nat (length d)) @ d)"

definition rec_bytes :: "Record \<Rightarrow> bytes" where
  "rec_bytes m = (0x8 # varint (rec_Type m)) @ (0x10 # varint (ucast (rec_Crc m))) @ field_bytes 0x1a (rec_Data m)
     @ (case rec_unrecognized m of None \<Rightarrow> [] | Some u \<Rightarrow> u)"

definition ws_bytes :: "raft_codec \<Rightarrow> WalSnapshot \<Rightarrow> bytes" where
  "ws_bytes C m = (0x8 # varint (ws_Index m)) @ (0x10 # varint (ws_Term m))
     @ field_bytes 0x1a (map_option (conf_Marshal C) (ws_ConfState m))
     @ (case ws_unrecognized m of None \<Rightarrow> [] | Some u \<Rightarrow> u)"

definition sf_bytes :: "SnapFile \<Rightarrow> bytes" where
  "sf_bytes m = (0x8 # varint (ucast (sf_Crc m))) @ field_bytes 0x12 (sf_Data m)
     @ (case sf_unrecognized m of None \<Rightarrow> [] | Some u \<Rightarrow> u)"

definition demo_record :: Record where
  "demo_record = \<lparr>rec_Type = 2, rec_Crc = 0xDEADBEEF, rec_Data = Some [1, 2, 3], rec_unrecognized = None\<rparr>"

definition demo_marker :: WalSnapshot where
  "demo_marker = \<lparr>ws_Index = 300, ws_Term = 4, ws_ConfState = Some \<lparr>cs_Voters = [1, 2, 3], cs_Learners = [4]\<rparr>, ws_unrecognized = None\<rparr>"

definition demo_file :: SnapFile where
  "demo_file = \<lparr>sf_Crc = 77, sf_Data = Some [0, 255], sf_unrecognized = None\<rparr>"

text \<open>A step that fills the end of any large enough buffer with the given bytes.\<close>

definition fills :: "(sized \<Rightarrow> sized res) \<Rightarrow> bytes \<Rightarrow> bool" where
  "fills w e \<longleftrightarrow> (\<forall>junk tail. length e \<le> length junk \<longrightarrow>
     w (junk @ tail, length junk) = Ok (take (length junk - length e) junk @ e @ tail, length junk - length e))"

section \<open>Lemmas on marshalling\<close>

lemma bit_len_half: "0 < n \<Longrightarrow> bit_len n = Suc (bit_len (n div 2))"
  by (subst bit_len.simps) simp

lemma bit_len_zero [simp]: "bit_len 0 = 0"
  by (subst bit_len.simps) simp

lemma bit_len_div: "2 ^ k \<le> n \<Longrightarrow> bit_len n = bit_len (n div 2 ^ k) + k"
proof (induction k arbitrary: n)
  case (Suc k)
  then have "2 ^ k \<le> n div 2" by auto
  moreover have "0 < n" using Suc.prems by (metis gr0I not_one_le_zero one_le_numeral one_le_power order_trans)
  ultimately show ?case using Suc.IH [of "n div 2"] by (simp add: bit_len_half [of n] div_mult2_eq)
qed simp

lemma bit_len_le: "n < 2 ^ k \<Longrightarrow> bit_len n \<le> k"
proof (induction k arbitrary: n)
  case (Suc k)
  then show ?case by (cases "n = 0") (simp_all add: bit_len_half less_mult_imp_div_less mult.commute)
qed simp

lemma Len64_or_one: "Len64 (v OR 1) = Suc (bit_len (unat v div 2))"
proof -
  have "drop_bit 1 (v OR 1) = drop_bit 1 v" by (rule bit_word_eqI) (simp add: bit_simps)
  then have "unat ((v OR 1) div 2) = unat (v div 2)" by (simp add: drop_bit_eq_div)
  then have "unat (v OR 1) div 2 = unat v div 2" by (simp add: unat_div)
  moreover have "bit (v OR 1) 0" by (simp add: bit_simps)
  then have "v OR 1 \<noteq> 0" by (metis bit_0_eq bot_fun_def bot_bool_def)
  then have "0 < unat (v OR 1)" by (simp add: unat_gt_0)
  ultimately show ?thesis by (simp add: Len64_def bit_len_half)
qed

lemma sov_le: "sovRecord v \<le> 10"
proof -
  have "Len64 (v OR 1) \<le> 64" using bit_len_le [OF unsigned_less [of "v OR 1", where 'a = nat]] by (simp add: Len64_def)
  then show ?thesis by (simp add: sovRecord_def)
qed

lemma length_varint: "length (varint v) = sovRecord v"
proof (induction v rule: varint.induct)
  case (1 v)
  let ?n = "unat v"
  show ?case
  proof (cases "0x80 \<le> v")
    case True
    then have n: "2 ^ 7 \<le> ?n" "0 < ?n div 128" by (auto simp: word_le_nat_alt)
    have "Suc (bit_len (?n div 2)) = bit_len (?n div 128) + 7"
      using n bit_len_half [of ?n] bit_len_div [OF n(1)] by simp
    moreover have "Suc (bit_len (?n div 128 div 2)) = bit_len (?n div 128)"
      using n(2) by (simp add: bit_len_half)
    moreover have "unat (drop_bit 7 v) = ?n div 128" by (simp add: drop_bit_eq_div unat_div)
    ultimately show ?thesis
      using 1 True by (simp add: varint.simps [of v] sovRecord_def Len64_or_one) presburger
  next
    case False
    then have "?n < 2 ^ 7" by (simp add: word_le_nat_alt)
    then have "bit_len (?n div 2) \<le> 6" by (intro bit_len_le) (simp add: less_mult_imp_div_less)
    then have "(Suc (bit_len (?n div 2)) + 6) div 7 = 1" by linarith
    with False show ?thesis by (simp add: varint.simps [of v] sovRecord_def Len64_or_one)
  qed
qed

lemma putVarint_varint:
  "length junk = length (varint v) \<Longrightarrow> putVarint (a @ junk @ c) (length a) v = Ok (a @ varint v @ c)"
proof (induction v arbitrary: a junk rule: varint.induct)
  case (1 v)
  obtain x junk' where j: "junk = x # junk'"
    using "1.prems" by (cases junk) (auto simp: varint.simps [of v] split: if_splits)
  show ?case
  proof (cases "0x80 \<le> v")
    case True
    let ?b = "ucast (v AND 0x7F OR 0x80) :: byte"
    have "putVarint (a @ junk @ c) (length a) v = putVarint ((a @ [?b]) @ junk' @ c) (length (a @ [?b])) (drop_bit 7 v)"
      using True by (subst putVarint.simps) (simp add: j)
    also have "\<dots> = Ok ((a @ [?b]) @ varint (drop_bit 7 v) @ c)"
      using "1.IH" [OF True, of junk' "a @ [?b]"] "1.prems" True by (simp add: j varint.simps [of v])
    finally show ?thesis using True by (simp add: varint.simps [of v])
  next
    case False
    then show ?thesis using "1.prems" by (simp add: j varint.simps [of v] putVarint.simps [of _ _ v])
  qed
qed

lemma fillsD:
  assumes "fills w e" and "length e \<le> length junk"
  shows "w (junk @ tail, length junk) = Ok (take (length junk - length e) junk @ e @ tail, length junk - length e)"
  using assms by (auto simp: fills_def)

lemma fills_put_bytes: "fills (put_bytes d) d"
  by (simp add: fills_def put_bytes_def)

lemma fills_varint: "fills (encodeVarintRecord v) (varint v)"
proof (unfold fills_def, intro allI impI)
  fix junk tail :: bytes assume le: "length (varint v) \<le> length junk"
  let ?k = "length junk - length (varint v)"
  have "putVarint (take ?k junk @ drop ?k junk @ tail) (length (take ?k junk)) v = Ok (take ?k junk @ varint v @ tail)"
    using le by (intro putVarint_varint) simp
  then have "putVarint (junk @ tail) ?k v = Ok (take ?k junk @ varint v @ tail)"
    using le by (simp add: append_assoc [symmetric] del: append_assoc)
  then show "encodeVarintRecord v (junk @ tail, length junk) = Ok (take ?k junk @ varint v @ tail, ?k)"
    using le by (simp add: encodeVarintRecord_def length_varint [symmetric])
qed

lemma fills_seq:
  assumes "fills w e" and "fills w' e'"
  shows "fills (\<lambda>st. bindR (w st) w') (e' @ e)"
proof (unfold fills_def, intro allI impI)
  fix junk tail :: bytes assume le: "length (e' @ e) \<le> length junk"
  let ?k = "length junk - length e"
  have "w' (take ?k junk @ e @ tail, length (take ?k junk))
      = Ok (take (?k - length e') (take ?k junk) @ e' @ e @ tail, ?k - length e')"
    using fillsD [OF assms(2), of "take ?k junk" "e @ tail"] le by simp
  then show "bindR (w (junk @ tail, length junk)) w'
      = Ok (take (length junk - length (e' @ e)) junk @ (e' @ e) @ tail, length junk - length (e' @ e))"
    using fillsD [OF assms(1), of junk tail] le by (simp add: min.absorb1 min.absorb2 add.commute)
qed

lemma fills_cong: "fills w e \<Longrightarrow> e = e' \<Longrightarrow> fills w e'"
  by simp

lemma fills_opt: "fills (put_opt b) (case b of None \<Rightarrow> [] | Some d \<Rightarrow> d)"
  by (cases b) (auto simp: put_opt_def fills_def put_bytes_def)

lemma fills_field: "fills (put_field tag b) (field_bytes tag b)"
proof (cases b)
  case None
  then show ?thesis by (simp add: put_field_def field_bytes_def fills_def)
next
  case (Some d)
  have "fills (\<lambda>st. bindR (put_bytes d st) (\<lambda>st. bindR (encodeVarintRecord (of_nat (length d)) st) (put_bytes [tag])))
      (([tag] @ varint (of_nat (length d))) @ d)"
    by (intro fills_seq fills_put_bytes fills_varint)
  then show ?thesis by (simp add: put_field_def [abs_def] field_bytes_def Some)
qed

lemma fills_varint_field: "fills (put_varint_field tag v) (tag # varint v)"
  using fills_seq [OF fills_varint [of v] fills_put_bytes [of "[tag]"]] by (simp add: put_varint_field_def [abs_def])

lemma sized_field_length: "length (field_bytes tag b) = sized_field b"
  by (simp add: field_bytes_def sized_field_def length_varint split: option.split)

lemma opt_len_length: "length (case b of None \<Rightarrow> [] | Some d \<Rightarrow> d) = opt_len b"
  by (simp add: opt_len_def split: option.split)

lemma marshalled_fills:
  assumes "fills w e" and "length e = n"
  shows "marshalled (w (replicate n 0, n)) = Ok e"
  using fillsD [OF assms(1), of "replicate n 0" "[]"] assms(2) by (simp add: marshalled_def)

lemma rec_Marshal_bytes: "rec_Marshal m = Ok (rec_bytes m)"
proof -
  have "fills (\<lambda>st. bindR (put_opt (rec_unrecognized m) st) (\<lambda>st. bindR (put_field 0x1a (rec_Data m) st)
      (\<lambda>st. bindR (put_varint_field 0x10 (ucast (rec_Crc m)) st) (put_varint_field 0x8 (rec_Type m))))) (rec_bytes m)"
    by (rule fills_cong, rule fills_seq [OF fills_opt], rule fills_seq [OF fills_field],
        rule fills_seq [OF fills_varint_field fills_varint_field]) (simp add: rec_bytes_def)
  from marshalled_fills [OF this, of "rec_Size m"] show ?thesis
    by (simp add: rec_Marshal_def rec_MarshalToSizedBuffer_def rec_bytes_def rec_Size_def length_varint sized_field_length opt_len_length)
qed

lemma ws_Marshal_bytes: "ws_Marshal C m = Ok (ws_bytes C m)"
proof -
  have "fills (\<lambda>st. bindR (put_opt (ws_unrecognized m) st) (\<lambda>st. bindR (put_field 0x1a (map_option (conf_Marshal C) (ws_ConfState m)) st)
      (\<lambda>st. bindR (put_varint_field 0x10 (ws_Term m) st) (put_varint_field 0x8 (ws_Index m))))) (ws_bytes C m)"
    by (rule fills_cong, rule fills_seq [OF fills_opt], rule fills_seq [OF fills_field],
        rule fills_seq [OF fills_varint_field fills_varint_field]) (simp add: ws_bytes_def)
  from marshalled_fills [OF this, of "ws_Size C m"] show ?thesis
    by (simp add: ws_Marshal_def ws_MarshalToSizedBuffer_def ws_bytes_def ws_Size_def length_varint sized_field_length opt_len_length)
qed

lemma sf_Marshal_bytes: "sf_Marshal m = Ok (sf_bytes m)"
proof -
  have "fills (\<lambda>st. bindR (put_opt (sf_unrecognized m) st) (\<lambda>st. bindR (put_field 0x12 (sf_Data m) st)
      (put_varint_field 0x8 (ucast (sf_Crc m))))) (sf_bytes m)"
    by (rule fills_cong, rule fills_seq [OF fills_opt], rule fills_seq [OF fills_field fills_varint_field])
       (simp add: sf_bytes_def)
  from marshalled_fills [OF this, of "sf_Size m"] show ?thesis
    by (simp add: sf_Marshal_def sf_MarshalToSizedBuffer_def sf_bytes_def sf_Size_def length_varint sized_field_length opt_len_length)
qed

section \<open>Lemmas on unmarshalling\<close>

lemma mask7: "(0x7F :: 'a::len word) = mask 7" and exp7: "(0x80 :: 'a::len word) = 2 ^ 7"
  by (simp_all add: mask_eq_exp_minus_1)

lemma bit_128: "bit (0x80 :: int) n \<longleftrightarrow> n = 7"
  using bit_exp_iff [of 7 n, where 'a = int] by simp

lemma varint_byte:
  "(ucast (v AND 0x7F OR 0x80) :: byte) AND 0x7F = ucast (take_bit 7 v)" for v :: u64
  unfolding mask7 by (rule bit_word_eqI) (auto simp: bit_simps bit_128)

lemma varint_join:
  fixes v :: u64 and acc :: "'a::len word"
  shows "(acc OR push_bit sh (ucast (ucast (take_bit 7 v) :: byte))) OR push_bit (sh + 7) (ucast (drop_bit 7 v))
    = acc OR push_bit sh (ucast v)"
proof (rule bit_word_eqI)
  fix n assume "n < LENGTH('a)"
  have "sh + 7 \<le> n \<Longrightarrow> 7 + (n - (sh + 7)) = n - sh" by simp
  then show "bit ((acc OR push_bit sh (ucast (ucast (take_bit 7 v) :: byte))) OR push_bit (sh + 7) (ucast (drop_bit 7 v))) n
      = bit (acc OR push_bit sh (ucast v)) n"
    by (cases "sh + 7 \<le> n") (auto simp: bit_simps)
qed

lemma readVarint_varint_gen:
  assumes "unat v * 2 ^ sh < 2 ^ 64" and "sh < 64"
  shows "readVarint sh (varint v @ r) (acc :: 'a::len word) = Ok (acc OR push_bit sh (ucast v), length (varint v))"
  using assms
proof (induction v arbitrary: sh acc rule: varint.induct)
  case (1 v)
  show ?case
  proof (cases "0x80 \<le> v")
    case True
    let ?b = "ucast (v AND 0x7F OR 0x80) :: byte"
    have "bit ?b 7" by (simp add: bit_simps)
    from bit_imp_not_less_exp [OF this] have b: "\<not> ?b < 0x80" by simp
    have "unat v * 2 ^ sh \<ge> 2 ^ (sh + 7)" using True by (simp add: word_le_nat_alt power_add)
    then have "(2 :: nat) ^ (sh + 7) < 2 ^ 64" using "1.prems" by linarith
    then have sh: "sh + 7 < 64" by (rule power_less_imp_less_exp [rotated]) simp
    have "unat (drop_bit 7 v) * 2 ^ (sh + 7) \<le> unat v * 2 ^ sh"
      by (simp add: drop_bit_eq_div unat_div power_add)
    then have lt: "unat (drop_bit 7 v) * 2 ^ (sh + 7) < 2 ^ 64" using "1.prems" by linarith
    show ?thesis
      using "1.IH" [OF True lt sh] "1.prems"(2) True b
      by (simp add: varint.simps [of v] readVarint.simps [of sh] Let_def varint_byte varint_join)
  next
    case False
    then have "take_bit 7 v = v" using word_less_exp_iff [of 7 v] by (simp add: not_le)
    then have low: "bit v n \<Longrightarrow> n < 7" for n by (metis bit_take_bit_iff)
    have "take_bit 7 (ucast v :: byte) = ucast v" by (rule bit_word_eqI) (auto simp: bit_simps dest: low)
    then have "ucast v < (0x80 :: byte)" using word_less_exp_iff [of 7 "ucast v :: byte"] by simp
    moreover have "(ucast v :: byte) AND 0x7F = ucast v"
      unfolding mask7 by (rule bit_word_eqI) (auto simp: bit_simps dest: low)
    moreover have "ucast (ucast v :: byte) = (ucast v :: 'a word)"
      by (rule bit_word_eqI) (auto simp: bit_simps dest: low)
    ultimately have "ucast v < (0x80 :: byte)" "(ucast v :: byte) AND 0x7F = ucast v" "ucast (ucast v :: byte) = (ucast v :: 'a word)"
      by simp_all
    then show ?thesis
      using False "1.prems"(2) by (simp add: varint.simps [of v] readVarint.simps [of sh] Let_def)
  qed
qed

lemma readVarint_varint [simp]:
  "readVarint 0 (varint v @ r) (0 :: 'a::len word) = Ok (ucast v, length (varint v))"
  using readVarint_varint_gen [of v 0 r "0 :: 'a word"] unsigned_less [of v, where 'a = nat] by simp

lemma readVarint_varint_end [simp]:
  "readVarint 0 (varint v) (0 :: 'a::len word) = Ok (ucast v, length (varint v))"
  using readVarint_varint [of v "[]"] by simp

lemma readVarint_tag:
  "tag < 0x80 \<Longrightarrow> readVarint 0 (tag # r) (0 :: u64) = Ok (ucast tag, 1)"
  using word_less_exp_iff [of 7 tag]
  by (simp add: readVarint.simps [of 0] mask7 take_bit_eq_mask [symmetric])

lemma get_bytes_field:
  assumes "i + length (varint (of_nat (length d))) + length d < maxInt"
  shows "get_bytes (varint (of_nat (length d)) @ d @ r) i = Ok (d, length (varint (of_nat (length d))) + length d)"
proof -
  have len: "length d < 2 ^ 63" using assms by (simp add: maxInt_def)
  then have u: "unat (of_nat (length d) :: u64) = length d" by (simp add: unsigned_of_nat take_bit_nat_eq_self)
  then have "\<not> bit (of_nat (length d) :: u64) 63"
    using len bit_imp_not_less_exp [of "of_nat (length d) :: u64" 63] by (auto simp: word_less_nat_alt)
  then have "\<not> sint (of_nat (length d) :: u64) < 0"
    by (simp add: not_less sint_uint signed_take_bit_nonnegative_iff bit_unsigned_iff)
  with assms show ?thesis by (simp add: get_bytes_def u maxInt_def)
qed

lemma unmarshal_field:
  assumes "i = length pre" and "tag < 0x80"
    and "sint (ucast (drop_bit 3 (ucast tag :: u64)) :: u32) = fn" and "0 < fn"
    and "unat (ucast tag AND 7 :: u64) = wt" and "wt \<noteq> 4"
    and "field fn wt (body @ post) (i + 1) m = Some (Ok (m', length body))"
  shows "unmarshal_loop field unk (pre @ tag # body @ post) i m
    = unmarshal_loop field unk (pre @ tag # body @ post) (i + 1 + length body) m'"
  using assms by (subst unmarshal_loop.simps) (simp add: readVarint_tag Let_def)

lemma unmarshal_end: "unmarshal_loop field unk d (length d) m = Ok m"
  by (subst unmarshal_loop.simps) simp

lemma unmarshal_opt_field:
  assumes "i = length pre" and "tag < 0x80"
    and "sint (ucast (drop_bit 3 (ucast tag :: u64)) :: u32) = fn" and "0 < fn"
    and "unat (ucast tag AND 7 :: u64) = wt" and "wt \<noteq> 4"
    and "length (pre @ field_bytes tag b) < maxInt" and "b = None \<Longrightarrow> m' = m"
    and "\<And>x bs n. b = Some x \<Longrightarrow> get_bytes bs (i + 1) = Ok (x, n) \<Longrightarrow> field fn wt bs (i + 1) m = Some (Ok (m', n))"
  shows "unmarshal_loop field unk (pre @ field_bytes tag b) i m = Ok m'"
proof (cases b)
  case None
  then show ?thesis using unmarshal_end [of field unk pre m] assms(1,8) by (simp add: field_bytes_def)
next
  case (Some x)
  let ?b = "varint (of_nat (length x)) @ x"
  have "i + 1 + length ?b < maxInt" using assms(1,7) by (simp add: field_bytes_def Some)
  then have "get_bytes (?b @ []) (i + 1) = Ok (x, length ?b)"
    using get_bytes_field [of "i + 1" x "[]"] by (simp add: add.assoc)
  from assms(9) [OF Some this]
  have "unmarshal_loop field unk (pre @ tag # ?b @ []) i m = unmarshal_loop field unk (pre @ tag # ?b @ []) (i + 1 + length ?b) m'"
    by (rule unmarshal_field [OF assms(1-6)])
  also have "\<dots> = Ok m'" using unmarshal_end [of field unk "pre @ tag # ?b @ []" m'] assms(1) by simp
  finally show ?thesis by (simp add: field_bytes_def Some)
qed

lemmas handler_defs = rec_field_def ws_field_def sf_field_def

lemma ucast_u32 [simp]: "ucast (ucast c :: u64) = (c :: u32)"
  by (rule bit_word_eqI) (auto simp: bit_simps)

lemma length_rec_bytes: "length (rec_bytes m) = rec_Size m"
  by (simp add: rec_bytes_def rec_Size_def length_varint sized_field_length opt_len_length)

lemma length_ws_bytes: "length (ws_bytes C m) = ws_Size C m"
  by (simp add: ws_bytes_def ws_Size_def length_varint sized_field_length opt_len_length)

lemma length_sf_bytes: "length (sf_bytes m) = sf_Size m"
  by (simp add: sf_bytes_def sf_Size_def length_varint sized_field_length opt_len_length)

lemma rec_Unmarshal_bytes:
  assumes "rec_unrecognized m = None" and "rec_Size m < maxInt"
  shows "rec_Unmarshal (rec_bytes m) emptyRecord = Ok m"
proof -
  let ?A = "varint (rec_Type m)" and ?B = "varint (ucast (rec_Crc m))" and ?F = "field_bytes 0x1a (rec_Data m)"
  let ?U = "unmarshal_loop rec_field (\<lambda>bs m. m\<lparr>rec_unrecognized := add_unknown bs (rec_unrecognized m)\<rparr>)"
  let ?m1 = "emptyRecord\<lparr>rec_Type := rec_Type m\<rparr>"
  let ?m2 = "?m1\<lparr>rec_Crc := rec_Crc m\<rparr>"
  have d: "rec_bytes m = [] @ 0x8 # ?A @ 0x10 # ?B @ ?F" using assms(1) by (simp add: rec_bytes_def)
  have "?U ([] @ 0x8 # ?A @ 0x10 # ?B @ ?F) 0 emptyRecord = ?U ([] @ 0x8 # ?A @ 0x10 # ?B @ ?F) (0 + 1 + length ?A) ?m1"
    by (rule unmarshal_field [where fn = 1 and wt = 0]) (simp_all add: handler_defs)
  also have "\<dots> = ?U ((0x8 # ?A) @ 0x10 # ?B @ ?F) (length (0x8 # ?A)) ?m1" by simp
  also have "\<dots> = ?U ((0x8 # ?A) @ 0x10 # ?B @ ?F) (length (0x8 # ?A) + 1 + length ?B) ?m2"
    by (rule unmarshal_field [where fn = 2 and wt = 0]) (simp_all add: handler_defs)
  also have "\<dots> = ?U ((0x8 # ?A @ 0x10 # ?B) @ ?F) (length (0x8 # ?A @ 0x10 # ?B)) ?m2" by simp
  also have "\<dots> = Ok m"
    using assms length_rec_bytes [of m, symmetric]
    by (intro unmarshal_opt_field [where fn = 3 and wt = 2]) (simp_all add: handler_defs rec_bytes_def emptyRecord_def)
  finally show ?thesis by (simp add: rec_Unmarshal_def d)
qed

lemma ws_Unmarshal_bytes:
  assumes "ws_unrecognized m = None" and "ws_Size C m < maxInt"
    and "raftpb C"
  shows "ws_Unmarshal C (ws_bytes C m) emptyWalSnapshot = Ok m"
proof -
  let ?A = "varint (ws_Index m)" and ?B = "varint (ws_Term m)"
    and ?F = "field_bytes 0x1a (map_option (conf_Marshal C) (ws_ConfState m))"
  let ?U = "unmarshal_loop (ws_field C) (\<lambda>bs m. m\<lparr>ws_unrecognized := add_unknown bs (ws_unrecognized m)\<rparr>)"
  let ?m1 = "emptyWalSnapshot\<lparr>ws_Index := ws_Index m\<rparr>"
  let ?m2 = "?m1\<lparr>ws_Term := ws_Term m\<rparr>"
  have d: "ws_bytes C m = [] @ 0x8 # ?A @ 0x10 # ?B @ ?F" using assms(1) by (simp add: ws_bytes_def)
  have "?U ([] @ 0x8 # ?A @ 0x10 # ?B @ ?F) 0 emptyWalSnapshot = ?U ([] @ 0x8 # ?A @ 0x10 # ?B @ ?F) (0 + 1 + length ?A) ?m1"
    by (rule unmarshal_field [where fn = 1 and wt = 0]) (simp_all add: handler_defs)
  also have "\<dots> = ?U ((0x8 # ?A) @ 0x10 # ?B @ ?F) (length (0x8 # ?A)) ?m1" by simp
  also have "\<dots> = ?U ((0x8 # ?A) @ 0x10 # ?B @ ?F) (length (0x8 # ?A) + 1 + length ?B) ?m2"
    by (rule unmarshal_field [where fn = 2 and wt = 0]) (simp_all add: handler_defs)
  also have "\<dots> = ?U ((0x8 # ?A @ 0x10 # ?B) @ ?F) (length (0x8 # ?A @ 0x10 # ?B)) ?m2" by simp
  also have "\<dots> = Ok m"
    using assms length_ws_bytes [of C m, symmetric]
    by (intro unmarshal_opt_field [where fn = 3 and wt = 2])
       (auto simp: handler_defs ws_bytes_def emptyWalSnapshot_def raftpb.conf_round_trip)
  finally show ?thesis by (simp add: ws_Unmarshal_def d)
qed

lemma sf_Unmarshal_bytes:
  assumes "sf_unrecognized m = None" and "sf_Size m < maxInt"
  shows "sf_Unmarshal (sf_bytes m) emptySnapFile = Ok m"
proof -
  let ?A = "varint (ucast (sf_Crc m))" and ?F = "field_bytes 0x12 (sf_Data m)"
  let ?U = "unmarshal_loop sf_field (\<lambda>bs m. m\<lparr>sf_unrecognized := add_unknown bs (sf_unrecognized m)\<rparr>)"
  let ?m1 = "emptySnapFile\<lparr>sf_Crc := sf_Crc m\<rparr>"
  have d: "sf_bytes m = [] @ 0x8 # ?A @ ?F" using assms(1) by (simp add: sf_bytes_def)
  have "?U ([] @ 0x8 # ?A @ ?F) 0 emptySnapFile = ?U ([] @ 0x8 # ?A @ ?F) (0 + 1 + length ?A) ?m1"
    by (rule unmarshal_field [where fn = 1 and wt = 0]) (simp_all add: handler_defs)
  also have "\<dots> = ?U ((0x8 # ?A) @ ?F) (length (0x8 # ?A)) ?m1" by simp
  also have "\<dots> = Ok m"
    using assms length_sf_bytes [of m, symmetric]
    by (intro unmarshal_opt_field [where fn = 2 and wt = 2]) (simp_all add: handler_defs sf_bytes_def emptySnapFile_def)
  finally show ?thesis by (simp add: sf_Unmarshal_def d)
qed

section \<open>Properties\<close>

text \<open>C18: the messages of the write-ahead log and of the snapshot files survive marshalling. The computed size is
  the number of bytes written, filling the buffer from its end never leaves it, and reading the bytes
  back into an empty message gives the message, for every field value and every length.\<close>

theorem wal_messages_round_trip:
  assumes "raftpb C"
    and "rec_unrecognized r = None" and "rec_Size r < maxInt"
    and "ws_unrecognized s = None" and "ws_Size C s < maxInt"
    and "sf_unrecognized f = None" and "sf_Size f < maxInt"
  shows "(\<exists>b. rec_Marshal r = Ok b \<and> length b = rec_Size r \<and> rec_Unmarshal b emptyRecord = Ok r)
    \<and> (\<exists>b. ws_Marshal C s = Ok b \<and> length b = ws_Size C s \<and> ws_Unmarshal C b emptyWalSnapshot = Ok s)
    \<and> (\<exists>b. sf_Marshal f = Ok b \<and> length b = sf_Size f \<and> sf_Unmarshal b emptySnapFile = Ok f)"
  using rec_Unmarshal_bytes [OF assms(2,3)] ws_Unmarshal_bytes [OF assms(4,5,1)] sf_Unmarshal_bytes [OF assms(6,7)]
  by (simp add: rec_Marshal_bytes ws_Marshal_bytes sf_Marshal_bytes length_rec_bytes length_ws_bytes length_sf_bytes)

theorem wal_messages_round_trip_witness:
  "(\<exists>b. rec_Marshal demo_record = Ok b \<and> length b = rec_Size demo_record \<and> rec_Unmarshal b emptyRecord = Ok demo_record)
    \<and> (\<exists>b. ws_Marshal word_codec demo_marker = Ok b \<and> length b = ws_Size word_codec demo_marker
        \<and> ws_Unmarshal word_codec b emptyWalSnapshot = Ok demo_marker)
    \<and> (\<exists>b. sf_Marshal demo_file = Ok b \<and> length b = sf_Size demo_file \<and> sf_Unmarshal b emptySnapFile = Ok demo_file)"
proof (rule wal_messages_round_trip [OF wc.raftpb_axioms])
  show "rec_Size demo_record < maxInt" "ws_Size word_codec demo_marker < maxInt" "sf_Size demo_file < maxInt"
    using sov_le [of 2] sov_le [of 3735928559] sov_le [of 3] sov_le [of 300] sov_le [of 4] sov_le [of 64] sov_le [of 77]
    by (simp_all add: demo_record_def demo_marker_def demo_file_def rec_Size_def ws_Size_def sf_Size_def
        sized_field_def opt_len_def maxInt_def word_codec_def enc_words_def enc_list_def)
qed (simp_all add: demo_record_def demo_marker_def demo_file_def)

end
