(* ===== verification/Etcd_Codec.thy ===== *)
theory Etcd_Codec
  imports Walpb
begin

text \<open>
  The framing of the vendored write-ahead log: \<^verbatim>\<open>wal/encoder.go\<close>, \<^verbatim>\<open>wal/decoder.go\<close>, the page-aligned writer
  \<^verbatim>\<open>pkg/ioutil/pagewriter.go\<close> and the chained checksum \<^verbatim>\<open>pkg/crc/crc.go\<close>. The writer below the page
  writer is a parameter, Go's \<^verbatim>\<open>io.Writer\<close>; its contract is the locale \<open>io_writer\<close>.
\<close>

unbundle bit_operations_syntax

section \<open>Checksums\<close>

text \<open>\<^verbatim>\<open>crc32.Update\<close> with the Castagnoli table, bit by bit.\<close>

definition crc_step :: "u32 \<Rightarrow> u32" where
  "crc_step c = (if bit c 0 then drop_bit 1 c XOR 0x82F63B78 else drop_bit 1 c)"

definition crc_byte :: "u32 \<Rightarrow> byte \<Rightarrow> u32" where
  "crc_byte c b = (crc_step ^^ 8) (c XOR ucast b)"

definition crc32_Update :: "u32 \<Rightarrow> bytes \<Rightarrow> u32" where
  "crc32_Update crc p = NOT (foldl crc_byte (NOT crc) p)"

text \<open>\<^verbatim>\<open>digest.Write\<close>; writing a nil slice changes nothing.\<close>

definition crc_Write :: "u32 \<Rightarrow> bytes option \<Rightarrow> u32" where
  "crc_Write crc p = (case p of None \<Rightarrow> crc32_Update crc [] | Some b \<Rightarrow> crc32_Update crc b)"

section \<open>Frames\<close>

definition encodeFrameSize :: "nat \<Rightarrow> u64 \<times> nat" where
  "encodeFrameSize dataBytes =
     (let padBytes = (8 - dataBytes mod 8) mod 8; lenField = of_nat dataBytes in
      (if padBytes \<noteq> 0 then lenField OR push_bit 56 (0x80 OR of_nat padBytes) else lenField, padBytes))"

definition prepareDataWithPadding :: "bytes \<Rightarrow> bytes \<times> u64" where
  "prepareDataWithPadding data =
     (case encodeFrameSize (length data) of
        (lenField, padBytes) \<Rightarrow> (if padBytes \<noteq> 0 then data @ replicate padBytes 0 else data, lenField))"

text \<open>\<^verbatim>\<open>binary.LittleEndian.PutUint64\<close>\<close>

definition PutUint64 :: "u64 \<Rightarrow> bytes" where
  "PutUint64 v = rev (Uint64ToBytes v)"

section \<open>The page writer\<close>

text \<open>A call of \<^verbatim>\<open>io.Writer.Write\<close> on the writer's state: the number of bytes written or an error.\<close>

type_synonym 'f writer = "bytes \<Rightarrow> ('f, nat) call"

record 'f PageWriter =
  pw_w :: 'f
  pw_pageOffset :: nat
  pw_pageBytes :: nat
  pw_buf :: bytes
  pw_watermark :: nat

definition defaultBufferBytes :: nat where
  "defaultBufferBytes = 128 * 1024"

definition NewPageWriter :: "'f \<Rightarrow> nat \<Rightarrow> nat \<Rightarrow> 'f PageWriter" where
  "NewPageWriter w pageBytes pageOffset =
     \<lparr>pw_w = w, pw_pageOffset = pageOffset, pw_pageBytes = pageBytes, pw_buf = [], pw_watermark = defaultBufferBytes\<rparr>"

definition pw_flush :: "'f writer \<Rightarrow> ('f PageWriter, nat) call" where
  "pw_flush wr pw =
     (if pw_buf pw = [] then (Ok 0, pw)
      else case wr (pw_buf pw) (pw_w pw) of (r, w') \<Rightarrow>
        (r, pw\<lparr>pw_w := w', pw_pageOffset := (pw_pageOffset pw + length (pw_buf pw)) mod pw_pageBytes pw, pw_buf := []\<rparr>))"

definition pw_Flush :: "'f writer \<Rightarrow> ('f PageWriter, unit) call" where
  "pw_Flush wr = bindS (pw_flush wr) (\<lambda>_. retS ())"

text \<open>Completing the slack page, then writing whole pages past the buffer: the parts of \<^verbatim>\<open>Write\<close> before its
  tail call, which it makes with the rest of the data.\<close>

definition pw_slack :: "'f PageWriter \<Rightarrow> nat" where
  "pw_slack pw = pw_pageBytes pw - (pw_pageOffset pw + length (pw_buf pw)) mod pw_pageBytes pw"

definition pw_pages :: "'f writer \<Rightarrow> bytes \<Rightarrow> ('f PageWriter, bytes) call" where
  "pw_pages wr p pw =
     (if pw_pageBytes pw < length p then
        (let k = length p div pw_pageBytes pw * pw_pageBytes pw in
         case wr (take k p) (pw_w pw) of
           (Ok _, w') \<Rightarrow> (Ok (drop k p), pw\<lparr>pw_w := w'\<rparr>)
         | (Err e, w') \<Rightarrow> (Err e, pw\<lparr>pw_w := w'\<rparr>)
         | (Panicked m, w') \<Rightarrow> (Panicked m, pw\<lparr>pw_w := w'\<rparr>))
      else (Ok p, pw))"

text \<open>\<^verbatim>\<open>Write\<close> calls itself on the tail. The calls do not end if the tail never fits the buffer; an endless
  recursion is \<^const>\<open>None\<close>.\<close>

partial_function (option) pw_Write_rec :: "'f writer \<Rightarrow> bytes \<Rightarrow> 'f PageWriter \<Rightarrow> (nat res \<times> 'f PageWriter) option" where
  "pw_Write_rec wr p pw =
     (if length p + length (pw_buf pw) \<le> pw_watermark pw
      then Some (Ok (length p), pw\<lparr>pw_buf := pw_buf pw @ p\<rparr>)
      else if pw_slack pw \<noteq> pw_pageBytes pw \<and> length p < pw_slack pw
      then Some (Ok (length p), pw\<lparr>pw_buf := pw_buf pw @ p\<rparr>)
      else
        (let n = (if pw_slack pw \<noteq> pw_pageBytes pw then pw_slack pw else 0) in
         case bindS (pw_flush wr) (\<lambda>_. pw_pages wr (drop n p)) (pw\<lparr>pw_buf := pw_buf pw @ take n p\<rparr>) of
           (Err e, pw') \<Rightarrow> Some (Err e, pw')
         | (Panicked m, pw') \<Rightarrow> Some (Panicked m, pw')
         | (Ok tail, pw') \<Rightarrow>
             Option.bind (pw_Write_rec wr tail pw') (\<lambda>(r, pw''). Some (bindR r (\<lambda>c. Ok (length p - length tail + c)), pw''))))"

text \<open>Go aborts a program whose recursion does not end.\<close>

definition pw_Write :: "'f writer \<Rightarrow> bytes \<Rightarrow> ('f PageWriter, nat) call" where
  "pw_Write wr p pw = (case pw_Write_rec wr p pw of Some r \<Rightarrow> r | None \<Rightarrow> (Panicked ''stack overflow'', pw))"

section \<open>The encoder\<close>

definition walPageBytes :: nat where
  "walPageBytes = 8 * 512"

record 'f encoder =
  enc_bw :: "'f PageWriter"
  enc_crc :: u32

definition newEncoder :: "'f \<Rightarrow> u32 \<Rightarrow> nat \<Rightarrow> 'f encoder" where
  "newEncoder w prevCrc pageOffset = \<lparr>enc_bw = NewPageWriter w walPageBytes pageOffset, enc_crc = prevCrc\<rparr>"

definition frame_write :: "'f writer \<Rightarrow> bytes \<Rightarrow> u64 \<Rightarrow> ('f PageWriter, unit) call" where
  "frame_write wr data lenField =
     bindS (pw_Write wr (PutUint64 lenField)) (\<lambda>_. bindS (pw_Write wr data) (\<lambda>_. retS ()))"

text \<open>\<^verbatim>\<open>Marshal\<close> and \<^verbatim>\<open>MarshalTo\<close> on the large enough buffer write the same bytes.\<close>

definition encode :: "'f writer \<Rightarrow> Record \<Rightarrow> ('f encoder, unit) call" where
  "encode wr rc e =
     (let crc = crc_Write (enc_crc e) (rec_Data rc) in
      case rec_Marshal (rc\<lparr>rec_Crc := crc\<rparr>) of
        Err x \<Rightarrow> (Err x, e\<lparr>enc_crc := crc\<rparr>)
      | Panicked m \<Rightarrow> (Panicked m, e\<lparr>enc_crc := crc\<rparr>)
      | Ok data \<Rightarrow>
          (case prepareDataWithPadding data of (data', lenField) \<Rightarrow>
             (case frame_write wr data' lenField (enc_bw e) of
                (r, bw) \<Rightarrow> (r, e\<lparr>enc_crc := crc, enc_bw := bw\<rparr>))))"

definition enc_flush :: "'f writer \<Rightarrow> ('f encoder, unit) call" where
  "enc_flush wr e = (case pw_Flush wr (enc_bw e) of (r, bw) \<Rightarrow> (r, e\<lparr>enc_bw := bw\<rparr>))"

section \<open>The decoder\<close>

definition minSectorSize :: nat where
  "minSectorSize = 512"

definition frameSizeBytes :: nat where
  "frameSizeBytes = 8"

definition CrcType :: u64 where
  "CrcType = 4"

text \<open>A file reader is the bytes not yet read and the size of the file.\<close>

record decoder =
  dec_brs :: "(bytes \<times> nat) list"
  dec_lastValidOff :: nat
  dec_crc :: u32
  dec_continueOnCrcError :: bool

definition NewDecoder :: "bytes list \<Rightarrow> decoder" where
  "NewDecoder rs = \<lparr>dec_brs = map (\<lambda>b. (b, length b)) rs, dec_lastValidOff = 0, dec_crc = 0, dec_continueOnCrcError = False\<rparr>"

definition readInt64 :: "bytes \<Rightarrow> u64 res \<times> bytes" where
  "readInt64 b =
     (if b = [] then (Err ErrEOF, [])
      else if length b < 8 then (Err ErrUnexpectedEOF, [])
      else (BytesToUint64 (rev (take 8 b)), drop 8 b))"

definition decodeFrameSize :: "u64 \<Rightarrow> nat \<times> nat" where
  "decodeFrameSize lenField =
     (unat (lenField AND NOT (push_bit 56 0xff)),
      if sint lenField < 0 then unat (drop_bit 56 lenField AND 7) else 0)"

text \<open>The data of a frame, cut at the sector boundaries of the file.\<close>

function sectors :: "nat \<Rightarrow> bytes \<Rightarrow> bytes list" where
  "sectors fileOff data =
     (if data = [] then []
      else let chunkLen = minSectorSize - fileOff mod minSectorSize in
        take chunkLen data # sectors (fileOff + min chunkLen (length data)) (drop chunkLen data))"
  by pat_completeness auto
termination
proof (relation "measure (\<lambda>(_, d). length d)", simp)
  fix fo :: nat and d :: bytes and c
  assume d: "d \<noteq> []" and c: "c = minSectorSize - fo mod minSectorSize"
  have "fo mod minSectorSize < minSectorSize" by (simp add: minSectorSize_def)
  then show "((fo + min c (length d), drop c d), (fo, d)) \<in> measure (\<lambda>(_, d). length d)"
    using length_greater_0_conv [THEN iffD2, OF d] c by (simp, linarith)
qed

declare sectors.simps [simp del]

definition isTornEntry :: "bytes \<Rightarrow> decoder \<Rightarrow> bool" where
  "isTornEntry data d \<longleftrightarrow>
     length (dec_brs d) = 1 \<and>
     (\<exists>sect \<in> set (sectors (dec_lastValidOff d + frameSizeBytes) data). \<forall>v \<in> set sect. v = 0)"

text \<open>A frame whose length field was read from the first reader. The result is the error, the record and the
  decoder: with \<^verbatim>\<open>continueOnCrcError\<close> a record is kept beside an error.\<close>

definition decodeFrame :: "u64 \<Rightarrow> bytes \<Rightarrow> nat \<Rightarrow> decoder \<Rightarrow> unit res \<times> Record \<times> decoder" where
  "decodeFrame l rest fsize d =
     (case decodeFrameSize l of (recBytes, padBytes) \<Rightarrow>
        if int fsize - int (dec_lastValidOff d) - int padBytes < int recBytes then
          (Err ErrUnexpectedEOF, emptyRecord, d\<lparr>dec_brs := (rest, fsize) # tl (dec_brs d)\<rparr>)
        else if length rest < recBytes + padBytes then
          (Err ErrUnexpectedEOF, emptyRecord, d\<lparr>dec_brs := ([], fsize) # tl (dec_brs d)\<rparr>)
        else
          (let data = take (recBytes + padBytes) rest;
               d1 = d\<lparr>dec_brs := (drop (recBytes + padBytes) rest, fsize) # tl (dec_brs d)\<rparr>;
               off = dec_lastValidOff d + frameSizeBytes + recBytes + padBytes in
           case rec_Unmarshal (take recBytes data) emptyRecord of
             Err e \<Rightarrow> (if isTornEntry data d1 then Err ErrUnexpectedEOF else Err e, emptyRecord, d1)
           | Panicked m \<Rightarrow> (Panicked m, emptyRecord, d1)
           | Ok rc \<Rightarrow>
               if rec_Type rc \<noteq> CrcType then
                 (let crc = crc_Write (dec_crc d1) (rec_Data rc); d2 = d1\<lparr>dec_crc := crc\<rparr> in
                  case rec_Validate rc crc of
                    Ok _ \<Rightarrow> (Ok (), rc, d2\<lparr>dec_lastValidOff := off\<rparr>)
                  | _ \<Rightarrow>
                      (if isTornEntry data d2 then Err ErrUnexpectedEOF else Err ErrCRCMismatch,
                       if dec_continueOnCrcError d2 then rc else emptyRecord,
                       if dec_continueOnCrcError d2 then d2\<lparr>dec_lastValidOff := off\<rparr> else d2))
               else (Ok (), rc, d1\<lparr>dec_lastValidOff := off\<rparr>)))"

function decodeRecord :: "decoder \<Rightarrow> unit res \<times> Record \<times> decoder" where
  "decodeRecord d =
     (case dec_brs d of
        [] \<Rightarrow> (Err ErrEOF, emptyRecord, d)
      | (b, fsize) # brs \<Rightarrow>
          (case readInt64 b of
             (Err e, b') \<Rightarrow>
               if e = ErrEOF then
                 if brs = [] then (Err ErrEOF, emptyRecord, d\<lparr>dec_brs := []\<rparr>)
                 else decodeRecord (d\<lparr>dec_brs := brs, dec_lastValidOff := 0\<rparr>)
               else (Err e, emptyRecord, d\<lparr>dec_brs := (b', fsize) # brs\<rparr>)
           | (Panicked m, b') \<Rightarrow> (Panicked m, emptyRecord, d)
           | (Ok l, b') \<Rightarrow>
               if l = 0 then
                 if brs = [] then (Err ErrEOF, emptyRecord, d\<lparr>dec_brs := []\<rparr>)
                 else decodeRecord (d\<lparr>dec_brs := brs, dec_lastValidOff := 0\<rparr>)
               else decodeFrame l b' fsize d))"
  by pat_completeness auto
termination
  by (relation "measure (\<lambda>d. length (dec_brs d))") auto

declare decodeRecord.simps [simp del]

definition UpdateCRC :: "u32 \<Rightarrow> decoder \<Rightarrow> decoder" where
  "UpdateCRC prevCrc d = d\<lparr>dec_crc := prevCrc\<rparr>"

definition LastCRC :: "decoder \<Rightarrow> u32" where
  "LastCRC d = dec_crc d"

definition LastOffset :: "decoder \<Rightarrow> nat" where
  "LastOffset d = dec_lastValidOff d"

section \<open>The stream of records\<close>

text \<open>The bytes of one record with its checksum, the record as the encoder stamps it, and the bytes of a list
  of records that starts with the given checksum.\<close>

definition frame :: "Record \<Rightarrow> bytes" where
  "frame rc = (case prepareDataWithPadding (rec_bytes rc) of (data, lenField) \<Rightarrow> PutUint64 lenField @ data)"

definition stamp :: "u32 \<Rightarrow> Record \<Rightarrow> Record" where
  "stamp crc rc = rc\<lparr>rec_Crc := crc_Write crc (rec_Data rc)\<rparr>"

fun stamps :: "u32 \<Rightarrow> Record list \<Rightarrow> Record list" where
  "stamps crc [] = []"
| "stamps crc (rc # rcs) = stamp crc rc # stamps (rec_Crc (stamp crc rc)) rcs"

definition last_crc :: "u32 \<Rightarrow> Record list \<Rightarrow> u32" where
  "last_crc crc rcs = foldl (\<lambda>c rc. crc_Write c (rec_Data rc)) crc rcs"

text \<open>Encoding a list of records, stopping at the first error, and decoding until the first error.\<close>

fun encode_all :: "'f writer \<Rightarrow> Record list \<Rightarrow> ('f encoder, unit) call" where
  "encode_all wr [] = retS ()"
| "encode_all wr (rc # rcs) = bindS (encode wr rc) (\<lambda>_. encode_all wr rcs)"

definition append_writer :: "bytes writer" where
  "append_writer p f = (Ok (length p), f @ p)"

text \<open>Records the log writes: no unknown fields, a size that the length field can hold, and no data in a
  checksum record.\<close>

definition rec_wf :: "Record \<Rightarrow> bool" where
  "rec_wf rc \<longleftrightarrow> rec_unrecognized rc = None \<and> length (case rec_Data rc of None \<Rightarrow> [] | Some d \<Rightarrow> d) < 2 ^ 55
     \<and> (rec_Type rc = CrcType \<longrightarrow> rec_Data rc = None)"

definition never_fails :: "'f writer \<Rightarrow> bool" where
  "never_fails wr \<longleftrightarrow> (\<forall>p f. \<exists>f'. wr p f = (Ok (length p), f'))"

text \<open>Every record read shortens what is left to read.\<close>

definition dec_left :: "decoder \<Rightarrow> nat" where
  "dec_left d = sum_list (map (length \<circ> fst) (dec_brs d))"

text \<open>The bytes a page writer was given, written or buffered; a page size that fits the buffer and a buffer
  whose current page ends within its capacity.\<close>

definition pw_stream :: "('f \<Rightarrow> bytes) \<Rightarrow> 'f PageWriter \<Rightarrow> bytes" where
  "pw_stream content pw = content (pw_w pw) @ pw_buf pw"

definition pw_ok :: "'f PageWriter \<Rightarrow> bool" where
  "pw_ok pw \<longleftrightarrow> 0 < pw_pageBytes pw \<and> pw_pageBytes pw \<le> pw_watermark pw 
     \<and> length (pw_buf pw) + pw_slack pw \<le> pw_watermark pw + pw_pageBytes pw"

locale io_writer =
  fixes wr :: "'f writer"
    and content :: "'f \<Rightarrow> bytes"
  assumes write_ok: "wr p f = (Ok n, f') \<Longrightarrow> n = length p \<and> content f' = content f @ p"
    and write_fail: "wr p f = (r, f') \<Longrightarrow> \<exists>k. content f' = content f @ take k p"

interpretation aw: io_writer append_writer "\<lambda>f. f"
proof
  fix p f r f' assume "append_writer p f = (r, f')"
  then show "\<exists>k. f' = f @ take k p" by (intro exI [of _ "length p"]) (simp add: append_writer_def)
qed (simp add: append_writer_def)

section \<open>Lemmas on frames\<close>

lemma nat_bits: "n < 2 ^ k \<Longrightarrow> bit (n :: nat) i \<Longrightarrow> i < k"
  by (metis bit_take_bit_iff take_bit_nat_eq_self)

lemma drop_frame_bits:
  fixes q :: u64
  assumes "n < 2 ^ 56" and "\<And>i. bit q i \<Longrightarrow> i < 8"
  shows "(of_nat n OR push_bit 56 q) AND NOT (push_bit 56 0xff) = of_nat n"
    and "drop_bit 56 (of_nat n OR push_bit 56 q) = q"
    and "bit (of_nat n OR push_bit 56 q) 63 \<longleftrightarrow> bit q 7"
proof -
  have ff: "(0xff :: u64) = mask 8" by (simp add: mask_eq_exp_minus_1)
  show "(of_nat n OR push_bit 56 q) AND NOT (push_bit 56 0xff) = of_nat n"
    unfolding ff by (rule bit_word_eqI) (auto simp: bit_simps dest: nat_bits [OF assms(1)] assms(2))
  show "drop_bit 56 (of_nat n OR push_bit 56 q) = q"
    by (rule bit_word_eqI) (auto simp: bit_simps dest: nat_bits [OF assms(1)] assms(2))
  show "bit (of_nat n OR push_bit 56 q) 63 \<longleftrightarrow> bit q 7"
    using nat_bits [OF assms(1), of 63] by (auto simp: bit_simps)
qed

lemma encodeFrameSize_pad: "snd (encodeFrameSize n) < 8"
  by (simp add: encodeFrameSize_def Let_def)

lemma mask3: "(7 :: u64) = mask 3"
  by (simp add: mask_eq_exp_minus_1)

lemma decode_encodeFrameSize:
  assumes "n < 2 ^ 56"
  shows "decodeFrameSize (fst (encodeFrameSize n)) = (n, snd (encodeFrameSize n))"
proof -
  obtain l pad where e: "encodeFrameSize n = (l, pad)" by (cases "encodeFrameSize n")
  have p8: "pad < 2 ^ 3" using encodeFrameSize_pad [of n] by (simp add: e)
  have l: "l = of_nat n OR (if pad = 0 then 0 else push_bit 56 (0x80 OR of_nat pad))"
    using e by (auto simp: encodeFrameSize_def Let_def split: if_splits)
  let ?q = "if pad = 0 then 0 else 0x80 OR of_nat pad :: u64"
  have q8: "bit ?q i \<Longrightarrow> i < 8" for i
    using nat_bits [OF p8, of i] by (auto simp: bit_simps bit_128 split: if_splits)
  have l: "l = of_nat n OR push_bit 56 ?q" unfolding l by simp
  have d1: "l AND NOT (push_bit 56 0xff) = of_nat n" unfolding l by (rule drop_frame_bits(1) [OF assms q8])
  have d2: "sint l < 0 \<longleftrightarrow> pad \<noteq> 0"
  proof -
    have "sint l < 0 \<longleftrightarrow> bit l 63" by (simp add: sint_uint signed_take_bit_negative_iff bit_unsigned_iff)
    also have "\<dots> \<longleftrightarrow> bit ?q 7" unfolding l by (rule drop_frame_bits(3) [OF assms q8])
    also have "\<dots> \<longleftrightarrow> pad \<noteq> 0" by (simp add: bit_simps)
    finally show ?thesis .
  qed
  have d3: "drop_bit 56 l = ?q" unfolding l by (rule drop_frame_bits(2) [OF assms q8])
  have d4: "pad \<noteq> 0 \<Longrightarrow> ?q AND 7 = of_nat pad"
    unfolding mask3 by (rule bit_word_eqI) (auto simp: bit_simps bit_128 dest: nat_bits [OF p8])
  have "unat (of_nat n :: u64) = n" "unat (of_nat pad :: u64) = pad"
    using assms p8 by (simp_all add: unsigned_of_nat take_bit_nat_eq_self)
  with d4 show ?thesis unfolding e fst_conv snd_conv decodeFrameSize_def d1 d2 d3 by simp
qed

lemma readInt64_Put [simp]: "readInt64 (PutUint64 l @ r) = (Ok l, r)"
proof -
  have "length (PutUint64 l) = 8" by (simp add: PutUint64_def)
  moreover from this have "PutUint64 l \<noteq> []" by auto
  ultimately show ?thesis by (simp add: readInt64_def) (simp add: PutUint64_def)
qed

lemma readInt64_zeros: "8 \<le> k \<Longrightarrow> readInt64 (replicate k 0) = (Ok 0, replicate (k - 8) 0)"
proof -
  assume k: "8 \<le> k"
  have "replicate k 0 = PutUint64 0 @ replicate (k - 8) 0"
    using replicate_add [of 8 "k - 8" "0 :: byte"] k
    by (simp add: PutUint64_def Uint64ToBytes_def) (simp add: numeral_eq_Suc)
  then show ?thesis by (metis readInt64_Put)
qed

lemma frame_eq:
  "frame rc = PutUint64 (fst (encodeFrameSize (rec_Size rc))) @ rec_bytes rc
     @ replicate (snd (encodeFrameSize (rec_Size rc))) 0"
  by (auto simp: frame_def prepareDataWithPadding_def length_rec_bytes split: prod.split)

lemma length_frame: "length (frame rc) = frameSizeBytes + rec_Size rc + snd (encodeFrameSize (rec_Size rc))"
  by (simp add: frame_eq length_rec_bytes PutUint64_def frameSizeBytes_def)

lemma rec_Size_pos: "0 < rec_Size rc"
  by (simp add: rec_Size_def)

lemma encodeFrameSize_nonzero: "0 < n \<Longrightarrow> n < 2 ^ 56 \<Longrightarrow> fst (encodeFrameSize n) \<noteq> 0"
  using decode_encodeFrameSize [of n] by (auto simp: decodeFrameSize_def)

lemma crc_Write_None [simp]: "crc_Write crc None = crc"
  by (simp add: crc_Write_def crc32_Update_def)

lemma decode_frame:
  assumes "dec_brs d = (frame rc @ rest, fsize) # brs" and "rec_unrecognized rc = None" and "rec_Size rc < 2 ^ 56"
    and "dec_lastValidOff d + length (frame rc) \<le> fsize"
    and "rec_Type rc \<noteq> CrcType \<Longrightarrow> rec_Crc rc = crc_Write (dec_crc d) (rec_Data rc)"
  shows "decodeRecord d = (Ok (), rc, d\<lparr>dec_brs := (rest, fsize) # brs, dec_lastValidOff := dec_lastValidOff d + length (frame rc),
      dec_crc := (if rec_Type rc = CrcType then dec_crc d else rec_Crc rc)\<rparr>)"
proof -
  let ?l = "fst (encodeFrameSize (rec_Size rc))" and ?pad = "snd (encodeFrameSize (rec_Size rc))"
  let ?b = "rec_bytes rc @ replicate ?pad 0 @ rest"
  have "rec_Size rc < maxInt" using assms(3) by (simp add: maxInt_def)
  from rec_Unmarshal_bytes [OF assms(2) this] have u: "rec_Unmarshal (rec_bytes rc) emptyRecord = Ok rc" .
  have "decodeRecord d = decodeFrame ?l ?b fsize d"
    using encodeFrameSize_nonzero [OF rec_Size_pos assms(3)]
    by (subst decodeRecord.simps) (simp add: assms(1) frame_eq)
  also have "\<dots> = (Ok (), rc, d\<lparr>dec_brs := (rest, fsize) # brs, dec_lastValidOff := dec_lastValidOff d + length (frame rc),
      dec_crc := (if rec_Type rc = CrcType then dec_crc d else rec_Crc rc)\<rparr>)"
    using assms(4,5) decode_encodeFrameSize [OF assms(3)]
    by (auto simp: decodeFrame_def Let_def u length_rec_bytes length_frame assms(1) rec_Validate_def add.assoc)
  finally show ?thesis .
qed

lemma decode_zeros:
  assumes "dec_brs d = (replicate k 0, fsize) # brs" and "k = 0 \<or> 8 \<le> k"
  shows "decodeRecord d = (if brs = [] then (Err ErrEOF, emptyRecord, d\<lparr>dec_brs := []\<rparr>)
    else decodeRecord (d\<lparr>dec_brs := brs, dec_lastValidOff := 0\<rparr>))"
  using assms(2)
proof
  assume "k = 0"
  then show ?thesis by (subst decodeRecord.simps) (simp add: assms(1) readInt64_def)
next
  assume "8 \<le> k"
  then show ?thesis by (subst decodeRecord.simps) (simp add: assms(1) readInt64_zeros)
qed

lemma readInt64_Ok: "readInt64 b = (Ok l, b') \<Longrightarrow> length b' < length b"
  by (auto simp: readInt64_def split: if_splits)

lemma decodeFrame_left:
  "decodeFrame l rest fsize d = (r, rc, d') \<Longrightarrow> dec_left d' \<le> length rest + sum_list (map (length \<circ> fst) (tl (dec_brs d)))"
  by (auto simp: decodeFrame_def dec_left_def Let_def split: prod.splits if_splits res.splits)

lemma decodeRecord_left: "decodeRecord d = (Ok u, rc, d') \<Longrightarrow> dec_left d' < dec_left d"
proof (induction "length (dec_brs d)" arbitrary: d rule: less_induct)
  case less
  obtain b fsize brs where d: "dec_brs d = (b, fsize) # brs"
    using less.prems by (cases "dec_brs d") (auto simp: decodeRecord.simps [of d])
  obtain r b' where r: "readInt64 b = (r, b')" by (cases "readInt64 b")
  from less.prems consider (skip) "decodeRecord (d\<lparr>dec_brs := brs, dec_lastValidOff := 0\<rparr>) = (Ok u, rc, d')"
    | (frame) l where "r = Ok l" "decodeFrame l b' fsize d = (Ok u, rc, d')"
    by (subst (asm) decodeRecord.simps) (auto simp: d r split: res.splits if_splits)
  then show ?case
  proof cases
    case skip
    from less.hyps [OF _ this] show ?thesis by (simp add: d dec_left_def)
  next
    case frame
    then show ?thesis using decodeFrame_left [OF frame(2)] readInt64_Ok [of b l b'] r by (simp add: d dec_left_def)
  qed
qed

section \<open>Lemmas on the page writer\<close>

text \<open>When the page fits the buffer, the tail call of \<^verbatim>\<open>Write\<close> only buffers the tail.\<close>

lemma pw_pages_tail:
  assumes "pw_pages wr p pw = (Ok tail, pw')" and "0 < pw_pageBytes pw"
  shows "length tail \<le> pw_pageBytes pw" and "pw_buf pw' = pw_buf pw" and "pw_pageBytes pw' = pw_pageBytes pw"
    and "pw_watermark pw' = pw_watermark pw" and "pw_pageOffset pw' = pw_pageOffset pw"
  using assms
  by (auto simp: pw_pages_def Let_def minus_div_mult_eq_mod less_imp_le split: if_splits prod.splits res.splits)

lemma pw_flush_fields:
  assumes "pw_flush wr pw = (Ok n, pw')"
  shows "pw_buf pw' = []" and "pw_pageBytes pw' = pw_pageBytes pw" and "pw_watermark pw' = pw_watermark pw"
    and "pw_pageOffset pw' = (if pw_buf pw = [] then pw_pageOffset pw
      else (pw_pageOffset pw + length (pw_buf pw)) mod pw_pageBytes pw)"
  using assms by (auto simp: pw_flush_def split: if_splits prod.splits)

lemma pw_Write_unfold:
  assumes "pw_ok pw"
  shows "pw_Write wr p pw =
     (if length p + length (pw_buf pw) \<le> pw_watermark pw \<or> pw_slack pw \<noteq> pw_pageBytes pw \<and> length p < pw_slack pw
      then (Ok (length p), pw\<lparr>pw_buf := pw_buf pw @ p\<rparr>)
      else let n = (if pw_slack pw \<noteq> pw_pageBytes pw then pw_slack pw else 0) in
        case bindS (pw_flush wr) (\<lambda>_. pw_pages wr (drop n p)) (pw\<lparr>pw_buf := pw_buf pw @ take n p\<rparr>) of
          (Err e, pw') \<Rightarrow> (Err e, pw')
        | (Panicked m, pw') \<Rightarrow> (Panicked m, pw')
        | (Ok tail, pw') \<Rightarrow> (Ok (length p - length tail + length tail), pw'\<lparr>pw_buf := tail\<rparr>))"
proof -
  let ?n = "if pw_slack pw \<noteq> pw_pageBytes pw then pw_slack pw else 0"
  let ?m = "bindS (pw_flush wr) (\<lambda>_. pw_pages wr (drop ?n p)) (pw\<lparr>pw_buf := pw_buf pw @ take ?n p\<rparr>)"
  have rest: "pw_Write_rec wr tail pw' = Some (Ok (length tail), pw'\<lparr>pw_buf := tail\<rparr>)" if m: "?m = (Ok tail, pw')" for tail pw'
  proof -
    from m obtain k pw1 where f: "pw_flush wr (pw\<lparr>pw_buf := pw_buf pw @ take ?n p\<rparr>) = (Ok k, pw1)"
      and g: "pw_pages wr (drop ?n p) pw1 = (Ok tail, pw')"
      by (elim bindS_OkE)
    have pos: "0 < pw_pageBytes pw1" using pw_flush_fields(2) [OF f] assms by (simp add: pw_ok_def)
    show ?thesis
      using pw_flush_fields [OF f] pw_pages_tail [OF g pos] assms
      by (subst pw_Write_rec.simps) (auto simp: pw_ok_def)
  qed
  show ?thesis
    unfolding pw_Write_def
    by (subst pw_Write_rec.simps) (auto simp: Let_def rest split: prod.splits res.splits)
qed

lemma slack_aligns: "0 < pb \<Longrightarrow> (x + (if pb - x mod pb \<noteq> pb then pb - x mod pb else 0)) mod pb = (0 :: nat)"
  by (cases "x mod pb = 0") (auto simp: mod_add_left_eq [of x pb, symmetric] less_imp_le)

lemma slack_step:
  assumes "0 < pb" and "k < pb - x mod pb"
  shows "pb - (x + k) mod pb = (pb - x mod pb) - (k :: nat)"
proof -
  have "(x + k) mod pb = x mod pb + k" using assms mod_add_left_eq [of x pb k] by simp
  then show ?thesis by simp
qed

context io_writer
begin

lemma flush_content:
  "pw_flush wr pw = (Ok n, pw') \<Longrightarrow> content (pw_w pw') = content (pw_w pw) @ pw_buf pw"
  by (auto simp: pw_flush_def dest: write_ok split: if_splits prod.splits)

lemma pages_content:
  assumes "pw_pages wr p pw = (Ok tail, pw')"
  shows "\<exists>q. p = q @ tail \<and> content (pw_w pw') = content (pw_w pw) @ q \<and> pw_pageBytes pw dvd length q"
proof (cases "pw_pageBytes pw < length p")
  case True
  let ?k = "length p div pw_pageBytes pw * pw_pageBytes pw"
  have "?k \<le> length p" by simp
  then have l: "length (take ?k p) = ?k" by simp
  from assms True have "tail = drop ?k p" "content (pw_w pw') = content (pw_w pw) @ take ?k p"
    by (auto simp: pw_pages_def Let_def dest: write_ok split: prod.splits res.splits)
  then show ?thesis using l by (intro exI [of _ "take ?k p"]) simp
qed (use assms in \<open>auto simp: pw_pages_def\<close>)

lemma Write_stream:
  assumes "pw_ok pw" and "pw_Write wr p pw = (Ok n, pw')"
  shows "n = length p \<and> pw_stream content pw' = pw_stream content pw @ p \<and> pw_ok pw'
    \<and> (\<exists>q. content (pw_w pw') = content (pw_w pw) @ q \<and> (q = [] \<or> (pw_pageOffset pw + length q) mod pw_pageBytes pw = 0))"
proof (cases "length p + length (pw_buf pw) \<le> pw_watermark pw \<or> pw_slack pw \<noteq> pw_pageBytes pw \<and> length p < pw_slack pw")
  case True
  let ?pw = "pw\<lparr>pw_buf := pw_buf pw @ p\<rparr>"
  have "length (pw_buf ?pw) + pw_slack ?pw \<le> pw_watermark pw + pw_pageBytes pw"
  proof (cases "length p + length (pw_buf pw) \<le> pw_watermark pw")
    case le: True
    have "pw_slack ?pw \<le> pw_pageBytes pw" by (simp add: pw_slack_def)
    with le show ?thesis by simp
  next
    case False
    with True have "pw_slack ?pw = pw_slack pw - length p"
      using slack_step [of "pw_pageBytes pw" "length p" "pw_pageOffset pw + length (pw_buf pw)"] assms(1)
      by (simp add: pw_slack_def pw_ok_def add.assoc)
    with True False assms(1) show ?thesis by (simp add: pw_ok_def)
  qed
  then show ?thesis using True assms by (auto simp: pw_Write_unfold pw_stream_def pw_ok_def)
next
  case False
  let ?n = "if pw_slack pw \<noteq> pw_pageBytes pw then pw_slack pw else 0"
  let ?x = "pw_pageOffset pw + length (pw_buf pw)"
  obtain tail pw1 where m: "bindS (pw_flush wr) (\<lambda>_. pw_pages wr (drop ?n p)) (pw\<lparr>pw_buf := pw_buf pw @ take ?n p\<rparr>) = (Ok tail, pw1)"
    and r: "n = length p - length tail + length tail" "pw' = pw1\<lparr>pw_buf := tail\<rparr>"
    using assms(2) False by (auto simp: pw_Write_unfold [OF assms(1)] Let_def split: prod.splits res.splits)
  from m obtain k pw2 where f: "pw_flush wr (pw\<lparr>pw_buf := pw_buf pw @ take ?n p\<rparr>) = (Ok k, pw2)"
    and g: "pw_pages wr (drop ?n p) pw2 = (Ok tail, pw1)"
    by (elim bindS_OkE)
  have pos: "0 < pw_pageBytes pw2" using pw_flush_fields(2) [OF f] assms(1) by (simp add: pw_ok_def)
  note fields = pw_flush_fields [OF f] pw_pages_tail [OF g pos]
  obtain q where q: "drop ?n p = q @ tail" "content (pw_w pw1) = content (pw_w pw2) @ q" "pw_pageBytes pw dvd length q"
    using pages_content [OF g] fields by auto
  have n: "?n \<le> length p" using False by auto
  have c: "content (pw_w pw1) = content (pw_w pw) @ pw_buf pw @ take ?n p @ q"
    using flush_content [OF f] q(2) by simp
  have p: "p = take ?n p @ q @ tail" using q(1) by (metis append_take_drop_id)
  have "(?x + ?n) mod pw_pageBytes pw = 0"
    using assms(1) unfolding pw_slack_def pw_ok_def by (intro slack_aligns) simp
  then have "(?x + ?n + length q) mod pw_pageBytes pw = 0" using q(3) by (auto simp: dvd_eq_mod_eq_0 mod_add_eq)
  moreover have "length (take ?n p) = ?n" using n by simp
  ultimately have al: "(pw_pageOffset pw + length (pw_buf pw @ take ?n p @ q)) mod pw_pageBytes pw = 0"
    by (simp only: length_append add.assoc)
  have pb: "pw_pageBytes pw' = pw_pageBytes pw" "pw_watermark pw' = pw_watermark pw" "length (pw_buf pw') \<le> pw_pageBytes pw"
    using fields(2,3,5,7,8) r(2) by simp_all
  have "pw_slack pw' \<le> pw_pageBytes pw'" by (simp add: pw_slack_def)
  then have ok: "pw_ok pw'" using pb assms(1) by (simp add: pw_ok_def)
  have "length tail \<le> length p" using arg_cong [OF q(1), of length] by (simp only: length_append length_drop)
  then have "n = length p" using r(1) by simp
  moreover have "pw_stream content pw' = pw_stream content pw @ p"
    using c r(2) p by (simp add: pw_stream_def)
  ultimately show ?thesis using ok c al r(2) by auto
qed

lemma frame_write_stream:
  assumes "pw_ok pw" and "frame_write wr data l pw = (Ok u, pw')"
  shows "pw_stream content pw' = pw_stream content pw @ PutUint64 l @ data \<and> pw_ok pw'"
proof -
  from assms(2) obtain n1 pw1 n2 where "pw_Write wr (PutUint64 l) pw = (Ok n1, pw1)" "pw_Write wr data pw1 = (Ok n2, pw')"
    unfolding frame_write_def by (auto elim!: bindS_OkE simp: retS_def)
  with Write_stream [OF assms(1)] Write_stream [of pw1 data n2 pw'] show ?thesis by auto
qed

lemma encode_stream:
  assumes "pw_ok (enc_bw e)" and "encode wr rc e = (Ok u, e')"
  shows "pw_stream content (enc_bw e') = pw_stream content (enc_bw e) @ frame (stamp (enc_crc e) rc)
    \<and> pw_ok (enc_bw e') \<and> enc_crc e' = rec_Crc (stamp (enc_crc e) rc)"
  using assms frame_write_stream [OF assms(1)]
  by (auto simp: encode_def Let_def rec_Marshal_bytes frame_def stamp_def split: prod.splits)

lemma encode_all_stream:
  "pw_ok (enc_bw e) \<Longrightarrow> encode_all wr rcs e = (Ok u, e') \<Longrightarrow>
     pw_stream content (enc_bw e') = pw_stream content (enc_bw e) @ concat (map frame (stamps (enc_crc e) rcs))
     \<and> pw_ok (enc_bw e') \<and> enc_crc e' = last_crc (enc_crc e) rcs"
proof (induction rcs arbitrary: e)
  case (Cons rc rcs)
  from Cons.prems(2) obtain v e1 where e1: "encode wr rc e = (Ok v, e1)" "encode_all wr rcs e1 = (Ok u, e')"
    by (auto elim: bindS_OkE)
  from encode_stream [OF Cons.prems(1) e1(1)] Cons.IH [OF _ e1(2)] show ?case
    by (auto simp: last_crc_def stamp_def)
qed (simp add: call_simps last_crc_def)

lemma flush_stream:
  "enc_flush wr e = (Ok u, e') \<Longrightarrow> content (pw_w (enc_bw e')) = pw_stream content (enc_bw e) \<and> pw_buf (enc_bw e') = []"
  using flush_content [of "enc_bw e"] pw_flush_fields(1) [of wr "enc_bw e"]
  by (auto simp: enc_flush_def pw_Flush_def pw_stream_def retS_def bindS_def split: prod.splits res.splits)

end

lemma pw_flush_never_fails: "never_fails wr \<Longrightarrow> \<exists>n pw'. pw_flush wr pw = (Ok n, pw')"
  by (auto simp: pw_flush_def never_fails_def split: prod.split) (metis fst_conv)

lemma pw_pages_never_fails: "never_fails wr \<Longrightarrow> \<exists>t pw'. pw_pages wr p pw = (Ok t, pw')"
proof -
  assume "never_fails wr"
  then obtain f where "wr (take (length p div pw_pageBytes pw * pw_pageBytes pw) p) (pw_w pw)
      = (Ok (length (take (length p div pw_pageBytes pw * pw_pageBytes pw) p)), f)"
    unfolding never_fails_def by blast
  then show ?thesis by (simp add: pw_pages_def Let_def)
qed

lemma pw_Write_never_fails:
  assumes "never_fails wr" and "pw_ok pw"
  shows "\<exists>n pw'. pw_Write wr p pw = (Ok n, pw')"
proof -
  let ?n = "if pw_slack pw \<noteq> pw_pageBytes pw then pw_slack pw else 0"
  obtain k pw1 where "pw_flush wr (pw\<lparr>pw_buf := pw_buf pw @ take ?n p\<rparr>) = (Ok k, pw1)"
    using pw_flush_never_fails [OF assms(1)] by blast
  moreover obtain t pw2 where "pw_pages wr (drop ?n p) pw1 = (Ok t, pw2)"
    using pw_pages_never_fails [OF assms(1)] by blast
  ultimately show ?thesis by (simp add: pw_Write_unfold [OF assms(2)] bindS_def Let_def)
qed

lemma encode_never_fails:
  assumes "never_fails wr" and "io_writer wr content" and "pw_ok (enc_bw e)"
  shows "\<exists>e'. encode wr rc e = (Ok (), e')"
proof -
  have "\<exists>pw'. frame_write wr data l pw = (Ok (), pw')" if ok: "pw_ok pw" for data l pw
  proof -
    obtain n pw1 where 1: "pw_Write wr (PutUint64 l) pw = (Ok n, pw1)" using pw_Write_never_fails [OF assms(1) ok] by blast
    then have "pw_ok pw1" using io_writer.Write_stream [OF assms(2) ok] by blast
    from pw_Write_never_fails [OF assms(1) this, of data] 1 show ?thesis by (auto simp: frame_write_def bindS_def retS_def)
  qed
  from this [OF assms(3)] show ?thesis
    by (auto simp: encode_def Let_def rec_Marshal_bytes split: prod.splits) (metis prod.inject)
qed

lemma encode_all_never_fails:
  assumes "never_fails wr" and "io_writer wr content"
  shows "pw_ok (enc_bw e) \<Longrightarrow> \<exists>e'. encode_all wr rcs e = (Ok (), e')"
proof (induction rcs arbitrary: e)
  case (Cons rc rcs)
  obtain e1 where e1: "encode wr rc e = (Ok (), e1)" using encode_never_fails [OF assms Cons.prems] by blast
  then have "pw_ok (enc_bw e1)" using io_writer.encode_stream [OF assms(2) Cons.prems] by blast
  from Cons.IH [OF this] e1 show ?case by (auto simp: call_simps)
qed (simp add: call_simps)

lemma enc_flush_never_fails: "never_fails wr \<Longrightarrow> \<exists>e'. enc_flush wr e = (Ok (), e')"
  using pw_flush_never_fails [of wr "enc_bw e"]
  by (auto simp: enc_flush_def pw_Flush_def call_simps split: prod.splits)

section \<open>Lemmas on decoding a stream\<close>

function decode_all :: "decoder \<Rightarrow> Record list \<times> unit res \<times> decoder" where
  "decode_all d =
     (case decodeRecord d of
        (Ok _, rc, d') \<Rightarrow> (case decode_all d' of (rcs, r, d'') \<Rightarrow> (rc # rcs, r, d''))
      | (Err e, rc, d') \<Rightarrow> ([], Err e, d')
      | (Panicked m, rc, d') \<Rightarrow> ([], Panicked m, d'))"
  by pat_completeness auto
termination
  by (relation "measure dec_left") (auto dest!: decodeRecord_left [OF sym])

declare decode_all.simps [simp del]

lemma rec_wf_Size: "rec_wf rc \<Longrightarrow> rec_Size rc < 2 ^ 56"
  using sov_le [of "rec_Type rc"] sov_le [of "ucast (rec_Crc rc)"] sov_le [of "of_nat (length (case rec_Data rc of None \<Rightarrow> [] | Some d \<Rightarrow> d))"]
  by (auto simp: rec_wf_def rec_Size_def sized_field_def opt_len_def split: option.splits)

lemma rec_wf_stamp [simp]: "rec_wf (stamp crc rc) = rec_wf rc" "rec_Type (stamp crc rc) = rec_Type rc"
  "rec_Data (stamp crc rc) = rec_Data rc"
  by (simp_all add: rec_wf_def stamp_def)

lemma decode_stamp:
  assumes "dec_brs d = (frame (stamp (dec_crc d) rc) @ rest, fsize) # brs" and "rec_wf rc"
    and "dec_lastValidOff d + length (frame (stamp (dec_crc d) rc)) \<le> fsize"
  shows "decodeRecord d = (Ok (), stamp (dec_crc d) rc, d\<lparr>dec_brs := (rest, fsize) # brs,
      dec_lastValidOff := dec_lastValidOff d + length (frame (stamp (dec_crc d) rc)),
      dec_crc := rec_Crc (stamp (dec_crc d) rc)\<rparr>)"
proof -
  have wf: "rec_wf (stamp (dec_crc d) rc)" using assms(2) by simp
  then have "rec_unrecognized (stamp (dec_crc d) rc) = None" by (simp add: rec_wf_def)
  moreover have "rec_Type rc = CrcType \<Longrightarrow> rec_Crc (stamp (dec_crc d) rc) = dec_crc d"
    using assms(2) by (simp add: rec_wf_def stamp_def)
  ultimately show ?thesis
    using decode_frame [OF assms(1) _ rec_wf_Size [OF wf] assms(3)] by (auto simp: stamp_def)
qed

lemma decode_all_stream:
  assumes "\<forall>rc \<in> set rcs. rec_wf rc" and "k = 0 \<or> 8 \<le> k"
    and "dec_brs d = [(concat (map frame (stamps (dec_crc d) rcs)) @ replicate k 0, fsize)]"
    and "dec_lastValidOff d + length (concat (map frame (stamps (dec_crc d) rcs))) \<le> fsize"
  shows "\<exists>d'. decode_all d = (stamps (dec_crc d) rcs, Err ErrEOF, d') \<and> dec_crc d' = last_crc (dec_crc d) rcs
    \<and> dec_lastValidOff d' = dec_lastValidOff d + length (concat (map frame (stamps (dec_crc d) rcs)))"
  using assms
proof (induction rcs arbitrary: d)
  case Nil
  then show ?case using decode_zeros [of d k fsize "[]"] by (subst decode_all.simps) (simp add: last_crc_def)
next
  case (Cons rc rcs)
  let ?s = "stamp (dec_crc d) rc"
  let ?d = "d\<lparr>dec_brs := [(concat (map frame (stamps (rec_Crc ?s) rcs)) @ replicate k 0, fsize)],
      dec_lastValidOff := dec_lastValidOff d + length (frame ?s), dec_crc := rec_Crc ?s\<rparr>"
  have "decodeRecord d = (Ok (), ?s, ?d)"
    using Cons.prems by (intro decode_stamp [THEN trans]) auto
  moreover obtain d' where "decode_all ?d = (stamps (rec_Crc ?s) rcs, Err ErrEOF, d')"
    "dec_crc d' = last_crc (rec_Crc ?s) rcs"
    "dec_lastValidOff d' = dec_lastValidOff ?d + length (concat (map frame (stamps (rec_Crc ?s) rcs)))"
    using Cons.IH [of ?d] Cons.prems by auto
  ultimately show ?case by (subst decode_all.simps) (auto simp: last_crc_def stamp_def)
qed

section \<open>Properties\<close>

text \<open>C12: what the encoder writes, the decoder reads. Records encoded through the page writer into an empty file
  and flushed are read back in order, each with the checksum the encoder stamped, and the
  decoder then reports the end of the file, with or without preallocated space behind the data.\<close>

theorem wal_stream_round_trip:
  assumes "io_writer wr content" and "never_fails wr" and "content f = []" and "\<forall>rc \<in> set rcs. rec_wf rc"
    and "k = 0 \<or> 8 \<le> k"
  shows "\<exists>e1 e2 d. encode_all wr rcs (newEncoder f 0 0) = (Ok (), e1) \<and> enc_flush wr e1 = (Ok (), e2)
    \<and> decode_all (NewDecoder [content (pw_w (enc_bw e2)) @ replicate k 0]) = (stamps 0 rcs, Err ErrEOF, d)
    \<and> LastCRC d = enc_crc e2 \<and> LastOffset d = length (content (pw_w (enc_bw e2)))"
proof -
  let ?e = "newEncoder f 0 0"
  have ok: "pw_ok (enc_bw ?e)"
    by (simp add: newEncoder_def NewPageWriter_def pw_ok_def pw_slack_def walPageBytes_def defaultBufferBytes_def)
  obtain e1 where e1: "encode_all wr rcs ?e = (Ok (), e1)" using encode_all_never_fails [OF assms(2,1) ok] by blast
  obtain e2 where e2: "enc_flush wr e1 = (Ok (), e2)" using enc_flush_never_fails [OF assms(2)] by blast
  let ?b = "concat (map frame (stamps 0 rcs))"
  have b: "content (pw_w (enc_bw e2)) = ?b" and crc: "enc_crc e2 = last_crc 0 rcs"
    using io_writer.encode_all_stream [OF assms(1) ok e1] io_writer.flush_stream [OF assms(1) e2] assms(3) e2
    by (auto simp: newEncoder_def NewPageWriter_def pw_stream_def enc_flush_def split: prod.splits)
  obtain d where "decode_all (NewDecoder [?b @ replicate k 0]) = (stamps 0 rcs, Err ErrEOF, d)"
    "dec_crc d = last_crc 0 rcs" "dec_lastValidOff d = length ?b"
    using decode_all_stream [OF assms(4,5), of "NewDecoder [?b @ replicate k 0]"] by (auto simp: NewDecoder_def)
  then show ?thesis using e1 e2 b crc by (auto simp: LastCRC_def LastOffset_def)
qed

theorem wal_stream_round_trip_witness:
  "\<exists>e1 e2 d. encode_all append_writer [demo_record, demo_record] (newEncoder [] 0 0) = (Ok (), e1)
    \<and> enc_flush append_writer e1 = (Ok (), e2)
    \<and> decode_all (NewDecoder [pw_w (enc_bw e2) @ replicate 16 0]) = (stamps 0 [demo_record, demo_record], Err ErrEOF, d)
    \<and> LastCRC d = enc_crc e2 \<and> LastOffset d = length (pw_w (enc_bw e2))"
  by (rule wal_stream_round_trip [OF aw.io_writer_axioms])
     (simp_all add: never_fails_def append_writer_def rec_wf_def demo_record_def CrcType_def)



end
