(* ===== verification/Os_Files.thy ===== *)
theory Os_Files
  imports Etcd_Codec
begin

text \<open>
  Files, as far as the vendored log and snapshotter use them: the calls into Go's \<^verbatim>\<open>os\<close> package, the helpers of
  \<^verbatim>\<open>client/pkg/fileutil\<close> and \<^verbatim>\<open>pkg/ioutil\<close>, and the hexadecimal file names that \<^verbatim>\<open>fmt\<close> prints and scans.

  A path is a directory with a name in it, and a directory entry points to a file by number, so that an open file keeps
  its content when the entry is renamed. Beside the current content the state has the content at the last
  flush; \<open>os_crash\<close> falls back to it. Every system call takes the next element of a list of faults: it fails
  with the error it finds there and changes nothing. Permissions and the advisory locks against other processes are
  left out.
\<close>

section \<open>System calls\<close>

type_synonym path = "string \<times> string"

record fd =
  fd_path :: path
  fd_inode :: nat
  fd_off :: nat

record os =
  os_dirs :: "string list"
  os_files :: "(path \<times> nat) list"
  os_data :: "nat \<Rightarrow> bytes"
  os_next :: nat
  os_fds :: "nat \<Rightarrow> fd option"
  os_nextfd :: nat
  os_disk :: "nat \<Rightarrow> bytes"
  os_entries :: "(path \<times> nat) list"
  os_faults :: "error option list"

definition ErrNotExist :: error where
  "ErrNotExist = ErrText ''file does not exist''"

definition ErrClosed :: error where
  "ErrClosed = ErrText ''file already closed''"

definition syscall :: "(os, 'a) call \<Rightarrow> (os, 'a) call" where
  "syscall f s =
     (case os_faults s of
        [] \<Rightarrow> f s
      | None # fs \<Rightarrow> f (s\<lparr>os_faults := fs\<rparr>)
      | Some e # fs \<Rightarrow> (Err e, s\<lparr>os_faults := fs\<rparr>))"

definition with_fd :: "nat \<Rightarrow> (fd \<Rightarrow> (os, 'a) call) \<Rightarrow> (os, 'a) call" where
  "with_fd k f = syscall (\<lambda>s. case os_fds s k of None \<Rightarrow> (Err ErrClosed, s) | Some d \<Rightarrow> f d s)"

text \<open>A new descriptor for an existing file, at its start.\<close>

definition new_fd :: "path \<Rightarrow> nat \<Rightarrow> (os, nat) call" where
  "new_fd p i s = (Ok (os_nextfd s), s\<lparr>os_fds := (os_fds s)(os_nextfd s \<mapsto> \<lparr>fd_path = p, fd_inode = i, fd_off = 0\<rparr>),
     os_nextfd := Suc (os_nextfd s)\<rparr>)"

definition os_Open :: "path \<Rightarrow> (os, nat) call" where
  "os_Open p = syscall (\<lambda>s. case map_of (os_files s) p of None \<Rightarrow> (Err ErrNotExist, s) | Some i \<Rightarrow> new_fd p i s)"

text \<open>\<^verbatim>\<open>os.OpenFile\<close> with \<^verbatim>\<open>O_CREATE\<close>, and \<^verbatim>\<open>O_TRUNC\<close> if \<open>trunc\<close>.\<close>

definition os_Create :: "path \<Rightarrow> bool \<Rightarrow> (os, nat) call" where
  "os_Create p trunc = syscall (\<lambda>s.
     if fst p \<notin> set (os_dirs s) then (Err ErrNotExist, s)
     else case map_of (os_files s) p of
        Some i \<Rightarrow> new_fd p i (if trunc then s\<lparr>os_data := (os_data s)(i := [])\<rparr> else s)
      | None \<Rightarrow> new_fd p (os_next s) (s\<lparr>os_files := os_files s @ [(p, os_next s)], os_data := (os_data s)(os_next s := []),
          os_disk := (os_disk s)(os_next s := []), os_next := Suc (os_next s)\<rparr>))"

text \<open>The bytes before the offset of a descriptor; a gap between the end of the file and the offset reads as zeros.\<close>

definition before_off :: "nat \<Rightarrow> bytes \<Rightarrow> bytes" where
  "before_off off b = take off b @ replicate (off - length b) 0"

definition os_Write :: "nat \<Rightarrow> bytes \<Rightarrow> (os, nat) call" where
  "os_Write k p = with_fd k (\<lambda>d s.
     (Ok (length p), s\<lparr>os_data := (os_data s)(fd_inode d := before_off (fd_off d) (os_data s (fd_inode d)) @ p
          @ drop (fd_off d + length p) (os_data s (fd_inode d))),
        os_fds := (os_fds s)(k \<mapsto> d\<lparr>fd_off := fd_off d + length p\<rparr>)\<rparr>))"

definition os_SeekTo :: "nat \<Rightarrow> nat \<Rightarrow> (os, nat) call" where
  "os_SeekTo k off = with_fd k (\<lambda>d s. (Ok off, s\<lparr>os_fds := (os_fds s)(k \<mapsto> d\<lparr>fd_off := off\<rparr>)\<rparr>))"

definition os_SeekCurrent :: "nat \<Rightarrow> (os, nat) call" where
  "os_SeekCurrent k = with_fd k (\<lambda>d s. (Ok (fd_off d), s))"

definition os_SeekEnd :: "nat \<Rightarrow> (os, nat) call" where
  "os_SeekEnd k = with_fd k (\<lambda>d s. (Ok (length (os_data s (fd_inode d))),
     s\<lparr>os_fds := (os_fds s)(k \<mapsto> d\<lparr>fd_off := length (os_data s (fd_inode d))\<rparr>)\<rparr>))"

definition os_Truncate :: "nat \<Rightarrow> nat \<Rightarrow> (os, unit) call" where
  "os_Truncate k n = with_fd k (\<lambda>d s. (Ok (), s\<lparr>os_data := (os_data s)(fd_inode d := before_off n (os_data s (fd_inode d)))\<rparr>))"

text \<open>\<^verbatim>\<open>fallocate\<close> with mode 0: the file has at least the given size afterwards.\<close>

definition os_Fallocate :: "nat \<Rightarrow> nat \<Rightarrow> (os, unit) call" where
  "os_Fallocate k n = with_fd k (\<lambda>d s. (Ok (), s\<lparr>os_data := (os_data s)(fd_inode d :=
     os_data s (fd_inode d) @ replicate (n - length (os_data s (fd_inode d))) 0)\<rparr>))"

text \<open>\<^verbatim>\<open>fsync\<close> and \<^verbatim>\<open>fdatasync\<close> of a file make its content durable, \<^verbatim>\<open>fsync\<close> of a directory its entries.\<close>

definition os_Fsync :: "nat \<Rightarrow> (os, unit) call" where
  "os_Fsync k = with_fd k (\<lambda>d s. (Ok (), s\<lparr>os_disk := (os_disk s)(fd_inode d := os_data s (fd_inode d))\<rparr>))"

definition os_FsyncDir :: "(string \<Rightarrow> bool) \<Rightarrow> (os, unit) call" where
  "os_FsyncDir P = syscall (\<lambda>s. (Ok (), s\<lparr>os_entries := filter (\<lambda>(p, _). \<not> P (fst p)) (os_entries s)
     @ filter (\<lambda>(p, _). P (fst p)) (os_files s)\<rparr>))"

definition os_Close :: "nat \<Rightarrow> (os, unit) call" where
  "os_Close k = with_fd k (\<lambda>d s. (Ok (), s\<lparr>os_fds := (os_fds s)(k := None)\<rparr>))"

definition os_Rename :: "path \<Rightarrow> path \<Rightarrow> (os, unit) call" where
  "os_Rename p q = syscall (\<lambda>s. case map_of (os_files s) p of
       None \<Rightarrow> (Err ErrNotExist, s)
     | Some i \<Rightarrow> (Ok (), s\<lparr>os_files := filter (\<lambda>(r, _). r \<noteq> p \<and> r \<noteq> q) (os_files s) @ [(q, i)]\<rparr>))"

text \<open>Renaming a directory moves its entries; the source and the target share their parent.\<close>

definition os_RenameDir :: "string \<Rightarrow> string \<Rightarrow> (os, unit) call" where
  "os_RenameDir d e = syscall (\<lambda>s.
     if d \<notin> set (os_dirs s) then (Err ErrNotExist, s)
     else (Ok (), s\<lparr>os_dirs := e # filter (\<lambda>x. x \<noteq> d \<and> x \<noteq> e) (os_dirs s),
       os_files := map (\<lambda>(p, i). (if fst p = d then (e, snd p) else p, i)) (os_files s)\<rparr>))"

definition os_Remove :: "path \<Rightarrow> (os, unit) call" where
  "os_Remove p = syscall (\<lambda>s. case map_of (os_files s) p of
       None \<Rightarrow> (Err ErrNotExist, s)
     | Some i \<Rightarrow> (Ok (), s\<lparr>os_files := filter (\<lambda>(r, _). r \<noteq> p) (os_files s)\<rparr>))"

text \<open>\<^verbatim>\<open>os.RemoveAll\<close> of a directory; it is not an error if there is none.\<close>

definition os_RemoveTree :: "string \<Rightarrow> (os, unit) call" where
  "os_RemoveTree d = syscall (\<lambda>s. (Ok (), s\<lparr>os_dirs := filter (\<lambda>x. x \<noteq> d) (os_dirs s),
     os_files := filter (\<lambda>(r, _). fst r \<noteq> d) (os_files s)\<rparr>))"

definition os_Mkdir :: "string \<Rightarrow> (os, unit) call" where
  "os_Mkdir d = syscall (\<lambda>s. (Ok (), if d \<in> set (os_dirs s) then s else s\<lparr>os_dirs := d # os_dirs s\<rparr>))"

definition os_StatDir :: "string \<Rightarrow> (os, unit) call" where
  "os_StatDir d = syscall (\<lambda>s. (if d \<in> set (os_dirs s) then Ok () else Err ErrNotExist, s))"

text \<open>\<^verbatim>\<open>os.Open\<close> of a directory and \<^verbatim>\<open>Readdirnames\<close>\<close>

definition names_in :: "string \<Rightarrow> os \<Rightarrow> string list" where
  "names_in d s = map (snd \<circ> fst) (filter (\<lambda>(p, _). fst p = d) (os_files s))"

definition os_OpenDir :: "string \<Rightarrow> (os, unit) call" where
  "os_OpenDir d = syscall (\<lambda>s. (if d \<in> set (os_dirs s) then Ok () else Err ErrNotExist, s))"

definition os_Readdirnames :: "string \<Rightarrow> (os, string list) call" where
  "os_Readdirnames d = bindS (os_OpenDir d) (\<lambda>_. syscall (\<lambda>s. (Ok (names_in d s), s)))"

definition os_ReadFile :: "path \<Rightarrow> (os, bytes) call" where
  "os_ReadFile p = syscall (\<lambda>s. case map_of (os_files s) p of None \<Rightarrow> (Err ErrNotExist, s) | Some i \<Rightarrow> (Ok (os_data s i), s))"

text \<open>The end of the process and of the machine: what was not flushed is gone.\<close>

definition os_crash :: "os \<Rightarrow> os" where
  "os_crash s = s\<lparr>os_files := os_entries s, os_data := os_disk s, os_fds := (\<lambda>_. None)\<rparr>"

section \<open>Helpers of fileutil and ioutil\<close>

text \<open>\<^verbatim>\<open>ReadDir\<close>, without and with the option \<^verbatim>\<open>WithExt\<close>\<close>

definition ReadDir :: "string \<Rightarrow> string option \<Rightarrow> (os, string list) call" where
  "ReadDir d ext = bindS (os_Readdirnames d) (\<lambda>names.
     retS (case ext of None \<Rightarrow> sort names | Some e \<Rightarrow> filter (suffix e) (sort names)))"

definition Preallocate :: "nat \<Rightarrow> nat \<Rightarrow> (os, unit) call" where
  "Preallocate k sizeInBytes = (if sizeInBytes = 0 then retS () else os_Fallocate k sizeInBytes)"

definition ZeroToEnd :: "nat \<Rightarrow> (os, unit) call" where
  "ZeroToEnd k =
     bindS (os_SeekCurrent k) (\<lambda>off.
     bindS (os_SeekEnd k) (\<lambda>lenf.
     bindS (os_Truncate k off) (\<lambda>_.
     bindS (Preallocate k lenf) (\<lambda>_.
     bindS (os_SeekTo k off) (\<lambda>_. retS ())))))"

definition DirExist :: "string \<Rightarrow> (os, bool) call" where
  "DirExist d s = (case os_StatDir d s of (r, s') \<Rightarrow> (Ok (r = Ok ()), s'))"

definition IsDirWriteable :: "string \<Rightarrow> (os, unit) call" where
  "IsDirWriteable d =
     bindS (os_Create (d, ''.touch'') True) (\<lambda>k.
     bindS (os_Close k) (\<lambda>_. os_Remove (d, ''.touch'')))"

definition TouchDirAll :: "string \<Rightarrow> (os, unit) call" where
  "TouchDirAll d =
     bindS (DirExist d) (\<lambda>e.
     bindS (if e then retS () else os_Mkdir d) (\<lambda>_. IsDirWriteable d))"

definition CreateDirAll :: "string \<Rightarrow> (os, unit) call" where
  "CreateDirAll d =
     bindS (TouchDirAll d) (\<lambda>_.
     bindS (ReadDir d None) (\<lambda>ns.
     if ns \<noteq> [] then failS (ErrText ''expected directory to be empty'') else retS ()))"

definition WriteAndSyncFile :: "path \<Rightarrow> bytes \<Rightarrow> (os, unit) call" where
  "WriteAndSyncFile p data =
     bindS (os_Create p True) (\<lambda>k s.
       case bindS (os_Write k data) (\<lambda>n. if n < length data then failS (ErrText ''short write'') else os_Fsync k) s of
         (Panicked m, s1) \<Rightarrow> (Panicked m, s1)
       | (r, s1) \<Rightarrow> (case os_Close k s1 of (r1, s2) \<Rightarrow> (if r = Ok () then r1 else r, s2)))"

section \<open>Hexadecimal names\<close>

text \<open>\<^verbatim>\<open>%016x\<close>\<close>

definition hex_digit :: "nat \<Rightarrow> char" where
  "hex_digit n = ''0123456789abcdef'' ! n"

fun hexes :: "nat \<Rightarrow> nat \<Rightarrow> string" where
  "hexes 0 n = []"
| "hexes (Suc k) n = hexes k (n div 16) @ [hex_digit (n mod 16)]"

definition fmt_016x :: "u64 \<Rightarrow> string" where
  "fmt_016x v = hexes 16 (unat v)"

text \<open>\<^verbatim>\<open>Sscanf\<close> with the verb \<^verbatim>\<open>%016x\<close>: blanks are skipped, then up to sixteen digits are read, of either case.\<close>

definition hex_value :: "char \<Rightarrow> nat option" where
  "hex_value c = map_of (zip ''0123456789abcdefABCDEF'' ([0..<16] @ [10..<16])) c"

definition skip_blanks :: "string \<Rightarrow> string" where
  "skip_blanks = dropWhile (\<lambda>c. c \<in> set [CHR '' '', CHR 0x09, CHR 0x0B, CHR 0x0C, CHR 0x0D])"

definition scan_hex :: "string \<Rightarrow> (u64 \<times> string) option" where
  "scan_hex cs =
     (let r = skip_blanks cs; ds = takeWhile (\<lambda>c. hex_value c \<noteq> None) (take 16 r) in
      if ds = [] then None
      else Some (of_nat (foldl (\<lambda>n c. 16 * n + the (hex_value c)) 0 ds), drop (length ds) r))"

lemma hex_digit_less: "a < 16 \<Longrightarrow> b < 16 \<Longrightarrow> hex_digit a < hex_digit b \<longleftrightarrow> a < b"
proof -
  have "\<forall>a \<in> set [0..<16]. \<forall>b \<in> set [0..<16]. hex_digit a < hex_digit b \<longleftrightarrow> a < b" by code_simp
  then show "a < 16 \<Longrightarrow> b < 16 \<Longrightarrow> hex_digit a < hex_digit b \<longleftrightarrow> a < b" by simp
qed

lemma hex_value_digit: "a < 16 \<Longrightarrow> hex_value (hex_digit a) = Some a"
proof -
  have "\<forall>a \<in> set [0..<16]. hex_value (hex_digit a) = Some a" by code_simp
  then show "a < 16 \<Longrightarrow> hex_value (hex_digit a) = Some a" by simp
qed

lemma hex_digit_inject: "a < 16 \<Longrightarrow> b < 16 \<Longrightarrow> hex_digit a = hex_digit b \<longleftrightarrow> a = b"
  by (metis hex_value_digit option.inject)

lemma length_hexes [simp]: "length (hexes k n) = k"
  by (induction k arbitrary: n) auto

lemma snoc_less: "length xs = length ys \<Longrightarrow> xs @ [a] < ys @ [b] \<longleftrightarrow> xs < ys \<or> xs = ys \<and> a < (b :: 'a::linorder)"
  by (induction xs ys rule: list_induct2) auto

lemma append_less: "length xs = length ys \<Longrightarrow> xs @ us < ys @ vs \<longleftrightarrow> xs < ys \<or> xs = ys \<and> us < (vs :: 'a::linorder list)"
  by (induction xs ys rule: list_induct2) auto

lemma digits_less: "r < 16 \<Longrightarrow> r' < 16 \<Longrightarrow> (16 * q + r < 16 * q' + r' \<longleftrightarrow> q < q' \<or> q = q' \<and> r < (r' :: nat))"
  by linarith

lemma hexes_less_eq: "n < 16 ^ k \<Longrightarrow> m < 16 ^ k \<Longrightarrow> (hexes k n < hexes k m \<longleftrightarrow> n < m) \<and> (hexes k n = hexes k m \<longleftrightarrow> n = m)"
proof (induction k arbitrary: n m)
  case (Suc k)
  have b: "n div 16 < 16 ^ k" "m div 16 < 16 ^ k" using Suc.prems by (simp_all add: less_mult_imp_div_less mult.commute)
  have "n < m \<longleftrightarrow> n div 16 < m div 16 \<or> n div 16 = m div 16 \<and> n mod 16 < m mod 16"
    using digits_less [of "n mod 16" "m mod 16" "n div 16" "m div 16"] by simp
  moreover have "n = m \<longleftrightarrow> n div 16 = m div 16 \<and> n mod 16 = m mod 16" by (metis div_mult_mod_eq)
  ultimately show ?case using Suc.IH [OF b] by (simp add: snoc_less hex_digit_less hex_digit_inject)
qed simp

lemma fmt_016x_less: "fmt_016x v < fmt_016x w \<longleftrightarrow> v < w" and fmt_016x_inject [simp]: "fmt_016x v = fmt_016x w \<longleftrightarrow> v = w"
proof -
  have "unat v < 16 ^ 16" "unat w < 16 ^ 16" using unsigned_less [of v, where 'a = nat] unsigned_less [of w, where 'a = nat] by simp_all
  from hexes_less_eq [OF this] show "fmt_016x v < fmt_016x w \<longleftrightarrow> v < w" "fmt_016x v = fmt_016x w \<longleftrightarrow> v = w"
    by (simp_all add: fmt_016x_def word_less_nat_alt word_unat_eq_iff)
qed

lemma length_fmt_016x [simp]: "length (fmt_016x v) = 16"
  by (simp add: fmt_016x_def)

lemma hexes_digits: "c \<in> set (hexes k n) \<Longrightarrow> \<exists>a < 16. c = hex_digit a"
proof (induction k arbitrary: n)
  case (Suc k)
  then show ?case by (cases "c \<in> set (hexes k (n div 16))") (auto intro: exI [of _ "n mod 16"])
qed simp

lemma hexes_value: "n < 16 ^ k \<Longrightarrow> foldl (\<lambda>n c. 16 * n + the (hex_value c)) 0 (hexes k n) = n"
proof (induction k arbitrary: n)
  case (Suc k)
  then have "n div 16 < 16 ^ k" by (simp add: less_mult_imp_div_less mult.commute)
  from Suc.IH [OF this] show ?case by (simp add: hex_value_digit)
qed simp

lemma hex_not_blank: "a < 16 \<Longrightarrow> hex_digit a \<notin> set [CHR '' '', CHR 0x09, CHR 0x0B, CHR 0x0C, CHR 0x0D]"
proof -
  have "\<forall>a \<in> set [0..<16]. hex_digit a \<notin> set [CHR '' '', CHR 0x09, CHR 0x0B, CHR 0x0C, CHR 0x0D]" by code_simp
  then show "a < 16 \<Longrightarrow> hex_digit a \<notin> set [CHR '' '', CHR 0x09, CHR 0x0B, CHR 0x0C, CHR 0x0D]" by simp
qed

lemma scan_fmt [simp]: "scan_hex (fmt_016x v @ r) = Some (v, r)"
proof -
  have dig: "\<forall>c \<in> set (fmt_016x v). hex_value c \<noteq> None"
    by (auto simp: fmt_016x_def dest!: hexes_digits simp: hex_value_digit)
  then have ds: "takeWhile (\<lambda>c. hex_value c \<noteq> None) (fmt_016x v) = fmt_016x v" by (simp add: takeWhile_eq_all_conv del: not_None_eq)
  have "hd (fmt_016x v) \<in> set (hexes 16 (unat v))" by (metis fmt_016x_def length_fmt_016x hd_in_set list.size(3) zero_neq_numeral)
  then obtain a where "a < 16" "hd (fmt_016x v) = hex_digit a" by (blast dest: hexes_digits)
  with hex_not_blank [of a] have "skip_blanks (fmt_016x v @ r) = fmt_016x v @ r"
    by (cases "fmt_016x v") (auto simp: skip_blanks_def dest: arg_cong [of _ _ length])
  moreover have "unat v < 16 ^ 16" using unsigned_less [of v, where 'a = nat] by simp
  moreover have "fmt_016x v \<noteq> []" by (metis length_fmt_016x list.size(3) zero_neq_numeral)
  moreover have "take 16 (fmt_016x v @ r) = fmt_016x v" by simp
  ultimately show ?thesis using hexes_value [of "unat v" 16] ds
    unfolding scan_hex_def Let_def by (simp only: ds) (simp add: fmt_016x_def)
qed

section \<open>The file as a writer\<close>

text \<open>What has been written through a descriptor.\<close>

definition fd_content :: "nat \<Rightarrow> os \<Rightarrow> bytes" where
  "fd_content k s = (case os_fds s k of None \<Rightarrow> [] | Some d \<Rightarrow> before_off (fd_off d) (os_data s (fd_inode d)))"

lemma syscall_cases:
  assumes "syscall f s = (r, t)"
  obtains fs where "f (s\<lparr>os_faults := fs\<rparr>) = (r, t)"
    | e fs where "r = Err e" and "t = s\<lparr>os_faults := fs\<rparr>"
  using assms by (auto simp: syscall_def split: list.splits option.splits) (metis os.surjective os.update_convs(9))+

lemma length_before_off [simp]: "length (before_off off b) = off"
  by (simp add: before_off_def)

interpretation fw: io_writer "os_Write k" "fd_content k" for k
proof
  fix p s n t assume "os_Write k p s = (Ok n, t)"
  then show "n = length p \<and> fd_content k t = fd_content k s @ p"
    by (auto simp: os_Write_def with_fd_def fd_content_def before_off_def elim!: syscall_cases split: option.splits)
next
  fix p s r t assume "os_Write k p s = (r, t)"
  then show "\<exists>j. fd_content k t = fd_content k s @ take j p"
    unfolding os_Write_def with_fd_def
  proof (cases rule: syscall_cases)
    case (1 fs)
    then show ?thesis
      by (cases "os_fds s k") (auto simp: fd_content_def before_off_def intro: exI [of _ 0] exI [of _ "length p"])
  next
    case (2 e fs)
    then show ?thesis by (intro exI [of _ 0]) (simp add: fd_content_def split: option.split)
  qed
qed

end
