(* ===== verification/Wal.thy ===== *)
theory Wal
  imports Walpb
begin

text \<open>
  \<^verbatim>\<open>wal.go\<close> and the file helpers of \<^verbatim>\<open>utils/utils.go\<close>: durable storage of the Raft log. The calls into
  Go's \<^verbatim>\<open>os\<close> package and into etcd's write-ahead log and snapshotter are the parameter \<open>wal_api\<close>. Its state
  \<open>'w\<close> is the disk together with the open files; \<open>'h\<close> is a handle of an open log.
\<close>

section \<open>The interface below\<close>

text \<open>\<open>os_Stat\<close> tells whether the path is a directory. \<open>os_ReadDir\<close> lists names with their being a
  directory. Opened files are handed out by their path.\<close>

datatype open_mode = CreateExclusive | AppendOnly

record ('w, 'h) wal_api =
  os_Stat :: "string \<Rightarrow> 'w \<Rightarrow> bool res"
  os_MkdirAll :: "string \<Rightarrow> ('w, unit) call"
  os_OpenFile :: "string \<Rightarrow> open_mode \<Rightarrow> ('w, string) call"
  os_ReadDir :: "string \<Rightarrow> 'w \<Rightarrow> (string \<times> bool) list res"
  os_RemoveAll :: "string \<Rightarrow> ('w, unit) call"
  path_Join :: "string \<Rightarrow> string \<Rightarrow> string"
  wal_Exist :: "string \<Rightarrow> 'w \<Rightarrow> bool"
  wal_Create :: "string \<Rightarrow> ('w, 'h) call"
  wal_Open :: "string \<Rightarrow> WalSnapshot \<Rightarrow> ('w, 'h) call"
  wal_ReadAll :: "'h \<Rightarrow> ('w, HardState \<times> Entry list) call"
  wal_Save :: "'h \<Rightarrow> HardState \<Rightarrow> Entry list \<Rightarrow> ('w, unit) call"
  wal_SaveSnapshot :: "'h \<Rightarrow> WalSnapshot \<Rightarrow> ('w, unit) call"
  wal_Sync :: "'h \<Rightarrow> ('w, unit) call"
  wal_ReleaseLockTo :: "'h \<Rightarrow> u64 \<Rightarrow> ('w, unit) call"
  wal_CloseLog :: "'h \<Rightarrow> ('w, unit) call"
  wal_ValidSnapshotEntries :: "string \<Rightarrow> ('w, WalSnapshot list) call"
  snap_SaveSnap :: "string \<Rightarrow> Snapshot \<Rightarrow> ('w, unit) call"
  snap_Load :: "string \<Rightarrow> ('w, Snapshot) call"
  snap_LoadNewestAvailable :: "string \<Rightarrow> WalSnapshot list \<Rightarrow> ('w, Snapshot) call"

section \<open>File helpers\<close>

definition IsDirExists :: "('w, 'h) wal_api \<Rightarrow> string \<Rightarrow> 'w \<Rightarrow> bool" where
  "IsDirExists A dirPath w = (case os_Stat A dirPath w of Ok isDir \<Rightarrow> isDir | _ \<Rightarrow> False)"

definition CreateDir :: "('w, 'h) wal_api \<Rightarrow> string \<Rightarrow> ('w, unit) call" where
  "CreateDir A dirPath = os_MkdirAll A dirPath"

definition CreateDirIfNotExists :: "('w, 'h) wal_api \<Rightarrow> string \<Rightarrow> ('w, unit) call" where
  "CreateDirIfNotExists A folderPath w =
     (if \<not> IsDirExists A folderPath w then CreateDir A folderPath w else (Ok (), w))"

definition IsFileExists :: "('w, 'h) wal_api \<Rightarrow> string \<Rightarrow> 'w \<Rightarrow> bool" where
  "IsFileExists A filePath w = is_Ok (os_Stat A filePath w)"

definition CreateFile :: "('w, 'h) wal_api \<Rightarrow> string \<Rightarrow> ('w, string) call" where
  "CreateFile A path = os_OpenFile A path CreateExclusive"

definition OpenFile :: "('w, 'h) wal_api \<Rightarrow> string \<Rightarrow> ('w, string) call" where
  "OpenFile A path = os_OpenFile A path AppendOnly"

definition CreateFileIfNotExists :: "('w, 'h) wal_api \<Rightarrow> string \<Rightarrow> ('w, string) call" where
  "CreateFileIfNotExists A path w = (if \<not> IsFileExists A path w then CreateFile A path w else OpenFile A path w)"

fun RemoveMatch_loop :: "('w, 'h) wal_api \<Rightarrow> string \<Rightarrow> (string \<Rightarrow> bool) \<Rightarrow> (string \<times> bool) list \<Rightarrow> ('w, unit) call" where
  "RemoveMatch_loop A dir remove [] = retS ()"
| "RemoveMatch_loop A dir remove ((filename, isDir) # entries) =
     (if isDir then RemoveMatch_loop A dir remove entries
      else if remove filename then
        bindS (os_RemoveAll A (path_Join A dir filename)) (\<lambda>_. RemoveMatch_loop A dir remove entries)
      else RemoveMatch_loop A dir remove entries)"

definition RemoveMatchFile :: "('w, 'h) wal_api \<Rightarrow> string \<Rightarrow> (string \<Rightarrow> bool) \<Rightarrow> ('w, unit) call" where
  "RemoveMatchFile A dir remove w =
     (case os_ReadDir A dir w of
        Ok entries \<Rightarrow> RemoveMatch_loop A dir remove entries w
      | Err e \<Rightarrow> (Err e, w)
      | Panicked m \<Rightarrow> (Panicked m, w))"

section \<open>The log of a node\<close>

text \<open>\<open>wl_disk\<close> is what the process shares with later incarnations of itself. The snapshotter is its directory.\<close>

record ('w, 'h) Wal =
  wl_waldir :: string
  wl_snapdir :: string
  wl_wal :: "'h option"
  wl_snapshotter :: "string option"
  wl_existingWAL :: bool
  wl_disk :: 'w

definition newWal :: "('w, 'h) wal_api \<Rightarrow> string \<Rightarrow> 'w \<Rightarrow> ('w, 'h) Wal res \<times> 'w" where
  "newWal A baseDir =
     (let waldir = path_Join A baseDir ''wal''; snapdir = path_Join A baseDir ''snap'' in
      bindS (CreateDirIfNotExists A waldir) (\<lambda>_.
      bindS (CreateDirIfNotExists A snapdir) (\<lambda>_.
      bindS (RemoveMatchFile A snapdir (prefix ''tmp'')) (\<lambda>_ w.
      (Ok \<lparr>wl_waldir = waldir, wl_snapdir = snapdir, wl_wal = None, wl_snapshotter = None,
           wl_existingWAL = wal_Exist A waldir w, wl_disk = w\<rparr>, w)))))"

text \<open>A call on the disk, and a method call on a pointer that may be nil.\<close>

definition on_disk :: "('w, 'a) call \<Rightarrow> (('w, 'h) Wal, 'a) call" where
  "on_disk f w = (case f (wl_disk w) of (r, d) \<Rightarrow> (r, w\<lparr>wl_disk := d\<rparr>))"

definition non_nil :: "'p option \<Rightarrow> ('p \<Rightarrow> ('s, 'a) call) \<Rightarrow> ('s, 'a) call" where
  "non_nil p f = (case p of None \<Rightarrow> panicS ''invalid memory address or nil pointer dereference'' | Some h \<Rightarrow> f h)"

definition loadLatestSnapshot :: "('w, 'h) wal_api \<Rightarrow> (('w, 'h) Wal, Snapshot option) call" where
  "loadLatestSnapshot A w =
     (if \<not> wal_Exist A (wl_waldir w) (wl_disk w) then (Ok (Some emptySnapshot), w)
      else bindS (on_disk (wal_ValidSnapshotEntries A (wl_waldir w))) (\<lambda>walSnaps.
        non_nil (wl_snapshotter w) (\<lambda>dir w'.
        case on_disk (snap_LoadNewestAvailable A dir walSnaps) w' of
          (Ok snapshot, w'') \<Rightarrow> (Ok (Some snapshot), w'')
        | (Err e, w'') \<Rightarrow> if e = ErrNoSnapshot then (Ok None, w'') else (Err e, w'')
        | (Panicked m, w'') \<Rightarrow> (Panicked m, w''))) w)"

text \<open>The result of closing a log just created is ignored.\<close>

definition openWAL :: "('w, 'h) wal_api \<Rightarrow> Snapshot option \<Rightarrow> (('w, 'h) Wal, 'h) call" where
  "openWAL A snapshot w =
     bindS (\<lambda>w. if \<not> wal_Exist A (wl_waldir w) (wl_disk w) then
         bindS (on_disk (wal_Create A (wl_waldir w)))
           (\<lambda>h w. case on_disk (wal_CloseLog A h) w of (Panicked m, w') \<Rightarrow> (Panicked m, w') | (_, w') \<Rightarrow> (Ok (), w')) w
       else (Ok (), w)) (\<lambda>_.
     let walsnap = (case snapshot of None \<Rightarrow> emptyWalSnapshot
       | Some s \<Rightarrow> emptyWalSnapshot\<lparr>ws_Index := snap_Index s, ws_Term := snap_Term s\<rparr>) in
     on_disk (wal_Open A (wl_waldir w) walsnap)) w"

definition wal_open :: "('w, 'h) wal_api \<Rightarrow> (('w, 'h) Wal, Snapshot option \<times> HardState \<times> Entry list) call" where
  "wal_open A w =
     bindS (loadLatestSnapshot A) (\<lambda>snapshot.
     bindS (openWAL A snapshot) (\<lambda>walInt w.
     bindS (on_disk (wal_ReadAll A walInt)) (\<lambda>(hardState, entries).
     retS (snapshot, hardState, entries)) (w\<lparr>wl_wal := Some walInt\<rparr>))) (w\<lparr>wl_snapshotter := Some (wl_snapdir w)\<rparr>)"

definition wal_SaveState :: "('w, 'h) wal_api \<Rightarrow> HardState \<Rightarrow> Entry list \<Rightarrow> (('w, 'h) Wal, unit) call" where
  "wal_SaveState A hardState entries w = non_nil (wl_wal w) (\<lambda>h. on_disk (wal_Save A h hardState entries)) w"

definition wal_SaveSnap :: "('w, 'h) wal_api \<Rightarrow> Snapshot \<Rightarrow> (('w, 'h) Wal, unit) call" where
  "wal_SaveSnap A snap w =
     bindS (non_nil (wl_snapshotter w) (\<lambda>dir. on_disk (snap_SaveSnap A dir snap))) (\<lambda>_.
     non_nil (wl_wal w) (\<lambda>h. on_disk (wal_SaveSnapshot A h
       \<lparr>ws_Index = snap_Index snap, ws_Term = snap_Term snap, ws_ConfState = Some (snap_ConfState snap), ws_unrecognized = None\<rparr>))) w"

definition wal_Release :: "('w, 'h) wal_api \<Rightarrow> u64 \<Rightarrow> (('w, 'h) Wal, unit) call" where
  "wal_Release A index w = non_nil (wl_wal w) (\<lambda>h. on_disk (wal_ReleaseLockTo A h index)) w"

definition wal_sync :: "('w, 'h) wal_api \<Rightarrow> (('w, 'h) Wal, unit) call" where
  "wal_sync A w = non_nil (wl_wal w) (\<lambda>h. on_disk (wal_Sync A h)) w"

definition ExistingWAL :: "('w, 'h) Wal \<Rightarrow> bool" where
  "ExistingWAL w = wl_existingWAL w"

definition wal_Exists :: "('w, 'h) wal_api \<Rightarrow> (('w, 'h) Wal, bool \<times> bool) call" where
  "wal_Exists A w =
     (let walExists = wal_Exist A (wl_waldir w) (wl_disk w) in
      non_nil (wl_snapshotter w) (\<lambda>dir w.
        case on_disk (snap_Load A dir) w of
          (Ok _, w') \<Rightarrow> (Ok (walExists, True), w')
        | (Err e, w') \<Rightarrow> if e \<noteq> ErrNoSnapshot then (Err e, w') else (Ok (walExists, False), w')
        | (Panicked m, w') \<Rightarrow> (Panicked m, w')) w)"

definition wal_Close :: "('w, 'h) wal_api \<Rightarrow> (('w, 'h) Wal, unit) call" where
  "wal_Close A w = (case wl_wal w of Some h \<Rightarrow> on_disk (wal_CloseLog A h) w | None \<Rightarrow> (Ok (), w))"

section \<open>What the log promises\<close>

text \<open>The content of a log directory and its snapshot directory: the last hard state, all entries in the order
  they were written, the snapshot markers and the snapshot files.\<close>

record log_view =
  lv_exists :: bool
  lv_state :: HardState
  lv_entries :: "Entry list"
  lv_marks :: "WalSnapshot list"
  lv_files :: "Snapshot list"

text \<open>The entries after a start index: a later entry with the same index replaces the earlier one and all that
  followed it.\<close>

fun replay :: "u64 \<Rightarrow> Entry list \<Rightarrow> Entry list \<Rightarrow> Entry list option" where
  "replay start acc [] = Some acc"
| "replay start acc (e # es) =
     (if start < ent_Index e then
        (let offset = unat (ent_Index e - start - 1) in
         if length acc < offset then None else replay start (take offset acc @ [e]) es)
      else replay start acc es)"

definition valid_marks :: "log_view \<Rightarrow> WalSnapshot list" where
  "valid_marks v = filter (\<lambda>m. ws_Index m \<le> hs_Commit (lv_state v)) (lv_marks v)"

definition marked :: "WalSnapshot list \<Rightarrow> Snapshot \<Rightarrow> bool" where
  "marked ms s \<longleftrightarrow> (\<exists>m \<in> set ms. ws_Index m = snap_Index s \<and> ws_Term m = snap_Term s)"

text \<open>Snapshot files are named by term and index; saving one replaces the file of that name. The newest is the one
  with the greatest name.\<close>

definition add_file :: "Snapshot \<Rightarrow> Snapshot list \<Rightarrow> Snapshot list" where
  "add_file s fs = filter (\<lambda>f. \<not> (snap_Term f = snap_Term s \<and> snap_Index f = snap_Index s)) fs @ [s]"

definition older :: "Snapshot \<Rightarrow> Snapshot \<Rightarrow> bool" where
  "older a b \<longleftrightarrow> snap_Term a < snap_Term b \<or> snap_Term a = snap_Term b \<and> snap_Index a \<le> snap_Index b"

fun newest_file :: "(Snapshot \<Rightarrow> bool) \<Rightarrow> Snapshot list \<Rightarrow> Snapshot option" where
  "newest_file P [] = None"
| "newest_file P (f # fs) =
     (case newest_file P fs of
        None \<Rightarrow> if P f then Some f else None
      | Some g \<Rightarrow> if P f \<and> \<not> older f g then Some f else Some g)"

lemma newest_file_None_iff: "newest_file P fs = None \<longleftrightarrow> (\<forall>f \<in> set fs. \<not> P f)"
  by (induction fs) (auto split: option.splits if_splits)

lemma older_trans: "older a b \<Longrightarrow> older b c \<Longrightarrow> older a c"
  by (auto simp: older_def)

lemma newest_file_SomeD: "newest_file P fs = Some g \<Longrightarrow> g \<in> set fs \<and> P g \<and> (\<forall>f \<in> set fs. P f \<longrightarrow> older f g)"
proof (induction fs arbitrary: g)
  case (Cons f fs)
  have refl: "older f f" by (simp add: older_def)
  show ?case
  proof (cases "newest_file P fs")
    case None
    then have "\<forall>f \<in> set fs. \<not> P f" by (simp add: newest_file_None_iff)
    then show ?thesis using None Cons.prems refl by (auto split: if_splits)
  next
    case (Some h)
    have "older h f" if "\<not> older f h" using that by (auto simp: older_def)
    then show ?thesis using Cons.IH [OF Some] Cons.prems Some refl
      by (auto split: if_splits intro: older_trans)
  qed
qed simp

text \<open>Every marker of a snapshot has its file.\<close>

definition no_dangling :: "log_view \<Rightarrow> bool" where
  "no_dangling v \<longleftrightarrow> (\<forall>m \<in> set (lv_marks v). ws_Index m = 0 \<or>
     (\<exists>f \<in> set (lv_files v). snap_Index f = ws_Index m \<and> snap_Term f = ws_Term m))"

text \<open>\<open>view\<close> is what a reader of the files would see once everything written is flushed, \<open>dur\<close> what survives if the
  process ends now, \<open>crash\<close> the disk after that.\<close>

locale etcd_log =
  fixes A :: "('w, 'h) wal_api"
    and baseDir :: string
    and view dur :: "'w \<Rightarrow> log_view"
    and crash :: "'w \<Rightarrow> 'w"
    and opened :: "'h \<Rightarrow> 'w \<Rightarrow> bool"
    and reading :: "'h \<Rightarrow> WalSnapshot \<Rightarrow> 'w \<Rightarrow> bool"
  assumes crash_view: "view (crash w) = dur w" "dur (crash w) = dur w"
    and dur_marks: "set (lv_marks (dur w)) \<subseteq> set (lv_marks (view w))" "lv_files (dur w) = lv_files (view w)"
    and Mkdir_view: "os_MkdirAll A p w = (r, w') \<Longrightarrow> view w' = view w \<and> dur w' = dur w"
    and Remove_view: "prefix ''tmp'' name \<Longrightarrow> os_RemoveAll A (path_Join A (path_Join A baseDir ''snap'') name) w = (r, w') \<Longrightarrow>
        view w' = view w \<and> dur w' = dur w"
    and Exist: "wal_Exist A (path_Join A baseDir ''wal'') w = lv_exists (view w)"
    and Create_view: "\<not> lv_exists (view w) \<Longrightarrow> wal_Create A (path_Join A baseDir ''wal'') w = (Ok h, w') \<Longrightarrow>
        opened h w' \<and> view w' = \<lparr>lv_exists = True, lv_state = emptyHardState, lv_entries = [],
          lv_marks = [emptyWalSnapshot], lv_files = lv_files (view w)\<rparr> \<and> dur w' = view w'"
    and Close_view: "opened h w \<Longrightarrow> wal_CloseLog A h w = (r, w') \<Longrightarrow> view w' = view w \<and> (r = Ok () \<or> dur w = view w \<longrightarrow> dur w' = view w)"
    and Save_view: "opened h w \<Longrightarrow> wal_Save A h st es w = (Ok (), w') \<Longrightarrow> opened h w' \<and>
        view w' = (view w)\<lparr>lv_state := (if IsEmptyHardState st then lv_state (view w) else st), lv_entries := lv_entries (view w) @ es\<rparr>"
    and Sync_view: "opened h w \<Longrightarrow> wal_Sync A h w = (Ok (), w') \<Longrightarrow> opened h w' \<and> view w' = view w \<and> dur w' = view w"
    and Release_view: "opened h w \<Longrightarrow> wal_ReleaseLockTo A h i w = (Ok (), w') \<Longrightarrow> opened h w' \<and> view w' = view w \<and> dur w' = dur w"
    and SaveSnapshot_view: "opened h w \<Longrightarrow> wal_SaveSnapshot A h m w = (Ok (), w') \<Longrightarrow> opened h w' \<and>
        view w' = (view w)\<lparr>lv_marks := lv_marks (view w) @ [m]\<rparr> \<and> dur w' = view w'"
    and SaveSnap_view: "snap_Index s \<noteq> 0 \<Longrightarrow> snap_SaveSnap A (path_Join A baseDir ''snap'') s w = (Ok (), w') \<Longrightarrow>
        (opened h w \<longrightarrow> opened h w') \<and> view w' = (view w)\<lparr>lv_files := add_file s (lv_files (view w))\<rparr>"
    and fail_Save: "wal_Save A h st es w = (r, w') \<Longrightarrow> set (lv_marks (view w')) \<subseteq> set (lv_marks (view w)) \<and> lv_files (view w') = lv_files (view w)"
    and fail_Sync: "wal_Sync A h w = (r, w') \<Longrightarrow> set (lv_marks (view w')) \<subseteq> set (lv_marks (view w)) \<and> lv_files (view w') = lv_files (view w)"
    and fail_Release: "wal_ReleaseLockTo A h i w = (r, w') \<Longrightarrow> set (lv_marks (view w')) \<subseteq> set (lv_marks (view w)) \<and> lv_files (view w') = lv_files (view w)"
    and fail_SaveSnapshot: "wal_SaveSnapshot A h m w = (r, w') \<Longrightarrow> set (lv_marks (view w')) \<subseteq> insert m (set (lv_marks (view w)))
        \<and> lv_files (view w') = lv_files (view w)"
    and fail_SaveSnap: "snap_SaveSnap A (path_Join A baseDir ''snap'') s w = (r, w') \<Longrightarrow> lv_marks (view w') = lv_marks (view w) \<and>
        (\<forall>f \<in> set (lv_files (view w)). \<not> (snap_Term f = snap_Term s \<and> snap_Index f = snap_Index s) \<longrightarrow> f \<in> set (lv_files (view w')))
        \<and> (r = Ok () \<longrightarrow> snap_Index s \<noteq> 0 \<longrightarrow> s \<in> set (lv_files (view w')))"
    and Valid_view: "lv_exists (view w) \<Longrightarrow> dur w = view w \<Longrightarrow>
        \<exists>w'. wal_ValidSnapshotEntries A (path_Join A baseDir ''wal'') w = (Ok (valid_marks (view w)), w') \<and> view w' = view w \<and> dur w' = dur w"
    and LoadNewest_view: "\<exists>w'. snap_LoadNewestAvailable A (path_Join A baseDir ''snap'') ms w =
        (case newest_file (marked ms) (lv_files (view w)) of None \<Rightarrow> Err ErrNoSnapshot | Some s \<Rightarrow> Ok s, w')
        \<and> view w' = view w \<and> dur w' = dur w"
    and Open_view: "lv_exists (view w) \<Longrightarrow> dur w = view w \<Longrightarrow>
        \<exists>h w'. wal_Open A (path_Join A baseDir ''wal'') m w = (Ok h, w') \<and> reading h m w' \<and> view w' = view w \<and> dur w' = dur w"
    and ReadAll_view: "reading h m w \<Longrightarrow> \<exists>n \<in> set (lv_marks (view w)). ws_Index n = ws_Index m \<Longrightarrow>
        \<forall>n \<in> set (lv_marks (view w)). ws_Index n = ws_Index m \<longrightarrow> ws_Term n = ws_Term m \<Longrightarrow>
        replay (ws_Index m) [] (lv_entries (view w)) = Some es \<Longrightarrow>
        \<exists>w'. wal_ReadAll A h w = (Ok (lv_state (view w), es), w') \<and> opened h w' \<and> view w' = view w \<and> dur w' = dur w"

section \<open>A journal\<close>

text \<open>A log that is kept as its content, with a list of faults: the next write or flush fails with the error at its
  head.\<close>

record journal =
  j_view :: log_view
  j_dur :: log_view
  j_start :: "WalSnapshot option"
  j_faults :: "error option list"

definition j_op :: "(journal \<Rightarrow> journal) \<Rightarrow> (journal, unit) call" where
  "j_op f j =
     (case j_faults j of
        [] \<Rightarrow> (Ok (), f j)
      | None # fs \<Rightarrow> (Ok (), f (j\<lparr>j_faults := fs\<rparr>))
      | Some e # fs \<Rightarrow> (Err e, j\<lparr>j_faults := fs\<rparr>))"

definition j_update :: "(log_view \<Rightarrow> log_view) \<Rightarrow> journal \<Rightarrow> journal" where
  "j_update f j = j\<lparr>j_view := f (j_view j)\<rparr>"

definition j_flush :: "journal \<Rightarrow> journal" where
  "j_flush j = j\<lparr>j_dur := j_view j\<rparr>"

definition journal_api :: "(journal, unit) wal_api" where
  "journal_api =
     \<lparr> os_Stat = (\<lambda>p j. Ok True),
       os_MkdirAll = (\<lambda>p. retS ()),
       os_OpenFile = (\<lambda>p m. retS p),
       os_ReadDir = (\<lambda>p j. Ok []),
       os_RemoveAll = (\<lambda>p. retS ()),
       path_Join = (\<lambda>a b. a @ ''/'' @ b),
       wal_Exist = (\<lambda>p j. lv_exists (j_view j)),
       wal_Create = (\<lambda>p j. (Ok (), (j_flush (j_update (\<lambda>v. v\<lparr>lv_exists := True, lv_state := emptyHardState, lv_entries := [],
          lv_marks := [emptyWalSnapshot]\<rparr>) j))\<lparr>j_start := None\<rparr>)),
       wal_Open = (\<lambda>p m j. (Ok (), j\<lparr>j_start := Some m\<rparr>)),
       wal_ReadAll = (\<lambda>h j. case j_start j of
          None \<Rightarrow> (Err ErrDecoderNotFound, j)
        | Some m \<Rightarrow> (case replay (ws_Index m) [] (lv_entries (j_view j)) of
            None \<Rightarrow> (Err ErrSliceOutOfRange, j) | Some es \<Rightarrow> (Ok (lv_state (j_view j), es), j\<lparr>j_start := None\<rparr>))),
       wal_Save = (\<lambda>h st es. j_op (j_update (\<lambda>v. v\<lparr>lv_state := (if IsEmptyHardState st then lv_state v else st),
          lv_entries := lv_entries v @ es\<rparr>))),
       wal_SaveSnapshot = (\<lambda>h m. j_op (\<lambda>j. j_flush (j_update (\<lambda>v. v\<lparr>lv_marks := lv_marks v @ [m]\<rparr>) j))),
       wal_Sync = (\<lambda>h. j_op j_flush),
       wal_ReleaseLockTo = (\<lambda>h i. retS ()),
       wal_CloseLog = (\<lambda>h. j_op j_flush),
       wal_ValidSnapshotEntries = (\<lambda>p j. (Ok (valid_marks (j_view j)), j)),
       snap_SaveSnap = (\<lambda>p s. if snap_Index s = 0 then retS () else j_op (\<lambda>j.
          j\<lparr>j_view := (j_view j)\<lparr>lv_files := add_file s (lv_files (j_view j))\<rparr>,
            j_dur := (j_dur j)\<lparr>lv_files := add_file s (lv_files (j_view j))\<rparr>\<rparr>)),
       snap_Load = (\<lambda>p j. (case newest_file (\<lambda>_. True) (lv_files (j_view j)) of None \<Rightarrow> Err ErrNoSnapshot | Some s \<Rightarrow> Ok s, j)),
       snap_LoadNewestAvailable = (\<lambda>p ms j. (case newest_file (marked ms) (lv_files (j_view j)) of
          None \<Rightarrow> Err ErrNoSnapshot | Some s \<Rightarrow> Ok s, j)) \<rparr>"

definition j_durable :: "journal \<Rightarrow> log_view" where
  "j_durable j = (j_dur j)\<lparr>lv_marks := filter (\<lambda>m. m \<in> set (lv_marks (j_view j))) (lv_marks (j_dur j)),
     lv_files := lv_files (j_view j)\<rparr>"

definition j_crash :: "journal \<Rightarrow> journal" where
  "j_crash j = j\<lparr>j_view := j_durable j, j_dur := j_durable j, j_start := None\<rparr>"

lemmas journal_defs = journal_api_def j_op_def j_update_def j_flush_def j_durable_def j_crash_def retS_def

lemma j_op_cases:
  assumes "j_op f j = (r, j')"
  obtains fs where "r = Ok ()" and "j' = f (j\<lparr>j_faults := fs\<rparr>)"
    | fs e where "r = Err e" and "j' = j\<lparr>j_faults := fs\<rparr>"
  using assms by (auto simp: j_op_def split: list.splits option.splits) (metis surjective update_convs(4))+

interpretation jl: etcd_log journal_api baseDir j_view j_durable j_crash "\<lambda>h j. j_start j = None" "\<lambda>h m j. j_start j = Some m"
  for baseDir
  by unfold_locales
     (auto simp: journal_defs valid_marks_def add_file_def elim!: j_op_cases cong: conj_cong
        split: list.splits option.splits if_splits intro!: arg_cong [where f = "\<lambda>x. (_ :: log_view)\<lparr>lv_marks := x, lv_files := _\<rparr>"] filter_cong)

end
