(* ===== verification/Etcd_Snap.thy ===== *)
theory Etcd_Snap
  imports Os_Files Wal
begin

text \<open>
  The vendored snapshotter, \<^verbatim>\<open>etcdserver/api/snap/snapshotter.go\<close>: snapshots as files of one directory, named by term and index
  in hexadecimal, with a checksum. The encoding of a snapshot is the parameter \<open>raft_codec\<close>. The lemmas show that the
  contract \<open>etcd_log\<close> of theory \<open>Wal\<close> is right about the snapshot files.
\<close>

unbundle bit_operations_syntax

section \<open>Snapshot files\<close>

definition snapSuffix :: string where
  "snapSuffix = ''.snap''"

definition snap_fname :: "Snapshot \<Rightarrow> string" where
  "snap_fname s = fmt_016x (snap_Term s) @ ''-'' @ fmt_016x (snap_Index s) @ snapSuffix"

definition save :: "raft_codec \<Rightarrow> string \<Rightarrow> Snapshot \<Rightarrow> (os, unit) call" where
  "save C dir snapshot s =
     (let b = snap_Marshal C snapshot; crc = crc32_Update 0 b; spath = (dir, snap_fname snapshot) in
      case sf_Marshal \<lparr>sf_Crc = crc, sf_Data = Some b, sf_unrecognized = None\<rparr> of
        Err e \<Rightarrow> (Err e, s)
      | Panicked m \<Rightarrow> (Panicked m, s)
      | Ok d \<Rightarrow>
          (case WriteAndSyncFile spath d s of
             (Err e, s1) \<Rightarrow> (Err e, snd (os_Remove spath s1))
           | (r, s1) \<Rightarrow> (r, s1)))"

definition SaveSnap :: "raft_codec \<Rightarrow> string \<Rightarrow> Snapshot \<Rightarrow> (os, unit) call" where
  "SaveSnap C dir snapshot = (if IsEmptySnap snapshot then retS () else save C dir snapshot)"

definition snap_Read :: "raft_codec \<Rightarrow> path \<Rightarrow> (os, Snapshot) call" where
  "snap_Read C snapname =
     bindS (os_ReadFile snapname) (\<lambda>b.
     if b = [] then failS ErrEmptySnapshot
     else bindS (liftR (sf_Unmarshal b emptySnapFile)) (\<lambda>serializedSnap.
       case sf_Data serializedSnap of
         None \<Rightarrow> failS ErrEmptySnapshot
       | Some data \<Rightarrow>
           if data = [] \<or> sf_Crc serializedSnap = 0 then failS ErrEmptySnapshot
           else if crc32_Update 0 data \<noteq> sf_Crc serializedSnap then failS ErrCRCMismatch
           else liftR (snap_Unmarshal C data)))"

text \<open>A file that cannot be read is renamed out of the way; whether that succeeds is only logged.\<close>

definition loadSnap :: "raft_codec \<Rightarrow> string \<Rightarrow> string \<Rightarrow> (os, Snapshot) call" where
  "loadSnap C dir name s =
     (case snap_Read C (dir, name) s of
        (Err e, s1) \<Rightarrow> (Err e, snd (os_Rename (dir, name) (dir, name @ ''.broken'') s1))
      | (r, s1) \<Rightarrow> (r, s1))"

text \<open>\<^verbatim>\<open>db.tmp\<close> files left by a defragmentation are removed; a file that is gone already is not an error.\<close>

fun cleanupSnapdir :: "string \<Rightarrow> string list \<Rightarrow> (os, string list) call" where
  "cleanupSnapdir dir [] = retS []"
| "cleanupSnapdir dir (filename # filenames) =
     (if prefix ''db.tmp'' filename then
        (\<lambda>s. case os_Remove (dir, filename) s of
               (Err e, s1) \<Rightarrow> if e = ErrNotExist then cleanupSnapdir dir filenames s1 else (Err e, s1)
             | (Panicked m, s1) \<Rightarrow> (Panicked m, s1)
             | (Ok _, s1) \<Rightarrow> cleanupSnapdir dir filenames s1)
      else bindS (cleanupSnapdir dir filenames) (\<lambda>names. retS (filename # names)))"

definition checkSuffix :: "string list \<Rightarrow> string list" where
  "checkSuffix names = filter (suffix snapSuffix) names"

definition snapNames :: "string \<Rightarrow> (os, string list) call" where
  "snapNames dir =
     bindS (os_Readdirnames dir) (\<lambda>names.
     bindS (cleanupSnapdir dir names) (\<lambda>filenames.
     let snaps = checkSuffix filenames in
     if snaps = [] then failS ErrNoSnapshot else retS (rev (sort snaps))))"

fun loadMatching_loop :: "raft_codec \<Rightarrow> string \<Rightarrow> (Snapshot \<Rightarrow> bool) \<Rightarrow> string list \<Rightarrow> (os, Snapshot) call" where
  "loadMatching_loop C dir matchFn [] s = (Err ErrNoSnapshot, s)"
| "loadMatching_loop C dir matchFn (name # names) s =
     (case loadSnap C dir name s of
        (Ok snap, s1) \<Rightarrow> if matchFn snap then (Ok snap, s1) else loadMatching_loop C dir matchFn names s1
      | (Err e, s1) \<Rightarrow> loadMatching_loop C dir matchFn names s1
      | (Panicked m, s1) \<Rightarrow> (Panicked m, s1))"

definition loadMatching :: "raft_codec \<Rightarrow> string \<Rightarrow> (Snapshot \<Rightarrow> bool) \<Rightarrow> (os, Snapshot) call" where
  "loadMatching C dir matchFn = bindS (snapNames dir) (loadMatching_loop C dir matchFn)"

definition Load :: "raft_codec \<Rightarrow> string \<Rightarrow> (os, Snapshot) call" where
  "Load C dir = loadMatching C dir (\<lambda>_. True)"

definition LoadNewestAvailable :: "raft_codec \<Rightarrow> string \<Rightarrow> WalSnapshot list \<Rightarrow> (os, Snapshot) call" where
  "LoadNewestAvailable C dir walSnaps =
     loadMatching C dir (\<lambda>snap. list_ex (\<lambda>w. snap_Term snap = ws_Term w \<and> snap_Index snap = ws_Index w) (rev walSnaps))"

text \<open>\<^verbatim>\<open>strconv.ParseUint\<close> in base 16\<close>

definition ParseHex :: "string \<Rightarrow> u64 res" where
  "ParseHex cs =
     (if cs = [] \<or> list_ex (\<lambda>c. hex_value c = None) cs then Err (ErrText ''invalid syntax'')
      else let n = foldl (\<lambda>n c. 16 * n + the (hex_value c)) 0 cs in
        if n < 2 ^ 64 then Ok (of_nat n) else Err (ErrText ''value out of range''))"

definition dbSuffix :: string where
  "dbSuffix = ''.snap.db''"

fun ReleaseSnapDBs_loop :: "string \<Rightarrow> Snapshot \<Rightarrow> string list \<Rightarrow> (os, unit) call" where
  "ReleaseSnapDBs_loop dir snap [] s = (Ok (), s)"
| "ReleaseSnapDBs_loop dir snap (filename # filenames) s =
     (if suffix dbSuffix filename then
        (case ParseHex (take (length filename - length dbSuffix) filename) of
           Ok index \<Rightarrow>
             if index < snap_Index snap then ReleaseSnapDBs_loop dir snap filenames (snd (os_Remove (dir, filename) s))
             else ReleaseSnapDBs_loop dir snap filenames s
         | _ \<Rightarrow> ReleaseSnapDBs_loop dir snap filenames s)
      else ReleaseSnapDBs_loop dir snap filenames s)"

definition ReleaseSnapDBs :: "string \<Rightarrow> Snapshot \<Rightarrow> (os, unit) call" where
  "ReleaseSnapDBs dir snap = bindS (os_Readdirnames dir) (ReleaseSnapDBs_loop dir snap)"

section \<open>What a directory holds\<close>

definition snap_file :: "raft_codec \<Rightarrow> Snapshot \<Rightarrow> SnapFile" where
  "snap_file C x = \<lparr>sf_Crc = crc32_Update 0 (snap_Marshal C x), sf_Data = Some (snap_Marshal C x), sf_unrecognized = None\<rparr>"

text \<open>A snapshot that can be read back: its checksum is not zero, which \<^verbatim>\<open>Read\<close> takes for an empty file.\<close>

definition loadable :: "raft_codec \<Rightarrow> Snapshot \<Rightarrow> bool" where
  "loadable C x \<longleftrightarrow> snap_Index x \<noteq> 0 \<and> crc32_Update 0 (snap_Marshal C x) \<noteq> 0 \<and> sf_Size (snap_file C x) < maxInt"

text \<open>The snapshot files of a directory, in some order; files with other suffixes may lie beside them.\<close>

definition snap_dir :: "raft_codec \<Rightarrow> string \<Rightarrow> Snapshot list \<Rightarrow> os \<Rightarrow> bool" where
  "snap_dir C dir fs s \<longleftrightarrow>
     dir \<in> set (os_dirs s) \<and> distinct (map fst (os_files s)) \<and> (\<forall>i \<in> set (map snd (os_files s)). i < os_next s)
     \<and> distinct (map snd (os_files s))
     \<and> distinct (map snap_fname fs) \<and> (\<forall>f \<in> set fs. loadable C f)
     \<and> (\<forall>n \<in> set (names_in dir s). suffix snapSuffix n \<longrightarrow> n \<in> snap_fname ` set fs)
     \<and> (\<forall>f \<in> set fs. \<exists>i. map_of (os_files s) (dir, snap_fname f) = Some i \<and> os_data s i = sf_bytes (snap_file C f))"

fun save_all :: "raft_codec \<Rightarrow> string \<Rightarrow> Snapshot list \<Rightarrow> (os, unit) call" where
  "save_all C dir [] = retS ()"
| "save_all C dir (x # xs) = bindS (SaveSnap C dir x) (\<lambda>_. save_all C dir xs)"

definition fresh_os :: "string \<Rightarrow> os" where
  "fresh_os dir = \<lparr>os_dirs = [dir], os_files = [], os_data = (\<lambda>_. []), os_next = 0, os_fds = (\<lambda>_. None), os_nextfd = 0,
     os_disk = (\<lambda>_. []), os_entries = [], os_faults = []\<rparr>"

definition demo_snap :: "byte \<Rightarrow> u64 \<Rightarrow> Snapshot" where
  "demo_snap d i = \<lparr>snap_Data = [d], snap_ConfState = \<lparr>cs_Voters = [1], cs_Learners = []\<rparr>, snap_Index = i, snap_Term = 1\<rparr>"

definition marker_of :: "Snapshot \<Rightarrow> WalSnapshot" where
  "marker_of x = \<lparr>ws_Index = snap_Index x, ws_Term = snap_Term x, ws_ConfState = None, ws_unrecognized = None\<rparr>"

section \<open>Lemmas on saving\<close>

lemma syscall_OkD: "syscall f s = (Ok a, t) \<Longrightarrow> \<exists>fs. f (s\<lparr>os_faults := fs\<rparr>) = (Ok a, t)"
  by (auto elim: syscall_cases)

lemma WriteAndSyncFile_Ok:
  assumes "WriteAndSyncFile p data s = (Ok (), t)"
  shows "os_dirs t = os_dirs s \<and> (\<exists>i. os_data t = (os_data s)(i := data)
    \<and> (map_of (os_files s) p = Some i \<and> os_files t = os_files s \<and> os_next t = os_next s
       \<or> map_of (os_files s) p = None \<and> i = os_next s \<and> os_files t = os_files s @ [(p, i)] \<and> os_next t = Suc (os_next s)))"
proof -
  from assms obtain k u where c: "os_Create p True s = (Ok k, u)"
    and r: "(case bindS (os_Write k data) (\<lambda>n. if n < length data then failS (ErrText ''short write'') else os_Fsync k) u of
         (Panicked m, s1) \<Rightarrow> (Panicked m, s1)
       | (r, s1) \<Rightarrow> (case os_Close k s1 of (r1, s2) \<Rightarrow> (if r = Ok () then r1 else r, s2))) = (Ok (), t)"
    unfolding WriteAndSyncFile_def by (elim bindS_OkE)
  from r obtain v where v: "bindS (os_Write k data) (\<lambda>n. if n < length data then failS (ErrText ''short write'') else os_Fsync k) u = (Ok (), v)"
    and cl: "os_Close k v = (Ok (), t)"
    by (auto split: prod.splits res.splits if_splits)
  from v obtain n w where w: "os_Write k data u = (Ok n, w)" and f: "os_Fsync k w = (Ok (), v)"
    by (elim bindS_OkE) (auto simp: failS_def split: if_splits)
  have tv: "os_dirs t = os_dirs w" "os_data t = os_data w" "os_files t = os_files w" "os_next t = os_next w"
    using cl f unfolding os_Close_def os_Fsync_def with_fd_def by (auto dest!: syscall_OkD split: option.splits)
  from c obtain i where u: "os_fds u k = Some \<lparr>fd_path = p, fd_inode = i, fd_off = 0\<rparr>" "os_dirs u = os_dirs s"
      "os_data u = (os_data s)(i := [])"
      "map_of (os_files s) p = Some i \<and> os_files u = os_files s \<and> os_next u = os_next s
       \<or> map_of (os_files s) p = None \<and> i = os_next s \<and> os_files u = os_files s @ [(p, i)] \<and> os_next u = Suc (os_next s)"
    unfolding os_Create_def new_fd_def by (auto dest!: syscall_OkD split: option.splits if_splits)
  have "os_dirs w = os_dirs u" "os_data w = (os_data u)(i := data)" "os_files w = os_files u" "os_next w = os_next u"
    using w u(1,3) unfolding os_Write_def with_fd_def by (auto dest!: syscall_OkD simp: before_off_def)
  then show ?thesis using tv u by auto
qed

lemma fname_eq_iff: "snap_fname x = snap_fname y \<longleftrightarrow> snap_Term x = snap_Term y \<and> snap_Index x = snap_Index y"
proof -
  have "fmt_016x a @ r = fmt_016x b @ r' \<longleftrightarrow> a = b \<and> r = r'" for a b :: u64 and r r'
    by (simp add: append_eq_append_conv)
  then show ?thesis by (simp add: snap_fname_def)
qed

lemma fname_less_iff: "snap_fname x < snap_fname y \<longleftrightarrow> snap_Term x < snap_Term y \<or> snap_Term x = snap_Term y \<and> snap_Index x < snap_Index y"
  by (simp add: snap_fname_def append_less fmt_016x_less)

lemma fname_le_iff: "snap_fname x \<le> snap_fname y \<longleftrightarrow> older x y"
  by (auto simp: le_less fname_less_iff fname_eq_iff older_def)

lemma snap_dir_saved:
  assumes "snap_dir C dir fs s" and "save C dir x s = (Ok (), t)" and "loadable C x"
  shows "snap_dir C dir (add_file x fs) t"
proof -
  let ?p = "(dir, snap_fname x)" and ?d = "sf_bytes (snap_file C x)"
  have "WriteAndSyncFile ?p ?d s = (Ok (), t)"
    using assms(2) by (auto simp: save_def Let_def sf_Marshal_bytes snap_file_def split: prod.splits res.splits)
  from WriteAndSyncFile_Ok [OF this] obtain i where t: "os_dirs t = os_dirs s" "os_data t = (os_data s)(i := ?d)"
    and i: "map_of (os_files s) ?p = Some i \<and> os_files t = os_files s \<and> os_next t = os_next s
       \<or> map_of (os_files s) ?p = None \<and> i = os_next s \<and> os_files t = os_files s @ [(?p, i)] \<and> os_next t = Suc (os_next s)"
    by blast
  have new: "map_of (os_files t) ?p = Some i" and old: "q \<noteq> ?p \<Longrightarrow> map_of (os_files t) q = map_of (os_files s) q" for q
    using i by (auto simp: map_add_def split: option.splits)
  have other: "j \<noteq> i" if "map_of (os_files s) q = Some j" "q \<noteq> ?p" for q j
  proof
    assume "j = i"
    from i show False
    proof
      assume a: "map_of (os_files s) ?p = Some i \<and> os_files t = os_files s \<and> os_next t = os_next s"
      have "(q, i) \<in> set (os_files s)" "(?p, i) \<in> set (os_files s)" using that a \<open>j = i\<close> by (auto dest: map_of_SomeD)
      moreover have "distinct (map snd (os_files s))" using assms(1) by (simp add: snap_dir_def)
      ultimately show False using that(2) inj_onD [of snd "set (os_files s)" "(q, i)" "(?p, i)"] by (simp add: distinct_map)
    next
      assume "map_of (os_files s) ?p = None \<and> i = os_next s \<and> os_files t = os_files s @ [(?p, i)] \<and> os_next t = Suc (os_next s)"
      moreover have "i \<in> set (map snd (os_files s))" using that(1) \<open>j = i\<close> by (force dest: map_of_SomeD)
      ultimately show False using assms(1) by (auto simp: snap_dir_def)
    qed
  qed
  have names: "n \<in> snap_fname ` set (add_file x fs)" if n: "n \<in> set (names_in dir t)" "suffix snapSuffix n" for n
  proof (cases "n = snap_fname x")
    case False
    then have "n \<in> set (names_in dir s)" using i n(1) by (auto simp: names_in_def)
    then obtain f where "f \<in> set fs" "n = snap_fname f" using assms(1) n(2) by (auto simp: snap_dir_def)
    with False show ?thesis by (auto simp: add_file_def fname_eq_iff)
  qed (simp add: add_file_def)
  have "map_of (os_files t) (dir, snap_fname f) = map_of (os_files s) (dir, snap_fname f)
      \<and> (\<forall>j. map_of (os_files s) (dir, snap_fname f) = Some j \<longrightarrow> os_data t j = os_data s j)" if "snap_fname f \<noteq> snap_fname x" for f
    using that old other t(2) by auto
  then have files: "\<forall>f \<in> set (add_file x fs). \<exists>j. map_of (os_files t) (dir, snap_fname f) = Some j \<and> os_data t j = sf_bytes (snap_file C f)"
    using assms(1) new t(2) unfolding snap_dir_def add_file_def by (auto simp: fname_eq_iff) metis+
  show ?thesis
    unfolding snap_dir_def
  proof (intro conjI)
    have d: "distinct (map fst (os_files s))" "distinct (map snd (os_files s))" and b: "(q, j) \<in> set (os_files s) \<Longrightarrow> j < os_next s" for q j
      using assms(1) by (auto simp: snap_dir_def)
    show "distinct (map fst (os_files t))" using i d by (elim disjE conjE) (simp_all add: map_of_eq_None_iff)
    show "distinct (map snd (os_files t))" using i d by (elim disjE conjE) (auto dest: b)
    show "\<forall>j \<in> set (map snd (os_files t)). j < os_next t" using i by (elim disjE conjE) (auto dest: b)
    show "distinct (map snap_fname (add_file x fs))"
      using assms(1) by (auto simp: snap_dir_def add_file_def distinct_map fname_eq_iff inj_on_def)
    show "\<forall>n \<in> set (names_in dir t). suffix snapSuffix n \<longrightarrow> n \<in> snap_fname ` set (add_file x fs)" using names by blast
  qed (use assms files t(1) in \<open>auto simp: snap_dir_def add_file_def\<close>)
qed

section \<open>Lemmas on loading\<close>

lemma distinct_names_in:
  assumes "distinct (map fst (os_files s))"
  shows "distinct (names_in dir s)"
proof -
  have "distinct (map fst fs) \<Longrightarrow> distinct (map (snd \<circ> fst) (filter (\<lambda>(p, _). fst p = dir) fs))" for fs :: "(path \<times> nat) list"
    by (induction fs) (auto simp: image_iff)
  then show ?thesis using assms by (simp add: names_in_def)
qed

lemma snap_Read_file:
  assumes "raftpb C" and "loadable C x" and "os_faults s = []"
    and "map_of (os_files s) p = Some i" and "os_data s i = sf_bytes (snap_file C x)"
  shows "snap_Read C p s = (Ok x, s)"
proof -
  have u: "sf_Unmarshal (sf_bytes (snap_file C x)) emptySnapFile = Ok (snap_file C x)"
    using assms(2) by (intro sf_Unmarshal_bytes) (simp_all add: loadable_def snap_file_def)
  have "sf_bytes (snap_file C x) \<noteq> []" by (simp add: sf_bytes_def)
  then show ?thesis
    using assms u raftpb.snap_round_trip [OF assms(1)] raftpb.snap_not_empty [OF assms(1)]
    by (simp add: snap_Read_def os_ReadFile_def syscall_def call_simps loadable_def) (simp add: snap_file_def liftR_def)
qed

lemma fname_suffix: "suffix snapSuffix (snap_fname x)"
  by (simp add: snap_fname_def suffix_def)

lemma fname_not_tmp: "\<not> prefix ''db.tmp'' (snap_fname x)"
proof
  assume "prefix ''db.tmp'' (snap_fname x)"
  then obtain r where "snap_fname x = ''db.tmp'' @ r" by (auto simp: prefix_def)
  then have "snap_fname x ! 2 = CHR ''.''" by simp
  moreover have "snap_fname x ! 2 = fmt_016x (snap_Term x) ! 2" by (simp add: snap_fname_def nth_append)
  moreover have "fmt_016x (snap_Term x) ! 2 \<in> set (fmt_016x (snap_Term x))" by simp
  ultimately have "\<exists>a < 16. CHR ''.'' = hex_digit a" by (metis fmt_016x_def hexes_digits)
  then have "hex_value CHR ''.'' \<noteq> None" using hex_value_digit by fastforce
  then show False by (simp add: hex_value_def)
qed

lemma snap_dir_removed:
  assumes "snap_dir C dir fs s" and "prefix ''db.tmp'' n"
  shows "snap_dir C dir fs (s\<lparr>os_files := filter (\<lambda>(r, _). r \<noteq> (dir, n)) (os_files s)\<rparr>)"
proof -
  have "map_of (filter (\<lambda>(r, _). r \<noteq> (dir, n)) (os_files s)) (dir, snap_fname f) = map_of (os_files s) (dir, snap_fname f)" for f
    using assms(2) fname_not_tmp [of f] by (auto simp: map_of_filter_key)
  then show ?thesis using assms(1)
    by (auto simp: snap_dir_def names_in_def distinct_map_fst_filter distinct_map_filter)
qed

lemma cleanup_snap_dir:
  assumes "snap_dir C dir fs s" and "os_faults s = []"
  shows "\<exists>t. cleanupSnapdir dir ns s = (Ok (filter (\<lambda>n. \<not> prefix ''db.tmp'' n) ns), t) \<and> snap_dir C dir fs t \<and> os_faults t = []"
  using assms
proof (induction ns arbitrary: s)
  case (Cons n ns)
  show ?case
  proof (cases "prefix ''db.tmp'' n")
    case True
    let ?t = "if map_of (os_files s) (dir, n) = None then s else s\<lparr>os_files := filter (\<lambda>(r, _). r \<noteq> (dir, n)) (os_files s)\<rparr>"
    have "os_Remove (dir, n) s = (if map_of (os_files s) (dir, n) = None then Err ErrNotExist else Ok (), ?t)"
      using Cons.prems(2) by (simp add: os_Remove_def syscall_def split: option.split)
    moreover have "snap_dir C dir fs ?t" "os_faults ?t = []" using snap_dir_removed [OF Cons.prems(1) True] Cons.prems by simp_all
    moreover from Cons.IH [OF this] obtain t where "cleanupSnapdir dir ns ?t = (Ok (filter (\<lambda>n. \<not> prefix ''db.tmp'' n) ns), t)"
        "snap_dir C dir fs t" "os_faults t = []"
      by blast
    ultimately show ?thesis using True by (auto split: if_splits)
  next
    case False
    with Cons.IH [OF Cons.prems] show ?thesis by (auto simp: call_simps)
  qed
qed (simp add: call_simps)

lemma loop_finds:
  assumes "raftpb C" and "os_faults s = []"
    and "\<forall>f \<in> set fs. loadable C f \<and> (\<exists>i. map_of (os_files s) (dir, snap_fname f) = Some i \<and> os_data s i = sf_bytes (snap_file C f))"
  shows "loadMatching_loop C dir P (map snap_fname fs) s = (case find P fs of None \<Rightarrow> Err ErrNoSnapshot | Some f \<Rightarrow> Ok f, s)"
  using assms(3)
proof (induction fs)
  case (Cons f fs)
  then obtain i where "snap_Read C (dir, snap_fname f) s = (Ok f, s)" using snap_Read_file [OF assms(1) _ assms(2)] by force
  then show ?case using Cons by (simp add: loadSnap_def)
qed simp

text \<open>The first match in the order of descending names is the newest file.\<close>

lemma find_sorted:
  assumes "sorted_wrt (\<lambda>a b. older b a) gs" and "set gs = set fs" and "distinct (map snap_fname fs)"
  shows "find P gs = newest_file P fs"
proof (cases "find P gs")
  case None
  then show ?thesis using assms(2) newest_file_None_iff [of P fs] by (auto simp: find_None_iff)
next
  case (Some g)
  then obtain i where i: "i < length gs" "P (gs ! i)" "g = gs ! i" "\<forall>j < i. \<not> P (gs ! j)" by (auto simp: find_Some_iff)
  have g: "g \<in> set fs" "P g" using i assms(2) by auto
  have older: "older f g" if f: "f \<in> set fs" "P f" for f
  proof -
    from f(1) assms(2) obtain j where j: "j < length gs" "f = gs ! j" by (metis in_set_conv_nth)
    with i f(2) have "i \<le> j" by (meson not_le_imp_less)
    then show ?thesis using assms(1) i j by (cases "i = j") (auto simp: sorted_wrt_iff_nth_less older_def)
  qed
  obtain h where h: "newest_file P fs = Some h" using newest_file_None_iff [of P fs] g by fastforce
  from newest_file_SomeD [OF h] g older have "older g h" "older h g" "h \<in> set fs" by auto
  then have "snap_fname g = snap_fname h" by (auto simp: fname_eq_iff older_def)
  with assms(3) g(1) \<open>h \<in> set fs\<close> have "g = h" by (auto simp: distinct_map dest: inj_onD)
  then show ?thesis using Some h by simp
qed

lemma loads_newest:
  assumes "raftpb C" and "snap_dir C dir fs s" and "os_faults s = []"
  shows "\<exists>t. loadMatching C dir P s = (case newest_file P fs of None \<Rightarrow> Err ErrNoSnapshot | Some f \<Rightarrow> Ok f, t) \<and> snap_dir C dir fs t"
proof -
  let ?ns = "filter (\<lambda>n. \<not> prefix ''db.tmp'' n) (names_in dir s)"
  obtain t where t: "cleanupSnapdir dir (names_in dir s) s = (Ok ?ns, t)" "snap_dir C dir fs t" "os_faults t = []"
    using cleanup_snap_dir [OF assms(2,3)] by blast
  have r: "os_Readdirnames dir s = (Ok (names_in dir s), s)"
    using assms(2,3) by (simp add: os_Readdirnames_def os_OpenDir_def syscall_def call_simps snap_dir_def)
  let ?snaps = "checkSuffix ?ns" and ?gs = "rev (sort_key snap_fname fs)"
  have in_names: "snap_fname f \<in> set (names_in dir s)" if "f \<in> set fs" for f
    using assms(2) that unfolding snap_dir_def names_in_def by (force dest: map_of_SomeD)
  have "set ?snaps = snap_fname ` set fs"
    using assms(2) in_names fname_suffix fname_not_tmp by (auto simp: checkSuffix_def snap_dir_def)
  moreover have "distinct ?snaps"
    using assms(2) distinct_names_in [of s dir] by (simp add: checkSuffix_def snap_dir_def)
  ultimately have "sort ?snaps = map snap_fname (sort_key snap_fname fs)"
    using assms(2) by (intro sorted_distinct_set_unique) (auto simp: snap_dir_def distinct_map)
  then have names: "rev (sort ?snaps) = map snap_fname ?gs" by (simp add: rev_map)
  show ?thesis
  proof (cases "fs = []")
    case True
    with \<open>set ?snaps = snap_fname ` set fs\<close> have "?snaps = []" by simp
    then show ?thesis using r t True by (simp add: loadMatching_def snapNames_def call_simps)
  next
    case False
    with \<open>set ?snaps = snap_fname ` set fs\<close> have "?snaps \<noteq> []" by auto
    have "sorted_wrt (\<lambda>a b. older b a) ?gs"
      using sorted_sort_key [of snap_fname fs] by (simp add: sorted_wrt_rev sorted_map fname_le_iff)
    then have find: "find P ?gs = newest_file P fs" using assms(2) by (intro find_sorted) (simp_all add: snap_dir_def)
    have "loadMatching_loop C dir P (map snap_fname ?gs) t = (case find P ?gs of None \<Rightarrow> Err ErrNoSnapshot | Some f \<Rightarrow> Ok f, t)"
      using t(2) by (intro loop_finds assms(1) t(3)) (auto simp: snap_dir_def)
    then show ?thesis using r t \<open>?snaps \<noteq> []\<close> names find
      by (simp add: loadMatching_def snapNames_def call_simps Let_def)
  qed
qed

lemma saved_all:
  assumes "snap_dir C dir fs s" and "save_all C dir xs s = (Ok (), t)" and "\<forall>x \<in> set xs. loadable C x"
  shows "snap_dir C dir (foldl (\<lambda>fs x. add_file x fs) fs xs) t"
  using assms
proof (induction xs arbitrary: fs s)
  case (Cons x xs)
  then obtain u where "save C dir x s = (Ok (), u)" "save_all C dir xs u = (Ok (), t)"
    by (auto simp: bindS_Ok_iff SaveSnap_def IsEmptySnap_def loadable_def)
  with Cons snap_dir_saved [of C dir fs s x u] show ?case by simp
qed (simp add: call_simps)

lemma save_succeeds:
  assumes "dir \<in> set (os_dirs s)" and "os_faults s = []"
  shows "\<exists>t. save C dir x s = (Ok (), t) \<and> os_dirs t = os_dirs s \<and> os_faults t = []"
  using assms
  by (cases "map_of (os_files s) (dir, snap_fname x)")
     (simp_all add: save_def Let_def sf_Marshal_bytes WriteAndSyncFile_def os_Create_def new_fd_def os_Write_def os_Fsync_def
        os_Close_def with_fd_def syscall_def call_simps)

lemma save_all_succeeds:
  assumes "dir \<in> set (os_dirs s)" and "os_faults s = []"
  shows "\<exists>t. save_all C dir xs s = (Ok (), t) \<and> os_faults t = []"
  using assms
proof (induction xs arbitrary: s)
  case (Cons x xs)
  then obtain u where "SaveSnap C dir x s = (Ok (), u)" "os_dirs u = os_dirs s" "os_faults u = []"
    using save_succeeds [of dir s C x] by (cases "IsEmptySnap x") (auto simp: SaveSnap_def retS_def)
  with Cons.IH [of u] Cons.prems show ?case by (auto simp: bindS_def)
qed (simp add: call_simps)

text \<open>The checksum tells messages apart that differ in their last byte only, so that at most one of them has checksum zero.\<close>

lemma crc_step_inj: "crc_step c = crc_step c' \<Longrightarrow> c = c'"
proof (rule bit_word_eqI)
  fix i :: nat assume eq: "crc_step c = crc_step c'" and i: "i < LENGTH(32)"
  have b: "bit (crc_step c) n \<longleftrightarrow> (bit c (Suc n) \<noteq> (bit c 0 \<and> bit (0x82F63B78 :: u32) n))" if "n < 32" for n and c :: u32
    using that by (auto simp: crc_step_def bit_simps)
  have "bit c 32 = False" "bit c' 32 = False" by (auto dest: bit_imp_le_length)
  moreover have "bit (0x82F63B78 :: u32) 31" by simp
  ultimately have 0: "bit c 0 = bit c' 0" using eq b [of 31 c] b [of 31 c'] by simp
  show "bit c i = bit c' i"
  proof (cases i)
    case (Suc j)
    then show ?thesis using eq b [of j c] b [of j c'] 0 i by auto
  qed (simp add: 0)
qed

lemma crc_last_byte: "crc32_Update 0 (p @ [a]) = crc32_Update 0 (p @ [b]) \<Longrightarrow> a = b"
proof -
  assume "crc32_Update 0 (p @ [a]) = crc32_Update 0 (p @ [b])"
  then have "crc_byte (foldl crc_byte (NOT 0) p) a = crc_byte (foldl crc_byte (NOT 0) p) b"
    unfolding crc32_Update_def by (simp only: bit.compl_eq_compl_iff foldl_append foldl.simps)
  moreover have "(crc_step ^^ n) c = (crc_step ^^ n) c' \<Longrightarrow> c = c'" for n c c'
    by (induction n) (auto dest: crc_step_inj)
  ultimately have "foldl crc_byte (NOT 0) p XOR ucast a = foldl crc_byte (NOT 0) p XOR (ucast b :: u32)"
    unfolding crc_byte_def by blast
  then have "(ucast a :: u32) = ucast b" by (metis bit.xor_left_self)
  then have "ucast (ucast a :: u32) = (ucast (ucast b :: u32) :: byte)" by simp
  moreover have "ucast (ucast x :: u32) = x" for x :: byte by (rule bit_word_eqI) (simp add: bit_simps)
  ultimately show "a = b" by simp
qed

section \<open>Properties\<close>

text \<open>C14: the snapshotter gives back the newest snapshot that the log knows. After snapshots have been saved into a
  directory, each replacing an older file of the same term and index, \<^verbatim>\<open>LoadNewestAvailable\<close> returns the one
  with the greatest term and index among those with a marker, byte for byte as it was saved, or \<^verbatim>\<open>ErrNoSnapshot\<close>.\<close>

theorem snapshots_load_newest:
  assumes "raftpb C" and "snap_dir C dir fs s0" and "\<forall>x \<in> set xs. loadable C x"
    and "save_all C dir xs s0 = (Ok (), s)" and "os_faults s = []"
  shows "fst (LoadNewestAvailable C dir ms s) =
    (case newest_file (marked ms) (foldl (\<lambda>fs x. add_file x fs) fs xs) of None \<Rightarrow> Err ErrNoSnapshot | Some x \<Rightarrow> Ok x)"
proof -
  have "(\<lambda>snap. list_ex (\<lambda>w. snap_Term snap = ws_Term w \<and> snap_Index snap = ws_Index w) (rev ms)) = marked ms"
    by (auto simp: fun_eq_iff marked_def list_ex_iff) metis+
  then show ?thesis
    using loads_newest [OF assms(1) saved_all [OF assms(2,4,3)] assms(5), of "marked ms"]
    by (auto simp: LoadNewestAvailable_def)
qed

theorem snapshots_load_newest_witness:
  "\<exists>d \<in> {7, 8, 9}. fst (LoadNewestAvailable word_codec ''snap'' [marker_of (demo_snap d 4), marker_of (demo_snap d 9)]
     (snd (save_all word_codec ''snap'' [demo_snap d 4, demo_snap d 8] (fresh_os ''snap'')))) = Ok (demo_snap d 4)"
proof -
  define p :: "u64 \<Rightarrow> bytes" where "p i = enc_words [i, 1, 1, 0, 1, 0] @ [0, 0, 0, 0, 0, 0, 0]" for i
  have m: "snap_Marshal word_codec (demo_snap d i) = p i @ [d]" if "d \<in> {7, 8, 9}" for d i
    using that by (auto simp: p_def word_codec_def demo_snap_def enc_words_def enc_list_def Uint64ToBytes_def)
  have "\<exists>d \<in> {7, 8, 9}. crc32_Update 0 (p 4 @ [d]) \<noteq> 0 \<and> crc32_Update 0 (p 8 @ [d]) \<noteq> 0"
    using crc_last_byte [of "p 4" 7 8] crc_last_byte [of "p 4" 7 9] crc_last_byte [of "p 4" 8 9]
      crc_last_byte [of "p 8" 7 8] crc_last_byte [of "p 8" 7 9] crc_last_byte [of "p 8" 8 9] by fastforce
  then obtain d where d: "d \<in> {7, 8, 9}" "crc32_Update 0 (p 4 @ [d]) \<noteq> 0" "crc32_Update 0 (p 8 @ [d]) \<noteq> 0" by blast
  have "loadable word_codec (demo_snap d i)" if "i \<noteq> 0" "crc32_Update 0 (p i @ [d]) \<noteq> 0" for i
  proof -
    have "length (p i @ [d]) = 56" by (simp add: p_def enc_words_def)
    then show ?thesis
      using that m [OF d(1), of i] sov_le [of "ucast (crc32_Update 0 (p i @ [d]))"] sov_le [of 56]
      by (simp add: loadable_def snap_file_def sf_Size_def sized_field_def opt_len_def maxInt_def) (simp add: demo_snap_def)
  qed
  with d have l: "\<forall>x \<in> set [demo_snap d 4, demo_snap d 8]. loadable word_codec x" by simp
  obtain s where s: "save_all word_codec ''snap'' [demo_snap d 4, demo_snap d 8] (fresh_os ''snap'') = (Ok (), s)" "os_faults s = []"
    using save_all_succeeds [of "''snap''" "fresh_os ''snap''" word_codec "[demo_snap d 4, demo_snap d 8]"]
    by (auto simp: fresh_os_def simp del: save_all.simps)
  have dir: "snap_dir word_codec ''snap'' [] (fresh_os ''snap'')" by (simp add: snap_dir_def fresh_os_def names_in_def)
  have "newest_file (marked [marker_of (demo_snap d 4), marker_of (demo_snap d 9)])
      (foldl (\<lambda>fs x. add_file x fs) [] [demo_snap d 4, demo_snap d 8]) = Some (demo_snap d 4)"
    by (simp add: marked_def marker_of_def demo_snap_def add_file_def)
  then show ?thesis
    using snapshots_load_newest [OF wc.raftpb_axioms dir l s, of "[marker_of (demo_snap d 4), marker_of (demo_snap d 9)]"] s d(1) by auto
qed

end
