(* ===== verification/Badger_Api.thy ===== *)
theory Badger_Api
  imports Prelude
begin

text \<open>
  BadgerDB, the embedded store the program writes to, as far as the program calls it. It is library
  code: its operations are the record \<open>badger_api\<close>, on a database of type \<open>'d\<close> and transactions of
  type \<open>'t\<close>. The locale \<open>badger\<close> states the documented behaviour the program relies on, by a
  specification of multi-version storage: a database is the list of the versions written to it, and a
  transaction is the snapshot it reads with the writes it has buffered. \<open>mem_badger\<close> is an instance
  held in memory. Entries with a time to live are outside the contract.
\<close>

section \<open>The operations\<close>

text \<open>An \<^verbatim>\<open>Item\<close>: its key and the outcome of \<^verbatim>\<open>ValueCopy\<close>.\<close>

record item =
  item_Key :: key
  item_ValueCopy :: "bytes res"

text \<open>\<open>bd_ViewTxn\<close> and \<open>bd_UpdateTxn\<close> give the transaction that \<^verbatim>\<open>View\<close> and \<^verbatim>\<open>Update\<close> pass to their
  argument. \<open>bt_Items\<close> are the items an iterator opened now walks through, \<open>bt_Item\<close> is the record
  that \<^verbatim>\<open>Item()\<close> leaves in the transaction of having read a key.\<close>

record ('d, 't) badger_api =
  bd_ViewTxn :: "'d \<Rightarrow> 't res"
  bd_UpdateTxn :: "'d \<Rightarrow> 't res"
  bd_NewTransaction :: "bool \<Rightarrow> 'd \<Rightarrow> 't res"
  bd_NewTransactionAt :: "u64 \<Rightarrow> bool \<Rightarrow> 'd \<Rightarrow> 't res"
  bt_Get :: "key \<Rightarrow> ('t, item) call"
  bt_Items :: "'t \<Rightarrow> item list"
  bt_Item :: "key \<Rightarrow> 't \<Rightarrow> 't"
  bt_SetEntry :: "key \<Rightarrow> bytes \<Rightarrow> int option \<Rightarrow> ('t, unit) call"
  bt_Delete :: "key \<Rightarrow> ('t, unit) call"
  bt_Commit :: "'t \<Rightarrow> ('d, unit) call"
  bt_CommitAt :: "u64 \<Rightarrow> 't \<Rightarrow> ('d, unit) call"
  bt_Discard :: "'t \<Rightarrow> 'd \<Rightarrow> 'd"

text \<open>\<^verbatim>\<open>View\<close> and \<^verbatim>\<open>Update\<close>: the error of the function is passed on; \<^verbatim>\<open>Update\<close> commits when there is
  none.\<close>

definition bd_View :: "('d, 't) badger_api \<Rightarrow> ('t, 'a) call \<Rightarrow> 'd \<Rightarrow> 'a res" where
  "bd_View B fn d = bindR (bd_ViewTxn B d) (\<lambda>t. fst (fn t))"

definition bd_Update :: "('d, 't) badger_api \<Rightarrow> ('t, unit) call \<Rightarrow> ('d, unit) call" where
  "bd_Update B fn d =
     (case bd_UpdateTxn B d of
        Ok t \<Rightarrow>
          (case fn t of
             (Ok _, t') \<Rightarrow> bt_Commit B t' d
           | (Err e, t') \<Rightarrow> (Err e, bt_Discard B t' d)
           | (Panicked p, t') \<Rightarrow> (Panicked p, bt_Discard B t' d))
      | Err e \<Rightarrow> (Err e, d)
      | Panicked p \<Rightarrow> (Panicked p, d))"

section \<open>Multi-version storage\<close>

text \<open>The versions written, the most recently applied first; \<^const>\<open>None\<close> is a deletion.\<close>

type_synonym mvcc = "(u64 \<times> key \<times> bytes option) list"

fun newest :: "mvcc \<Rightarrow> u64 \<Rightarrow> key \<Rightarrow> (u64 \<times> bytes option) option" where
  "newest [] ts k = None"
| "newest ((t, k', v) # m) ts k =
     (case newest m ts k of
        None \<Rightarrow> if k' = k \<and> t \<le> ts then Some (t, v) else None
      | Some (t', v') \<Rightarrow> if k' = k \<and> t \<le> ts \<and> t' \<le> t then Some (t, v) else Some (t', v'))"

definition mvcc_at :: "mvcc \<Rightarrow> u64 \<Rightarrow> key \<rightharpoonup> bytes" where
  "mvcc_at m ts k = (case newest m ts k of Some (_, Some v) \<Rightarrow> Some v | _ \<Rightarrow> None)"

text \<open>A transaction: the snapshot, the buffered writes (the latest first), the keys read, the
  timestamp and the flag it was opened with.\<close>

record mtxn =
  mt_snap :: "key \<rightharpoonup> bytes"
  mt_pending :: "(key \<times> bytes option) list"
  mt_reads :: "key set"
  mt_readTs :: u64
  mt_update :: bool

definition mt_view :: "mtxn \<Rightarrow> key \<rightharpoonup> bytes" where
  "mt_view m k = (case map_of (mt_pending m) k of Some w \<Rightarrow> w | None \<Rightarrow> mt_snap m k)"

definition mt_write :: "key \<Rightarrow> bytes option \<Rightarrow> mtxn \<Rightarrow> mtxn" where
  "mt_write k w m = m\<lparr>mt_pending := (k, w) # mt_pending m\<rparr>"

definition mt_read :: "key \<Rightarrow> mtxn \<Rightarrow> mtxn" where
  "mt_read k m = (if mt_update m then m\<lparr>mt_reads := insert k (mt_reads m)\<rparr> else m)"

definition stamp_writes :: "u64 \<Rightarrow> mtxn \<Rightarrow> mvcc" where
  "stamp_writes cts m = map (Pair cts) (mt_pending m)"

definition mt_conflict :: "mtxn \<Rightarrow> mvcc \<Rightarrow> bool" where
  "mt_conflict m h \<longleftrightarrow> (\<exists>(t, k, w) \<in> set h. mt_readTs m < t \<and> k \<in> mt_reads m)"

section \<open>The contract\<close>

text \<open>\<open>vers d\<close> are the versions of a database and \<open>txn t\<close> the specification of a transaction. BadgerDB
  bounds the size of a transaction: \<open>fits t ws\<close> tells that \<open>t\<close> takes the further writes \<open>ws\<close>, and
  \<open>cap ws\<close> that a new transaction does. A conflict is reported only when a key the transaction has
  read has a version above its timestamp.\<close>

locale badger =
  fixes B :: "('d, 't) badger_api"
    and managed :: bool
    and vers :: "'d \<Rightarrow> mvcc"
    and txn :: "'t \<Rightarrow> mtxn"
    and fits :: "'t \<Rightarrow> (key \<times> bytes option) list \<Rightarrow> bool"
    and cap :: "(key \<times> bytes option) list \<Rightarrow> bool"
  assumes ViewTxn: "\<exists>t. bd_ViewTxn B d = Ok t \<and> mt_snap (txn t) = mvcc_at (vers d) MaxUint64
        \<and> mt_pending (txn t) = [] \<and> \<not> mt_update (txn t)"
    and UpdateTxn: "\<not> managed \<Longrightarrow> \<exists>t. bd_UpdateTxn B d = Ok t \<and> mt_snap (txn t) = mvcc_at (vers d) MaxUint64
        \<and> mt_pending (txn t) = [] \<and> mt_update (txn t) \<and> (\<forall>(t0, _) \<in> set (vers d). t0 \<le> mt_readTs (txn t))
        \<and> (\<forall>ws. cap ws \<longrightarrow> fits t ws)"
    and NewTransaction: "\<not> managed \<Longrightarrow> bd_NewTransaction B True d = bd_UpdateTxn B d"
    and NewTransactionAt: "managed \<Longrightarrow> \<exists>t. bd_NewTransactionAt B ts upd d = Ok t
        \<and> txn t = \<lparr>mt_snap = mvcc_at (vers d) ts, mt_pending = [], mt_reads = {}, mt_readTs = ts, mt_update = upd\<rparr>
        \<and> (\<forall>ws. cap ws \<longrightarrow> fits t ws)"
    and Get_found: "k \<noteq> [] \<Longrightarrow> mt_view (txn t) k = Some b \<Longrightarrow>
        \<exists>t'. bt_Get B k t = (Ok \<lparr>item_Key = k, item_ValueCopy = Ok b\<rparr>, t') \<and> txn t' = mt_read k (txn t)
          \<and> fits t' = fits t"
    and Get_absent: "k \<noteq> [] \<Longrightarrow> mt_view (txn t) k = None \<Longrightarrow>
        \<exists>t'. bt_Get B k t = (Err ErrKeyNotFound, t') \<and> txn t' = mt_read k (txn t) \<and> fits t' = fits t"
    and Get_empty: "bt_Get B [] t = (Err ErrEmptyKey, t)"
    and Items_sorted: "sorted (map item_Key (bt_Items B t)) \<and> distinct (map item_Key (bt_Items B t))"
    and Items_view: "i \<in> set (bt_Items B t) \<longleftrightarrow> item_Key i \<noteq> [] \<and>
        (\<exists>b. item_ValueCopy i = Ok b \<and> mt_view (txn t) (item_Key i) = Some b)"
    and Item_read: "txn (bt_Item B k t) = mt_read k (txn t)" "fits (bt_Item B k t) = fits t"
    and SetEntry: "mt_update (txn t) \<Longrightarrow> fits t ((k, Some b) # ws) \<Longrightarrow> k \<noteq> [] \<Longrightarrow>
        \<exists>t'. bt_SetEntry B k b None t = (Ok (), t') \<and> txn t' = mt_write k (Some b) (txn t) \<and> fits t' ws"
    and SetEntry_empty: "mt_update (txn t) \<Longrightarrow> bt_SetEntry B [] b ttl t = (Err ErrEmptyKey, t)"
    and Delete: "mt_update (txn t) \<Longrightarrow> fits t ((k, None) # ws) \<Longrightarrow> k \<noteq> [] \<Longrightarrow>
        \<exists>t'. bt_Delete B k t = (Ok (), t') \<and> txn t' = mt_write k None (txn t) \<and> fits t' ws"
    and Delete_empty: "mt_update (txn t) \<Longrightarrow> bt_Delete B [] t = (Err ErrEmptyKey, t)"
    and Commit: "\<not> managed \<Longrightarrow> mt_update (txn t) \<Longrightarrow> \<not> mt_conflict (txn t) (vers d) \<Longrightarrow>
        \<exists>d' cts. bt_Commit B t d = (Ok (), d') \<and> vers d' = stamp_writes cts (txn t) @ vers d
          \<and> (\<forall>(t0, _) \<in> set (vers d). t0 \<le> cts)"
    and CommitAt: "managed \<Longrightarrow> mt_update (txn t) \<Longrightarrow> \<not> mt_conflict (txn t) (vers d) \<Longrightarrow> cts \<noteq> 0 \<Longrightarrow>
        \<exists>d'. bt_CommitAt B cts t d = (Ok (), d') \<and> vers d' = stamp_writes cts (txn t) @ vers d"
    and CommitAt_outcome: "managed \<Longrightarrow> bt_CommitAt B cts t d = (r, d') \<Longrightarrow>
        r = Ok () \<and> vers d' = stamp_writes cts (txn t) @ vers d \<or> r \<noteq> Ok () \<and> vers d' = vers d"
    and Discard: "vers (bt_Discard B t d) = vers d"

section \<open>An instance in memory\<close>

text \<open>The database is the list of versions itself; a transaction keeps the list it was opened on.\<close>

record mem_txn =
  mm_hist :: mvcc
  mm_readTs :: u64
  mm_pending :: "(key \<times> bytes option) list"
  mm_reads :: "key set"
  mm_update :: bool

definition mem_spec :: "mem_txn \<Rightarrow> mtxn" where
  "mem_spec t = \<lparr>mt_snap = mvcc_at (mm_hist t) (mm_readTs t), mt_pending = mm_pending t, mt_reads = mm_reads t,
     mt_readTs = mm_readTs t, mt_update = mm_update t\<rparr>"

definition mem_open :: "u64 \<Rightarrow> bool \<Rightarrow> mvcc \<Rightarrow> mem_txn" where
  "mem_open ts upd h = \<lparr>mm_hist = h, mm_readTs = ts, mm_pending = [], mm_reads = {}, mm_update = upd\<rparr>"

definition mem_latest :: "mvcc \<Rightarrow> u64" where
  "mem_latest h = fold (\<lambda>(t, _) m. max t m) h 0"

definition mem_items :: "mem_txn \<Rightarrow> item list" where
  "mem_items t =
     map (\<lambda>k. \<lparr>item_Key = k, item_ValueCopy = (case mt_view (mem_spec t) k of Some b \<Rightarrow> Ok b | None \<Rightarrow> Err ErrKeyNotFound)\<rparr>)
       (filter (\<lambda>k. k \<noteq> [] \<and> mt_view (mem_spec t) k \<noteq> None)
          (sort (remdups (map fst (mm_pending t) @ map (\<lambda>(_, k, _). k) (mm_hist t)))))"

definition mem_read :: "key \<Rightarrow> mem_txn \<Rightarrow> mem_txn" where
  "mem_read k t = (if mm_update t then t\<lparr>mm_reads := insert k (mm_reads t)\<rparr> else t)"

definition mem_get :: "key \<Rightarrow> (mem_txn, item) call" where
  "mem_get k t =
     (if k = [] then (Err ErrEmptyKey, t)
      else case mt_view (mem_spec t) k of
             Some b \<Rightarrow> (Ok \<lparr>item_Key = k, item_ValueCopy = Ok b\<rparr>, mem_read k t)
           | None \<Rightarrow> (Err ErrKeyNotFound, mem_read k t))"

definition mem_write :: "key \<Rightarrow> bytes option \<Rightarrow> (mem_txn, unit) call" where
  "mem_write k w t =
     (if \<not> mm_update t then (Err ErrReadOnlyTxn, t)
      else if k = [] then (Err ErrEmptyKey, t)
      else (Ok (), t\<lparr>mm_pending := (k, w) # mm_pending t\<rparr>))"

definition mem_commit :: "u64 \<Rightarrow> mem_txn \<Rightarrow> (mvcc, unit) call" where
  "mem_commit cts t h =
     (if mt_conflict (mem_spec t) h then (Err ErrConflict, h)
      else (Ok (), stamp_writes cts (mem_spec t) @ h))"

definition mem_badger :: "bool \<Rightarrow> (mvcc, mem_txn) badger_api" where
  "mem_badger managed =
     \<lparr> bd_ViewTxn = (\<lambda>h. Ok (mem_open MaxUint64 False h)),
       bd_UpdateTxn = (\<lambda>h. if managed then Panicked ''Update can only be used with managedDB=false.''
                           else Ok (mem_open MaxUint64 True h)),
       bd_NewTransaction = (\<lambda>upd h. Ok (mem_open MaxUint64 upd h)),
       bd_NewTransactionAt = (\<lambda>ts upd h. if managed then Ok (mem_open ts upd h)
                                else Panicked ''Cannot use transactions with managedDB=false.''),
       bt_Get = mem_get, bt_Items = mem_items,
       bt_Item = mem_read,
       bt_SetEntry = (\<lambda>k b ttl. mem_write k (Some b)), bt_Delete = (\<lambda>k. mem_write k None),
       bt_Commit = (\<lambda>t h. mem_commit (mem_latest h) t h), bt_CommitAt = mem_commit,
       bt_Discard = (\<lambda>t h. h) \<rparr>"

section \<open>Lemmas on versions\<close>

lemma newest_append_older:
  assumes "\<forall>(t0, _) \<in> set m. t0 \<le> cts"
  shows "newest (map (Pair cts) ws @ m) ts k =
    (case map_of ws k of
       Some w \<Rightarrow> if cts \<le> ts then Some (cts, w) else newest m ts k
     | None \<Rightarrow> newest m ts k)"
proof -
  have newest_le: "newest m ts k = Some (t', v') \<Longrightarrow> t' \<le> cts" for t' v'
    using assms by (induction m) (auto split: option.splits if_splits prod.splits)
  show ?thesis
    by (induction ws) (auto split: option.splits dest: newest_le)
qed

lemma mvcc_at_append:
  assumes "\<forall>(t0, _) \<in> set m. t0 \<le> cts" and "cts \<le> ts"
  shows "mvcc_at (stamp_writes cts t @ m) ts k =
    (case map_of (mt_pending t) k of Some w \<Rightarrow> w | None \<Rightarrow> mvcc_at m ts k)"
  using assms(2) by (auto simp: mvcc_at_def stamp_writes_def newest_append_older [OF assms(1)] split: option.splits)

lemma newest_mem: "newest m ts k = Some (t, v) \<Longrightarrow> (t, k, v) \<in> set m \<and> t \<le> ts"
  by (induction m arbitrary: t v) (auto split: option.splits if_splits)

lemma mvcc_at_mem: "mvcc_at m ts k = Some b \<Longrightarrow> k \<in> (\<lambda>(_, k, _). k) ` set m"
  by (force simp: mvcc_at_def split: option.splits dest: newest_mem)

lemma mt_view_write [simp]: "mt_view (mt_write k w m) = (mt_view m)(k := w)"
  by (rule ext) (simp add: mt_view_def mt_write_def split: option.splits)

lemma mt_view_read [simp]: "mt_view (mt_read k m) = mt_view m"
  by (rule ext) (simp add: mt_view_def mt_read_def split: option.splits)

lemma mt_update_simps [simp]:
  "mt_update (mt_write k w m) = mt_update m" "mt_update (mt_read k m) = mt_update m"
  by (simp_all add: mt_write_def mt_read_def)

lemma mem_latest_ge:
  assumes "(t, kv) \<in> set h" shows "t \<le> mem_latest h"
proof -
  have "x \<le> fold (\<lambda>(t, _) m. max t m) h x \<and> (\<forall>(t, kv) \<in> set h. t \<le> fold (\<lambda>(t, _) m. max t m) h x)" for x :: u64
    by (induction h arbitrary: x) (auto, (meson max.bounded_iff max.coboundedI1 order_trans)+)
  then show ?thesis using assms by (force simp: mem_latest_def)
qed

lemmas mem_defs = mem_badger_def mem_open_def mem_spec_def mem_read_def mem_get_def mem_write_def mem_commit_def

lemma mem_items_set:
  "i \<in> set (mem_items t) \<longleftrightarrow> item_Key i \<noteq> [] \<and>
     (\<exists>b. item_ValueCopy i = Ok b \<and> mt_view (mem_spec t) (item_Key i) = Some b)"
proof -
  have "k \<in> fst ` set (mm_pending t) \<or> k \<in> (\<lambda>(_, k, _). k) ` set (mm_hist t)"
    if "mt_view (mem_spec t) k = Some b" for k b
    using that map_of_SomeD [of "mm_pending t" k] mvcc_at_mem [of "mm_hist t" "mm_readTs t" k b]
    by (force simp: mt_view_def mem_spec_def split: option.splits)
  then show ?thesis
    by (cases i) (force simp: mem_items_def image_iff split: option.splits)
qed

lemma mem_items_sorted: "sorted (map item_Key (mem_items t)) \<and> distinct (map item_Key (mem_items t))"
  by (simp add: mem_items_def comp_def sorted_filter [where f = "\<lambda>k. k", simplified])

interpretation mb: badger "mem_badger m" m "\<lambda>h. h" mem_spec "\<lambda>_ _. True" "\<lambda>_. True"
proof (unfold_locales, goal_cases)
  case (8 t) show ?case using mem_items_sorted by (simp add: mem_badger_def)
next
  case (9 i t) show ?case using mem_items_set by (simp add: mem_badger_def)
next
  case (16 t d) then show ?case using mem_latest_ge by (force simp: mem_defs)
qed (auto simp: mem_defs mt_read_def mt_write_def mt_conflict_def split: option.splits if_splits)

end
