(* ===== verification/Badger_Store.thy ===== *)
theory Badger_Store
  imports Badger_Api Types
begin

text \<open>
  \<^verbatim>\<open>badger.go\<close>: the local store. The operations on a caller's transaction (\<^verbatim>\<open>...WithTxn\<close>) work on a
  BadgerDB transaction, the others open one; the \<^verbatim>\<open>...At\<close> helpers serve the distributed store at
  given timestamps. The prefix \<open>bdb_\<close> marks methods of \<^verbatim>\<open>Badger\<close>; logging is left out. A result map
  is the list of its entries, with distinct keys, in the order in which they were stored.
\<close>

section \<open>Iteration\<close>

text \<open>\<^verbatim>\<open>it.Seek\<close>: the iterator moves to the first key not below the given one.\<close>

definition seek :: "key \<Rightarrow> item list \<Rightarrow> item list" where
  "seek p items = dropWhile (\<lambda>i. item_Key i < p) items"

section \<open>Reads\<close>

fun Count_loop :: "ctx \<Rightarrow> key \<Rightarrow> nat \<Rightarrow> nat \<Rightarrow> item list \<Rightarrow> nat res" where
  "Count_loop ctx pre n cnt [] = Ok cnt"
| "Count_loop ctx pre n cnt (i # is) =
     (if \<not> prefix pre (item_Key i) then Ok cnt
      else if ctx n then Err ErrContextDone
      else Count_loop ctx pre (Suc n) (Suc cnt) is)"

definition bdb_Count :: "('d, 't) badger_api \<Rightarrow> ctx \<Rightarrow> key \<Rightarrow> 'd \<Rightarrow> nat res" where
  "bdb_Count B ctx pre d =
     (case bd_View B (\<lambda>t. (Count_loop ctx pre 0 0 (seek pre (bt_Items B t)), t)) d of
        Ok c \<Rightarrow> Ok c
      | Err e \<Rightarrow> Ok 0
      | Panicked p \<Rightarrow> Panicked p)"

definition bdb_Exists :: "('d, 't) badger_api \<Rightarrow> key \<Rightarrow> 'd \<Rightarrow> bool res" where
  "bdb_Exists B key d =
     (case bd_View B (bt_Get B key) d of
        Ok _ \<Rightarrow> Ok True
      | Err e \<Rightarrow> Ok False
      | Panicked p \<Rightarrow> Panicked p)"

definition bdb_HasChild :: "('d, 't) badger_api \<Rightarrow> key \<Rightarrow> 'd \<Rightarrow> bool res" where
  "bdb_HasChild B pre d =
     (case bd_View B (\<lambda>t. (Ok (case seek pre (bt_Items B t) of
                                [] \<Rightarrow> False | i # _ \<Rightarrow> prefix pre (item_Key i)), t)) d of
        Ok has \<Rightarrow> Ok has
      | Err e \<Rightarrow> Ok False
      | Panicked p \<Rightarrow> Panicked p)"

definition bdb_GetWithTxn :: "('d, 't) badger_api \<Rightarrow> key \<Rightarrow> ('t, bytes option) call" where
  "bdb_GetWithTxn B key t =
     (case bt_Get B key t of
        (Err e, t') \<Rightarrow> if e = ErrKeyNotFound then (Ok None, t') else (Err e, t')
      | (Panicked p, t') \<Rightarrow> (Panicked p, t')
      | (Ok item, t') \<Rightarrow>
          (case item_ValueCopy item of
             Ok v \<Rightarrow> (Ok (Some v), t')
           | Err e \<Rightarrow> (Err e, t')
           | Panicked p \<Rightarrow> (Panicked p, t')))"

definition bdb_Get :: "('d, 't) badger_api \<Rightarrow> key \<Rightarrow> 'd \<Rightarrow> bytes option res" where
  "bdb_Get B key d = bd_View B (bdb_GetWithTxn B key) d"

fun GetByPrefix_loop ::
    "('d, 't) badger_api \<Rightarrow> ctx \<Rightarrow> key \<Rightarrow> nat \<Rightarrow> (key \<times> bytes) list \<Rightarrow> item list
     \<Rightarrow> ('t, (key \<times> bytes) list) call" where
  "GetByPrefix_loop B ctx pre n result [] t = (Ok result, t)"
| "GetByPrefix_loop B ctx pre n result (i # is) t =
     (if \<not> prefix pre (item_Key i) then (Ok result, t)
      else if ctx n then (Err ErrContextDone, t)
      else
        let t' = bt_Item B (item_Key i) t
        in case item_ValueCopy i of
             Ok v \<Rightarrow> GetByPrefix_loop B ctx pre (Suc n) (result @ [(item_Key i, v)]) is t'
           | Err e \<Rightarrow> (Err e, t')
           | Panicked p \<Rightarrow> (Panicked p, t'))"

definition bdb_GetByPrefixWithTxn ::
    "('d, 't) badger_api \<Rightarrow> ctx \<Rightarrow> key \<Rightarrow> ('t, (key \<times> bytes) list) call" where
  "bdb_GetByPrefixWithTxn B ctx pre t = GetByPrefix_loop B ctx pre 0 [] (seek pre (bt_Items B t)) t"

definition bdb_GetByPrefix ::
    "('d, 't) badger_api \<Rightarrow> ctx \<Rightarrow> key \<Rightarrow> 'd \<Rightarrow> (key \<times> bytes) list res" where
  "bdb_GetByPrefix B ctx pre d = bd_View B (bdb_GetByPrefixWithTxn B ctx pre) d"

fun GetKeysByPrefix_loop ::
    "('d, 't) badger_api \<Rightarrow> ctx \<Rightarrow> key \<Rightarrow> nat \<Rightarrow> key list \<Rightarrow> item list \<Rightarrow> ('t, key list) call" where
  "GetKeysByPrefix_loop B ctx pre n keys [] t = (Ok keys, t)"
| "GetKeysByPrefix_loop B ctx pre n keys (i # is) t =
     (if \<not> prefix pre (item_Key i) then (Ok keys, t)
      else if ctx n then (Err ErrContextDone, t)
      else GetKeysByPrefix_loop B ctx pre (Suc n) (keys @ [item_Key i]) is (bt_Item B (item_Key i) t))"

definition bdb_GetKeysByPrefixWithTxn ::
    "('d, 't) badger_api \<Rightarrow> ctx \<Rightarrow> key \<Rightarrow> ('t, key list) call" where
  "bdb_GetKeysByPrefixWithTxn B ctx pre t = GetKeysByPrefix_loop B ctx pre 0 [] (seek pre (bt_Items B t)) t"

definition bdb_GetKeysByPrefix :: "('d, 't) badger_api \<Rightarrow> ctx \<Rightarrow> key \<Rightarrow> 'd \<Rightarrow> key list res" where
  "bdb_GetKeysByPrefix B ctx pre d = bd_View B (bdb_GetKeysByPrefixWithTxn B ctx pre) d"

fun BulkGet_loop ::
    "('d, 't) badger_api \<Rightarrow> ctx \<Rightarrow> nat \<Rightarrow> (key \<times> bytes) list \<Rightarrow> key list \<Rightarrow> ('t, (key \<times> bytes) list) call" where
  "BulkGet_loop B ctx n result [] t = (Ok result, t)"
| "BulkGet_loop B ctx n result (k # ks) t =
     (if ctx n then (Err ErrContextDone, t)
      else bindS (bdb_GetWithTxn B k)
             (\<lambda>v. BulkGet_loop B ctx (Suc n) (case v of Some b \<Rightarrow> AList.update k b result | None \<Rightarrow> result) ks) t)"

definition bdb_BulkGet ::
    "('d, 't) badger_api \<Rightarrow> ctx \<Rightarrow> key list \<Rightarrow> 'd \<Rightarrow> (key \<times> bytes) list res" where
  "bdb_BulkGet B ctx keys d = bd_View B (BulkGet_loop B ctx 0 [] keys) d"

text \<open>The callback \<open>process\<close> may change the caller's state \<open>'s\<close>. The loop returns the cursor and the
  number of items counted; \<open>cur\<close> is \<^verbatim>\<open>prefixBytes\<close>, first the cursor and then the prefix.\<close>

fun Iterate_loop ::
    "ctx \<Rightarrow> key \<Rightarrow> int option \<Rightarrow> (key \<Rightarrow> bytes \<Rightarrow> 's \<Rightarrow> bool \<times> 's) \<Rightarrow> nat \<Rightarrow> nat \<Rightarrow> key \<Rightarrow> item list
     \<Rightarrow> ('s, key \<times> nat) call" where
  "Iterate_loop ctx pre limit process n iterNum cur [] s = (Ok ([], iterNum), s)"
| "Iterate_loop ctx pre limit process n iterNum cur (i # is) s =
     (if \<not> prefix cur (item_Key i) then (Ok ([], iterNum), s)
      else if ctx n then (Err ErrContextDone, s)
      else if (case limit of Some l \<Rightarrow> int iterNum \<ge> l | None \<Rightarrow> False) then (Ok (item_Key i, iterNum), s)
      else case item_ValueCopy i of
             Ok v \<Rightarrow>
               (let (ok, s') = process (item_Key i) v s
                in Iterate_loop ctx pre limit process (Suc n) (if ok then Suc iterNum else iterNum) pre is s')
           | Err e \<Rightarrow> (Err e, s)
           | Panicked p \<Rightarrow> (Panicked p, s))"

definition bdb_IterateByPrefix ::
    "('d, 't) badger_api \<Rightarrow> ctx \<Rightarrow> key \<Rightarrow> key \<Rightarrow> int option \<Rightarrow> (key \<Rightarrow> bytes \<Rightarrow> 's \<Rightarrow> bool \<times> 's) \<Rightarrow> 'd
     \<Rightarrow> ('s, key) call" where
  "bdb_IterateByPrefix B ctx pre startCursor limit process d s =
     (case bd_ViewTxn B d of
        Ok t \<Rightarrow>
          (let p = (if startCursor \<noteq> [] then startCursor else pre)
           in case Iterate_loop ctx pre limit process 0 0 p (seek p (bt_Items B t)) s of
                (Ok (cursor, iterNum), s') \<Rightarrow>
                  (Ok (case limit of Some l \<Rightarrow> if int iterNum < l then [] else cursor | None \<Rightarrow> cursor), s')
              | (Err e, s') \<Rightarrow> (Err e, s')
              | (Panicked q, s') \<Rightarrow> (Panicked q, s'))
      | Err e \<Rightarrow> (Err e, s)
      | Panicked q \<Rightarrow> (Panicked q, s))"

section \<open>Transactions\<close>

text \<open>Every path discards the transaction in the end.\<close>

definition bdb_NewTransaction :: "('d, 't) badger_api \<Rightarrow> ('t, unit) call \<Rightarrow> ('d, unit) call" where
  "bdb_NewTransaction B performOps d =
     (case bd_NewTransaction B True d of
        Ok t \<Rightarrow>
          (case performOps t of
             (Ok _, t') \<Rightarrow> (let (r, d') = bt_Commit B t' d in (r, bt_Discard B t' d'))
           | (Err e, t') \<Rightarrow> (Err e, bt_Discard B t' d)
           | (Panicked p, t') \<Rightarrow> (Panicked p, bt_Discard B t' d))
      | Err e \<Rightarrow> (Err e, d)
      | Panicked p \<Rightarrow> (Panicked p, d))"

definition bdb_newReadonlyTransaction :: "('d, 't) badger_api \<Rightarrow> ('t, unit) call \<Rightarrow> ('d, unit) call" where
  "bdb_newReadonlyTransaction B performOps d =
     (case bd_NewTransaction B False d of
        Ok t \<Rightarrow>
          (case performOps t of
             (Ok _, t') \<Rightarrow> (let (r, d') = bt_Commit B t' d in (r, bt_Discard B t' d'))
           | (Err e, t') \<Rightarrow> (Err e, bt_Discard B t' d)
           | (Panicked p, t') \<Rightarrow> (Panicked p, bt_Discard B t' d))
      | Err e \<Rightarrow> (Err e, d)
      | Panicked p \<Rightarrow> (Panicked p, d))"

definition bdb_newTransactionAt ::
    "('d, 't) badger_api \<Rightarrow> u64 \<Rightarrow> u64 \<Rightarrow> ('t, unit) call \<Rightarrow> ('d, unit) call" where
  "bdb_newTransactionAt B readTs commitTs performOps d =
     (case bd_NewTransactionAt B readTs True d of
        Ok t \<Rightarrow>
          (case performOps t of
             (Ok _, t') \<Rightarrow> (let (r, d') = bt_CommitAt B commitTs t' d in (r, bt_Discard B t' d'))
           | (Err e, t') \<Rightarrow> (Err e, bt_Discard B t' d)
           | (Panicked p, t') \<Rightarrow> (Panicked p, bt_Discard B t' d))
      | Err e \<Rightarrow> (Err e, d)
      | Panicked p \<Rightarrow> (Panicked p, d))"

text \<open>A read-only transaction leaves nothing behind but what its function returns.\<close>

definition bdb_newReadOnlyTransactionAt ::
    "('d, 't) badger_api \<Rightarrow> u64 \<Rightarrow> ('t, 'a) call \<Rightarrow> 'd \<Rightarrow> 'a res" where
  "bdb_newReadOnlyTransactionAt B readTs performOps d =
     bindR (bd_NewTransactionAt B readTs False d) (\<lambda>t. fst (performOps t))"

definition bdb_getKeysByPrefixAt :: "('d, 't) badger_api \<Rightarrow> ctx \<Rightarrow> 'd \<Rightarrow> key \<Rightarrow> u64 \<Rightarrow> key list res" where
  "bdb_getKeysByPrefixAt B ctx d pre readTs =
     bdb_newReadOnlyTransactionAt B readTs (bdb_GetKeysByPrefixWithTxn B ctx pre) d"

definition bdb_getAt :: "('d, 't) badger_api \<Rightarrow> 'd \<Rightarrow> key \<Rightarrow> u64 \<Rightarrow> bytes option res" where
  "bdb_getAt B d key readTs = bdb_newReadOnlyTransactionAt B readTs (bdb_GetWithTxn B key) d"

definition bdb_getByPrefixAt ::
    "('d, 't) badger_api \<Rightarrow> ctx \<Rightarrow> 'd \<Rightarrow> key \<Rightarrow> u64 \<Rightarrow> (key \<times> bytes) list res" where
  "bdb_getByPrefixAt B ctx d pre readTs =
     bdb_newReadOnlyTransactionAt B readTs (bdb_GetByPrefixWithTxn B ctx pre) d"

section \<open>Writes\<close>

definition bdb_SetWithTxn :: "('d, 't) badger_api \<Rightarrow> key \<Rightarrow> bytes \<Rightarrow> duration list \<Rightarrow> ('t, unit) call" where
  "bdb_SetWithTxn B key value ttl =
     bt_SetEntry B key value (if length ttl > 0 then Some (ttl ! 0) else None)"

definition bdb_Set ::
    "('d, 't) badger_api \<Rightarrow> bool \<Rightarrow> key \<Rightarrow> bytes \<Rightarrow> duration list \<Rightarrow> ('d, unit) call" where
  "bdb_Set B managed key value ttl =
     (if managed then panicS ''operation not supported in managed db''
      else bd_Update B (bdb_SetWithTxn B key value ttl))"

definition bdb_DecrByWithTxn :: "('d, 't) badger_api \<Rightarrow> key \<Rightarrow> u64 \<Rightarrow> ('t, unit) call" where
  "bdb_DecrByWithTxn B key delta =
     bindS (bdb_GetWithTxn B key) (\<lambda>b.
     bindS (case b of
              Some v \<Rightarrow>
                bindS (liftR (BytesToUint64 v)) (\<lambda>currentVal.
                retS (if currentVal < delta then 0 else currentVal - delta))
            | None \<Rightarrow> retS 0) (\<lambda>newVal.
     bdb_SetWithTxn B key (Uint64ToBytes newVal) []))"

definition bdb_DecrBy :: "('d, 't) badger_api \<Rightarrow> bool \<Rightarrow> key \<Rightarrow> u64 \<Rightarrow> ('d, unit) call" where
  "bdb_DecrBy B managed key delta =
     (if managed then panicS ''operation not supported in managed db''
      else bdb_NewTransaction B (bdb_DecrByWithTxn B key delta))"

definition bdb_IncrByWithTxn :: "('d, 't) badger_api \<Rightarrow> key \<Rightarrow> u64 \<Rightarrow> ('t, unit) call" where
  "bdb_IncrByWithTxn B key delta =
     bindS (bdb_GetWithTxn B key) (\<lambda>b.
     bindS (case b of
              Some v \<Rightarrow>
                bindS (liftR (BytesToUint64 v)) (\<lambda>currentVal. retS (currentVal + delta))
            | None \<Rightarrow> retS delta) (\<lambda>newVal.
     bdb_SetWithTxn B key (Uint64ToBytes newVal) []))"

definition bdb_IncrBy :: "('d, 't) badger_api \<Rightarrow> bool \<Rightarrow> key \<Rightarrow> u64 \<Rightarrow> ('d, unit) call" where
  "bdb_IncrBy B managed key delta =
     (if managed then panicS ''operation not supported in managed db''
      else bdb_NewTransaction B (bdb_IncrByWithTxn B key delta))"

definition bdb_UpdateJsonWithTxn ::
    "('d, 't) badger_api \<Rightarrow> 'j json_api \<Rightarrow> key \<Rightarrow> 'j jmap \<Rightarrow> duration list \<Rightarrow> ('t, unit) call" where
  "bdb_UpdateJsonWithTxn B J key delta ttl =
     bindS (bdb_GetWithTxn B key) (\<lambda>b.
     bindS (case b of
              Some v \<Rightarrow> liftR (json_Unmarshal J v)
            | None \<Rightarrow> retS (Some [])) (\<lambda>fullMsg.
     bindS (liftR (maps_Copy fullMsg delta)) (\<lambda>merged.
     bindS (liftR (json_Marshal J merged)) (\<lambda>mergedBytes.
     bdb_SetWithTxn B key mergedBytes ttl))))"

definition bdb_UpdateJson ::
    "('d, 't) badger_api \<Rightarrow> bool \<Rightarrow> 'j json_api \<Rightarrow> key \<Rightarrow> 'j jmap \<Rightarrow> duration list \<Rightarrow> ('d, unit) call" where
  "bdb_UpdateJson B managed J key delta ttl =
     (if managed then panicS ''operation not supported in managed db''
      else bdb_NewTransaction B (bdb_UpdateJsonWithTxn B J key delta ttl))"

definition bdb_UpdateProtobufWithTxn ::
    "('d, 't) badger_api \<Rightarrow> ('m, 'fd) proto_api \<Rightarrow> key \<Rightarrow> 'm \<Rightarrow> duration list \<Rightarrow> ('t, unit) call" where
  "bdb_UpdateProtobufWithTxn B P key delta ttl =
     bindS (bdb_GetWithTxn B key) (\<lambda>b.
     bindS (case b of
              Some v \<Rightarrow> liftR (MergeProtoDelta P v delta)
            | None \<Rightarrow> liftR (proto_Marshal P delta)) (\<lambda>mergedBytes.
     bdb_SetWithTxn B key mergedBytes ttl))"

definition bdb_UpdateProtobuf ::
    "('d, 't) badger_api \<Rightarrow> bool \<Rightarrow> ('m, 'fd) proto_api \<Rightarrow> key \<Rightarrow> 'm \<Rightarrow> duration list \<Rightarrow> ('d, unit) call" where
  "bdb_UpdateProtobuf B managed P key delta ttl =
     (if managed then panicS ''operation not supported in managed db''
      else bdb_NewTransaction B (bdb_UpdateProtobufWithTxn B P key delta ttl))"

section \<open>Deletes\<close>

definition bdb_DeleteWithTxn :: "('d, 't) badger_api \<Rightarrow> key \<Rightarrow> ('t, unit) call" where
  "bdb_DeleteWithTxn B key = bt_Delete B key"

definition bdb_Delete :: "('d, 't) badger_api \<Rightarrow> bool \<Rightarrow> key \<Rightarrow> ('d, unit) call" where
  "bdb_Delete B managed key d =
     (if managed then (Panicked ''operation not supported in managed db'', d)
      else case bd_Update B (bdb_DeleteWithTxn B key) d of
             (Err e, d') \<Rightarrow> if e = ErrKeyNotFound then (Ok (), d') else (Err e, d')
           | (r, d') \<Rightarrow> (r, d'))"

fun DeleteByPrefix_loop ::
    "('d, 't) badger_api \<Rightarrow> ctx \<Rightarrow> key \<Rightarrow> nat \<Rightarrow> item list \<Rightarrow> ('t, unit) call" where
  "DeleteByPrefix_loop B ctx pre n [] t = (Ok (), t)"
| "DeleteByPrefix_loop B ctx pre n (i # is) t =
     (if \<not> prefix pre (item_Key i) then (Ok (), t)
      else if ctx n then (Ok (), t)
      else case bdb_DeleteWithTxn B (item_Key i) (bt_Item B (item_Key i) t) of
             (Ok _, t') \<Rightarrow> DeleteByPrefix_loop B ctx pre (Suc n) is t'
           | (Err e, t') \<Rightarrow>
               if e = ErrKeyNotFound then DeleteByPrefix_loop B ctx pre (Suc n) is t' else (Err e, t')
           | (Panicked p, t') \<Rightarrow> (Panicked p, t'))"

definition bdb_DeleteByPrefixWithTxn :: "('d, 't) badger_api \<Rightarrow> ctx \<Rightarrow> key \<Rightarrow> ('t, unit) call" where
  "bdb_DeleteByPrefixWithTxn B ctx pre t = DeleteByPrefix_loop B ctx pre 0 (seek pre (bt_Items B t)) t"

definition bdb_DeleteByPrefix :: "('d, 't) badger_api \<Rightarrow> bool \<Rightarrow> ctx \<Rightarrow> key \<Rightarrow> ('d, unit) call" where
  "bdb_DeleteByPrefix B managed ctx pre =
     (if managed then panicS ''operation not supported in managed db''
      else bd_Update B (bdb_DeleteByPrefixWithTxn B ctx pre))"

section \<open>Vocabulary of the properties\<close>

text \<open>The items under a prefix, as key and value; a collecting callback and a scan page by page.\<close>

definition items_with :: "key \<Rightarrow> item list \<Rightarrow> item list" where
  "items_with pre items = filter (\<lambda>i. prefix pre (item_Key i)) items"

definition kv :: "item \<Rightarrow> key \<times> bytes" where
  "kv i = (item_Key i, case item_ValueCopy i of Ok v \<Rightarrow> v | _ \<Rightarrow> [])"

definition readable :: "item list \<Rightarrow> bool" where
  "readable items \<longleftrightarrow> (\<forall>i \<in> set items. \<exists>v. item_ValueCopy i = Ok v)"

definition collect :: "key \<Rightarrow> bytes \<Rightarrow> (key \<times> bytes) list \<Rightarrow> bool \<times> (key \<times> bytes) list" where
  "collect k v acc = (True, acc @ [(k, v)])"

fun pages :: "('d, 't) badger_api \<Rightarrow> key \<Rightarrow> nat \<Rightarrow> nat \<Rightarrow> key \<Rightarrow> 'd \<Rightarrow> (key \<times> bytes) list \<Rightarrow> (key \<times> bytes) list option" where
  "pages B pre n 0 cursor d acc = None"
| "pages B pre n (Suc f) cursor d acc =
     (case bdb_IterateByPrefix B ctx_background pre cursor (Some (int n)) collect d acc of
        (Ok next, acc') \<Rightarrow> if next = [] then Some acc' else pages B pre n f next d acc'
      | _ \<Rightarrow> None)"

text \<open>The latest content of a database, the value of a counter (an absent key counts as zero) and its
  decrement.\<close>

definition latest :: "('d \<Rightarrow> mvcc) \<Rightarrow> 'd \<Rightarrow> key \<rightharpoonup> bytes" where
  "latest vers d = mvcc_at (vers d) MaxUint64"

definition counter_of :: "bytes option \<Rightarrow> u64 res" where
  "counter_of v = (case v of None \<Rightarrow> Ok 0 | Some b \<Rightarrow> BytesToUint64 b)"

definition decr :: "u64 \<Rightarrow> u64 \<Rightarrow> u64" where
  "decr c delta = (if c < delta then 0 else c - delta)"

text \<open>Two states of a transaction with the same snapshot, timestamp and mode.\<close>

definition same_base :: "mtxn \<Rightarrow> mtxn \<Rightarrow> bool" where
  "same_base a b \<longleftrightarrow> mt_snap b = mt_snap a \<and> mt_readTs b = mt_readTs a \<and> mt_update b = mt_update a"

definition demo_kvs :: mvcc where
  "demo_kvs = [(3, ''a3'', Some [3]), (2, ''a2'', Some [2]), (1, ''a1'', Some [1]), (1, ''b'', Some [9])]"

section \<open>What a local store promises\<close>

text \<open>The contract of the read and write interface of a local store: its content is a map, and every
  operation changes that map as its name says. \<open>takes\<close> tells that an entry is within the size limits.\<close>

locale kv_store =
  fixes content :: "'d \<Rightarrow> key \<rightharpoonup> bytes"
    and takes :: "key \<Rightarrow> bytes option \<Rightarrow> bool"
    and getk :: "key \<Rightarrow> 'd \<Rightarrow> bytes option res"
    and setk :: "key \<Rightarrow> bytes \<Rightarrow> ('d, unit) call"
    and delk :: "key \<Rightarrow> ('d, unit) call"
    and incrk :: "key \<Rightarrow> u64 \<Rightarrow> ('d, unit) call"
    and decrk :: "key \<Rightarrow> u64 \<Rightarrow> ('d, unit) call"
  assumes get_content: "k \<noteq> [] \<Longrightarrow> getk k d = Ok (content d k)"
    and set_content: "k \<noteq> [] \<Longrightarrow> takes k (Some b) \<Longrightarrow>
      \<exists>d'. setk k b d = (Ok (), d') \<and> content d' = (content d)(k \<mapsto> b)"
    and del_content: "k \<noteq> [] \<Longrightarrow> takes k None \<Longrightarrow>
      \<exists>d'. delk k d = (Ok (), d') \<and> content d' = (content d)(k := None)"
    and incr_content: "k \<noteq> [] \<Longrightarrow> counter_of (content d k) = Ok c \<Longrightarrow> takes k (Some (Uint64ToBytes (c + delta))) \<Longrightarrow>
      \<exists>d'. incrk k delta d = (Ok (), d') \<and> content d' = (content d)(k \<mapsto> Uint64ToBytes (c + delta))"
    and decr_content: "k \<noteq> [] \<Longrightarrow> counter_of (content d k) = Ok c \<Longrightarrow> takes k (Some (Uint64ToBytes (decr c delta))) \<Longrightarrow>
      \<exists>d'. decrk k delta d = (Ok (), d') \<and> content d' = (content d)(k \<mapsto> Uint64ToBytes (decr c delta))"
begin

lemma get_after_set:
  assumes "k \<noteq> []" and "takes k (Some b)"
  shows "\<exists>d'. setk k b d = (Ok (), d') \<and> (\<forall>k'. k' \<noteq> [] \<longrightarrow> getk k' d' = (if k' = k then Ok (Some b) else getk k' d))"
  using set_content [OF assms, of d] by (auto simp: get_content)

lemma get_after_delete:
  assumes "k \<noteq> []" and "takes k None"
  shows "\<exists>d'. delk k d = (Ok (), d') \<and> (\<forall>k'. k' \<noteq> [] \<longrightarrow> getk k' d' = (if k' = k then Ok None else getk k' d))"
  using del_content [OF assms, of d] by (auto simp: get_content)

text \<open>Adding and then taking away gives the counter back, unless the addition wrapped around, in
  which case the result is clamped to zero.\<close>

lemma incr_then_decr:
  assumes "k \<noteq> []" and "counter_of (content d k) = Ok c" and "\<And>w. takes k (Some (Uint64ToBytes w))"
  shows "\<exists>d1 d2. incrk k delta d = (Ok (), d1) \<and> decrk k delta d1 = (Ok (), d2)
    \<and> getk k d2 = Ok (Some (Uint64ToBytes (if c \<le> c + delta then c else 0)))"
proof -
  obtain d1 where d1: "incrk k delta d = (Ok (), d1)" "content d1 = (content d)(k \<mapsto> Uint64ToBytes (c + delta))"
    using incr_content [OF assms(1,2,3)] by blast
  have "counter_of (content d1 k) = Ok (c + delta)" by (simp add: d1(2) counter_of_def)
  then obtain d2 where d2: "decrk k delta d1 = (Ok (), d2)"
    "content d2 = (content d1)(k \<mapsto> Uint64ToBytes (decr (c + delta) delta))"
    using decr_content [OF assms(1) _ assms(3)] by blast
  have "c \<le> c + delta \<longleftrightarrow> delta \<le> c + delta"
    using no_olen_add [of c delta] no_olen_add [of delta c] by (simp add: add.commute)
  then have "decr (c + delta) delta = (if c \<le> c + delta then c else 0)"
    by (auto simp: decr_def not_le)
  then show ?thesis using d1(1) d2 by (auto simp: get_content [OF assms(1)])
qed

end

section \<open>Prefixes and iteration\<close>

lemma prefix_le: "prefix p (k :: string) \<Longrightarrow> p \<le> k"
  by (induction p arbitrary: k) (auto simp: prefix_def)

lemma prefix_interval:
  "p \<le> k \<Longrightarrow> k \<le> k' \<Longrightarrow> prefix p k' \<Longrightarrow> prefix p (k :: string)"
proof (induction p arbitrary: k k')
  case (Cons a p)
  then obtain b k1 where k: "k = b # k1" by (cases k) auto
  obtain k2 where k': "k' = a # k2" "prefix p k2" using Cons.prems(3) by (auto simp: prefix_def)
  have "a = b" using Cons.prems(1,2) by (auto simp: k k')
  then show ?case using Cons k k' by auto
qed simp

lemma seek_eq_filter:
  assumes "sorted (map item_Key items)"
  shows "seek p items = filter (\<lambda>i. p \<le> item_Key i) items"
  using assms
proof (induction items)
  case (Cons i items)
  then show ?case
    by (cases "item_Key i < p") (auto simp: seek_def filter_id_conv intro!: filter_True [symmetric])
qed (simp add: seek_def)

lemma takeWhile_prefix_filter:
  assumes "sorted (map item_Key items)" and "\<forall>i \<in> set items. p \<le> item_Key i"
  shows "takeWhile (\<lambda>i. prefix p (item_Key i)) items = filter (\<lambda>i. prefix p (item_Key i)) items"
  using assms
proof (induction items)
  case (Cons i items)
  show ?case
  proof (cases "prefix p (item_Key i)")
    case False
    then have "\<not> prefix p (item_Key j)" if "j \<in> set items" for j
      using Cons.prems prefix_interval [of p "item_Key i" "item_Key j"] that by auto
    then show ?thesis using False by (simp add: filter_empty_conv)
  qed (use Cons in simp)
qed simp

lemma takeWhile_seek:
  assumes "sorted (map item_Key items)"
  shows "takeWhile (\<lambda>i. prefix p (item_Key i)) (seek p items) = items_with p items"
proof -
  have "filter (\<lambda>i. prefix p (item_Key i)) (filter (\<lambda>i. p \<le> item_Key i) items) = items_with p items"
    unfolding items_with_def by (auto simp: prefix_le intro!: filter_cong)
  then show ?thesis
    using assms by (simp add: seek_eq_filter sorted_filter takeWhile_prefix_filter)
qed

lemma Count_loop_eq:
  "Count_loop ctx_background pre n c items = Ok (c + length (takeWhile (\<lambda>i. prefix pre (item_Key i)) items))"
  by (induction items arbitrary: n c) (auto simp: ctx_background_def)

lemma readable_simps [simp]: "readable []" "readable (i # is) \<longleftrightarrow> (\<exists>v. item_ValueCopy i = Ok v) \<and> readable is"
  by (auto simp: readable_def)

lemma GetByPrefix_loop_eq:
  "readable items \<Longrightarrow> fst (GetByPrefix_loop B ctx_background pre n r items t) =
     Ok (r @ map kv (takeWhile (\<lambda>i. prefix pre (item_Key i)) items))"
  by (induction items arbitrary: n r t) (auto simp: ctx_background_def kv_def Let_def)

lemma GetKeysByPrefix_loop_eq:
  "fst (GetKeysByPrefix_loop B ctx_background pre n r items t) =
     Ok (r @ map item_Key (takeWhile (\<lambda>i. prefix pre (item_Key i)) items))"
  by (induction items arbitrary: n r t) (auto simp: ctx_background_def)

lemma Iterate_collect:
  fixes pre :: key and tw
  defines "tw \<equiv> takeWhile (\<lambda>i. prefix pre (item_Key i))"
  assumes "readable items" and "c \<le> n"
  shows "Iterate_loop ctx_background pre (Some (int n)) collect m c pre items acc =
    (Ok (if n - c < length (tw items) then item_Key (tw items ! (n - c)) else [], c + min (n - c) (length (tw items))),
     acc @ map kv (take (n - c) (tw items)))"
  using assms(2,3)
proof (induction items arbitrary: m c acc)
  case Nil then show ?case by (simp add: tw_def)
next
  case (Cons i items)
  then obtain v where v: "item_ValueCopy i = Ok v" by auto
  show ?case
  proof (cases "prefix pre (item_Key i) \<and> c < n")
    case True
    then have "n - c = Suc (n - Suc c)" by arith
    then show ?thesis
      using True Cons.IH [of "Suc c" "Suc m" "acc @ [(item_Key i, v)]"] Cons.prems v
      by (simp add: ctx_background_def collect_def kv_def tw_def)
  next
    case False
    then show ?thesis using Cons.prems(2) by (auto simp: ctx_background_def tw_def)
  qed
qed

lemma Iterate_loop_cursor:
  "prefix cur (item_Key i) \<Longrightarrow> prefix pre (item_Key i) \<Longrightarrow>
   Iterate_loop ctx pre lim pr n it cur (i # is) s = Iterate_loop ctx pre lim pr n it pre (i # is) s"
  by simp

lemma seek_nth:
  assumes "sorted (map item_Key xs)" and "distinct (map item_Key xs)" and "j < length xs"
  shows "seek (item_Key (xs ! j)) xs = drop j xs"
proof -
  have "item_Key (xs ! i) < item_Key (xs ! j)" if "i < j" for i
    using that assms sorted_nth_mono [OF assms(1), of i j] nth_eq_iff_index_eq [OF assms(2), of i j]
    by (auto simp: order.strict_iff_order)
  then have "takeWhile (\<lambda>i. item_Key i < item_Key (xs ! j)) xs = take j xs"
    by (intro takeWhile_eq_take_P_nth) auto
  then show ?thesis using assms(3) by (simp add: seek_def dropWhile_eq_drop)
qed

lemma seek_within:
  assumes "sorted (map item_Key items)" and "distinct (map item_Key items)" and "j < length (items_with pre items)"
  shows "takeWhile (\<lambda>i. prefix pre (item_Key i)) (seek (item_Key (items_with pre items ! j)) items) = drop j (items_with pre items)"
    and "\<exists>i is. seek (item_Key (items_with pre items ! j)) items = i # is \<and> item_Key i = item_Key (items_with pre items ! j)"
proof -
  let ?L = "items_with pre items" and ?c = "item_Key (items_with pre items ! j)"
  have L: "sorted (map item_Key ?L)" "distinct (map item_Key ?L)"
    using assms(1,2) by (simp_all add: items_with_def sorted_filter distinct_map_filter)
  have c: "?L ! j \<in> set items" "prefix pre ?c"
    using nth_mem [OF assms(3)] by (simp_all add: items_with_def)
  have s: "seek ?c items = filter (\<lambda>i. ?c \<le> item_Key i) items" by (rule seek_eq_filter [OF assms(1)])
  have "takeWhile (\<lambda>i. prefix pre (item_Key i)) (seek ?c items) = filter (\<lambda>i. prefix pre (item_Key i)) (seek ?c items)"
    using assms(1) prefix_le [OF c(2)]
    by (intro takeWhile_prefix_filter) (auto simp: s sorted_filter)
  also have "\<dots> = filter (\<lambda>i. ?c \<le> item_Key i) ?L" unfolding s by (simp add: items_with_def conj_commute)
  also have "\<dots> = drop j ?L" using seek_eq_filter [OF L(1)] seek_nth [OF L assms(3)] by metis
  finally show tw: "takeWhile (\<lambda>i. prefix pre (item_Key i)) (seek ?c items) = drop j ?L" .
  have "drop j ?L = ?L ! j # drop (Suc j) ?L" using assms(3) by (rule Cons_nth_drop_Suc [symmetric])
  then show "\<exists>i is. seek ?c items = i # is \<and> item_Key i = ?c"
    using tw by (cases "seek ?c items") (auto split: if_splits)
qed

section \<open>The operations meet the contract\<close>

lemma mt_view_fresh: "mt_pending m = [] \<Longrightarrow> mt_view m = mt_snap m"
  by (rule ext) (simp add: mt_view_def)

lemma same_base_simps [simp]:
  "same_base m m" "same_base a (mt_read k m) = same_base a m" "same_base a (mt_write k w m) = same_base a m"
  by (auto simp: same_base_def mt_read_def mt_write_def)

lemma same_base_trans: "same_base a b \<Longrightarrow> same_base b c \<Longrightarrow> same_base a c"
  by (simp add: same_base_def)

lemma decr_0 [simp]: "decr 0 delta = 0"
  by (auto simp: decr_def word_gt_0)

context badger
begin

lemma items_readable: "readable (bt_Items B t)"
  by (auto simp: readable_def Items_view)

lemma view_txnE:
  obtains t where "bd_ViewTxn B d = Ok t" and "mt_view (txn t) = latest vers d"
  using ViewTxn [of d] by (auto simp: latest_def mt_view_fresh)

lemma GetWithTxn_spec:
  assumes "k \<noteq> []"
  shows "\<exists>t'. bdb_GetWithTxn B k t = (Ok (mt_view (txn t) k), t') \<and> txn t' = mt_read k (txn t) \<and> fits t' = fits t"
proof (cases "mt_view (txn t) k")
  case None
  then show ?thesis using Get_absent [OF assms None] by (auto simp: bdb_GetWithTxn_def)
next
  case (Some b)
  then show ?thesis using Get_found [OF assms Some] by (auto simp: bdb_GetWithTxn_def)
qed

lemma Get_spec:
  assumes "k \<noteq> []" shows "bdb_Get B k d = Ok (latest vers d k)"
proof -
  obtain t where t: "bd_ViewTxn B d = Ok t" "mt_view (txn t) = latest vers d" by (rule view_txnE)
  then show ?thesis
    using GetWithTxn_spec [OF assms, of t] by (auto simp: bdb_Get_def bd_View_def)
qed

lemma getAt_spec:
  assumes "managed" and "k \<noteq> []"
  shows "bdb_getAt B d k ts = Ok (mvcc_at (vers d) ts k)"
proof -
  obtain t where t: "bd_NewTransactionAt B ts False d = Ok t" and v: "mt_view (txn t) = mvcc_at (vers d) ts"
    using NewTransactionAt [OF assms(1), of ts False d] by (auto simp: mt_view_fresh)
  then show ?thesis
    using GetWithTxn_spec [OF assms(2), of t] by (auto simp: bdb_getAt_def bdb_newReadOnlyTransactionAt_def)
qed

lemma items_under:
  assumes "mt_view (txn t) = m"
  shows "sorted (map fst (map kv (items_with pre (bt_Items B t))))"
    and "distinct (map fst (map kv (items_with pre (bt_Items B t))))"
    and "map_of (map kv (items_with pre (bt_Items B t))) = (\<lambda>k. if prefix pre k \<and> k \<noteq> [] then m k else None)"
proof -
  have fst_kv: "fst \<circ> kv = item_Key" by (rule ext) (simp add: kv_def)
  show s: "sorted (map fst (map kv (items_with pre (bt_Items B t))))"
    and d: "distinct (map fst (map kv (items_with pre (bt_Items B t))))"
    using Items_sorted [of t] unfolding items_with_def
    by (simp_all add: fst_kv sorted_filter distinct_map_filter)
  show "map_of (map kv (items_with pre (bt_Items B t))) = (\<lambda>k. if prefix pre k \<and> k \<noteq> [] then m k else None)"
  proof (rule ext)
    fix k
    have mem: "(k, b) \<in> set (map kv (items_with pre (bt_Items B t))) \<longleftrightarrow> prefix pre k \<and> k \<noteq> [] \<and> m k = Some b" for b
    proof
      assume "(k, b) \<in> set (map kv (items_with pre (bt_Items B t)))"
      then show "prefix pre k \<and> k \<noteq> [] \<and> m k = Some b"
        using assms by (auto simp: items_with_def kv_def Items_view)
    next
      assume r: "prefix pre k \<and> k \<noteq> [] \<and> m k = Some b"
      then have "\<lparr>item_Key = k, item_ValueCopy = Ok b\<rparr> \<in> set (bt_Items B t)"
        using assms by (simp add: Items_view)
      moreover have "kv \<lparr>item_Key = k, item_ValueCopy = Ok b\<rparr> = (k, b)" by (simp add: kv_def)
      ultimately show "(k, b) \<in> set (map kv (items_with pre (bt_Items B t)))"
        using r image_eqI [of "(k, b)" kv "\<lparr>item_Key = k, item_ValueCopy = Ok b\<rparr>"] by (simp add: items_with_def)
    qed
    have "map_of (map kv (items_with pre (bt_Items B t))) k = Some b \<longleftrightarrow> prefix pre k \<and> k \<noteq> [] \<and> m k = Some b" for b
      by (simp only: map_of_eq_Some_iff [OF d] mem)
    then show "map_of (map kv (items_with pre (bt_Items B t))) k = (if prefix pre k \<and> k \<noteq> [] then m k else None)"
      by (metis (full_types) not_None_eq)
  qed
qed

end

context badger
begin

lemma Count_spec:
  "bdb_Count B ctx_background pre d = Ok (card {k. prefix pre k \<and> k \<noteq> [] \<and> latest vers d k \<noteq> None})"
proof -
  obtain t where t: "bd_ViewTxn B d = Ok t" "mt_view (txn t) = latest vers d" by (rule view_txnE)
  note u = items_under [OF t(2), of pre]
  have "dom (map_of (map kv (items_with pre (bt_Items B t)))) = {k. prefix pre k \<and> k \<noteq> [] \<and> latest vers d k \<noteq> None}"
    by (auto simp: u(3) split: if_splits)
  then have "card {k. prefix pre k \<and> k \<noteq> [] \<and> latest vers d k \<noteq> None} = length (items_with pre (bt_Items B t))"
    using distinct_card [OF u(2)] by (simp add: dom_map_of_conv_image_fst image_image)
  then show ?thesis
    using t(1) Items_sorted [of t] by (simp add: bdb_Count_def bd_View_def Count_loop_eq takeWhile_seek)
qed

lemma GetByPrefix_spec:
  "\<exists>kvs. bdb_GetByPrefix B ctx_background pre d = Ok kvs \<and> sorted (map fst kvs) \<and> distinct (map fst kvs)
     \<and> map_of kvs = (\<lambda>k. if prefix pre k \<and> k \<noteq> [] then latest vers d k else None)"
proof -
  obtain t where t: "bd_ViewTxn B d = Ok t" "mt_view (txn t) = latest vers d" by (rule view_txnE)
  have "readable (seek pre (bt_Items B t))"
    using items_readable [of t] by (auto simp: readable_def seek_def dest: set_dropWhileD)
  then have "bdb_GetByPrefix B ctx_background pre d = Ok (map kv (items_with pre (bt_Items B t)))"
    using t(1) Items_sorted [of t]
    by (simp add: bdb_GetByPrefix_def bd_View_def bdb_GetByPrefixWithTxn_def GetByPrefix_loop_eq takeWhile_seek)
  then show ?thesis using items_under [OF t(2), of pre] by blast
qed

lemma Commit_view:
  assumes "\<not> managed" and "mt_update (txn t)" and "mt_snap (txn t) = latest vers d"
    and "\<forall>(t0, _) \<in> set (vers d). t0 \<le> mt_readTs (txn t)"
  shows "\<exists>d'. bt_Commit B t d = (Ok (), d') \<and> latest vers d' = mt_view (txn t)"
proof -
  have "\<not> mt_conflict (txn t) (vers d)" using assms(4) by (force simp: mt_conflict_def)
  then obtain d' cts where d': "bt_Commit B t d = (Ok (), d')" "vers d' = stamp_writes cts (txn t) @ vers d"
    "\<forall>(t0, _) \<in> set (vers d). t0 \<le> cts"
    using Commit [OF assms(1,2)] by blast
  have "latest vers d' k = mt_view (txn t) k" for k
    using mvcc_at_append [OF d'(3), of "- 1" "txn t" k] assms(3)
    by (simp add: latest_def d'(2) mt_view_def split: option.splits)
  then show ?thesis using d'(1) by blast
qed

lemma update_txnE:
  assumes "\<not> managed"
  obtains t where "bd_UpdateTxn B d = Ok t" and "mt_view (txn t) = latest vers d" and "mt_snap (txn t) = latest vers d"
    and "mt_update (txn t)" and "\<forall>(t0, _) \<in> set (vers d). t0 \<le> mt_readTs (txn t)" and "\<And>ws. cap ws \<Longrightarrow> fits t ws"
  using UpdateTxn [OF assms, of d] by (auto simp: latest_def mt_view_fresh)

text \<open>An operation that succeeds on a new transaction takes effect as a whole.\<close>

lemma run_update:
  assumes "\<not> managed"
    and "\<And>t. mt_view (txn t) = latest vers d \<Longrightarrow> mt_update (txn t) \<Longrightarrow> (\<And>ws. cap ws \<Longrightarrow> fits t ws) \<Longrightarrow>
        \<exists>t'. fn t = (Ok (), t') \<and> mt_view (txn t') = m \<and> same_base (txn t) (txn t')"
  shows "\<exists>d'. bd_Update B fn d = (Ok (), d') \<and> latest vers d' = m"
    and "\<exists>d'. bdb_NewTransaction B fn d = (Ok (), d') \<and> latest vers d' = m"
proof -
  obtain t where t: "bd_UpdateTxn B d = Ok t" "mt_view (txn t) = latest vers d" "mt_snap (txn t) = latest vers d"
    "mt_update (txn t)" "\<forall>(t0, _) \<in> set (vers d). t0 \<le> mt_readTs (txn t)" "\<And>ws. cap ws \<Longrightarrow> fits t ws"
    using update_txnE [OF assms(1)] by blast
  obtain t' where t': "fn t = (Ok (), t')" "mt_view (txn t') = m" "same_base (txn t) (txn t')"
    using assms(2) [OF t(2,4,6)] by blast
  obtain d' where d': "bt_Commit B t' d = (Ok (), d')" "latest vers d' = m"
    using Commit_view [OF assms(1), of t' d] t t' by (auto simp: same_base_def)
  show "\<exists>d'. bd_Update B fn d = (Ok (), d') \<and> latest vers d' = m"
    using t(1) t'(1) d' by (simp add: bd_Update_def)
  have "latest vers (bt_Discard B t' d') = m" using d'(2) by (simp add: latest_def Discard)
  then show "\<exists>d'. bdb_NewTransaction B fn d = (Ok (), d') \<and> latest vers d' = m"
    using t(1) t'(1) d' by (simp add: bdb_NewTransaction_def NewTransaction [OF assms(1)])
qed

lemma Set_spec:
  assumes "\<not> managed" and "k \<noteq> []" and "cap [(k, Some b)]"
  shows "\<exists>d'. bdb_Set B False k b [] d = (Ok (), d') \<and> latest vers d' = (latest vers d)(k \<mapsto> b)"
  unfolding bdb_Set_def if_False
  by (rule run_update(1) [OF assms(1)])
    (use SetEntry [OF _ _ assms(2), of _ b "[]"] assms(3) in \<open>force simp: bdb_SetWithTxn_def\<close>)

lemma Delete_spec:
  assumes "\<not> managed" and "k \<noteq> []" and "cap [(k, None)]"
  shows "\<exists>d'. bdb_Delete B False k d = (Ok (), d') \<and> latest vers d' = (latest vers d)(k := None)"
proof -
  have "\<exists>d'. bd_Update B (bdb_DeleteWithTxn B k) d = (Ok (), d') \<and> latest vers d' = (latest vers d)(k := None)"
    by (rule run_update(1) [OF assms(1)])
      (use Delete [OF _ _ assms(2), of _ "[]"] assms(3) in \<open>force simp: bdb_DeleteWithTxn_def\<close>)
  then show ?thesis by (auto simp: bdb_Delete_def)
qed

end

context badger
begin

lemma page_from:
  fixes d
  assumes "bd_ViewTxn B d = Ok t" and "L = items_with pre (bt_Items B t)"
    and "cur = (if j = 0 then [] else item_Key (L ! j))" and "j = 0 \<or> j < length L"
  shows "bdb_IterateByPrefix B ctx_background pre cur (Some (int n)) collect d acc =
    (Ok (if j + n < length L then item_Key (L ! (j + n)) else []), acc @ map kv (take n (drop j L)))"
proof -
  let ?p = "if cur \<noteq> [] then cur else pre"
  let ?xs = "seek ?p (bt_Items B t)"
  note srt = Items_sorted [of t, THEN conjunct1] Items_sorted [of t, THEN conjunct2]
  have ne: "item_Key (L ! j) \<noteq> []" if "j < length L"
    using nth_mem [OF that] assms(2) by (auto simp: items_with_def Items_view)
  have rd: "readable ?xs"
    using items_readable [of t] by (auto simp: readable_def seek_def dest: set_dropWhileD)
  have tw: "takeWhile (\<lambda>i. prefix pre (item_Key i)) ?xs = drop j L"
    and hd: "Iterate_loop ctx_background pre (Some (int n)) collect 0 0 ?p ?xs acc
      = Iterate_loop ctx_background pre (Some (int n)) collect 0 0 pre ?xs acc"
  proof -
    show "takeWhile (\<lambda>i. prefix pre (item_Key i)) ?xs = drop j L"
      using assms(3,4) ne takeWhile_seek [OF srt(1)] seek_within(1) [OF srt, of j pre] by (auto simp: assms(2))
    show "Iterate_loop ctx_background pre (Some (int n)) collect 0 0 ?p ?xs acc
      = Iterate_loop ctx_background pre (Some (int n)) collect 0 0 pre ?xs acc"
    proof (cases "j = 0")
      case False
      then have j: "j < length L" "cur = item_Key (L ! j)" using assms(3,4) by auto
      then obtain i rest where "?xs = i # rest" "item_Key i = cur"
        using seek_within(2) [OF srt, of j pre] ne by (auto simp: assms(2))
      moreover have "prefix pre cur" using j nth_mem [OF j(1)] assms(2) by (simp add: items_with_def)
      ultimately show ?thesis using Iterate_loop_cursor [of cur i pre] j ne by simp
    qed (simp add: assms(3))
  qed
  show ?thesis
    unfolding bdb_IterateByPrefix_def assms(1) Let_def
    using hd Iterate_collect [OF rd, of 0 n pre 0 acc] tw by (auto simp: min_def nth_drop)
qed

lemma pages_from:
  assumes "bd_ViewTxn B d = Ok t" and "L = items_with pre (bt_Items B t)" and "0 < n"
    and "cur = (if j = 0 then [] else item_Key (L ! j))" and "j = 0 \<or> j < length L" and "length L - j < f"
  shows "pages B pre n f cur d acc = Some (acc @ map kv (drop j L))"
  using assms(4-)
proof (induction f arbitrary: j cur acc)
  case (Suc f)
  note p = page_from [OF assms(1,2) Suc.prems(1,2), of n acc]
  show ?case
  proof (cases "j + n < length L")
    case True
    have "item_Key (L ! (j + n)) \<noteq> []"
      using nth_mem [OF True] assms(2) by (auto simp: items_with_def Items_view)
    moreover have "take n (drop j L) @ drop (j + n) L = drop j L"
      by (metis append_take_drop_id drop_drop add.commute)
    then have "map kv (take n (drop j L)) @ map kv (drop (j + n) L) = map kv (drop j L)"
      by (metis map_append)
    ultimately show ?thesis
      using p True Suc.IH [of "item_Key (L ! (j + n))" "j + n"] Suc.prems(3) assms(3) by simp
  next
    case False
    then show ?thesis using p by simp
  qed
qed simp

lemma pages_spec:
  assumes "bdb_GetByPrefix B ctx_background pre d = Ok kvs" and "0 < n" and "length kvs < f"
  shows "pages B pre n f [] d [] = Some kvs"
proof -
  obtain t where t: "bd_ViewTxn B d = Ok t" "mt_view (txn t) = latest vers d" by (rule view_txnE)
  have "readable (seek pre (bt_Items B t))"
    using items_readable [of t] by (auto simp: readable_def seek_def dest: set_dropWhileD)
  then have "kvs = map kv (items_with pre (bt_Items B t))"
    using assms(1) t(1) Items_sorted [of t]
    by (simp add: bdb_GetByPrefix_def bd_View_def bdb_GetByPrefixWithTxn_def GetByPrefix_loop_eq takeWhile_seek)
  then show ?thesis using pages_from [OF t(1) refl assms(2), of "[]" 0 pre f "[]"] assms(3) by simp
qed

end

context badger
begin

lemma IncrByWithTxn_spec:
  assumes "k \<noteq> []" and "mt_update (txn t)" and "counter_of (mt_view (txn t) k) = Ok c"
    and "fits t ((k, Some (Uint64ToBytes (c + delta))) # ws)"
  shows "\<exists>t'. bdb_IncrByWithTxn B k delta t = (Ok (), t') \<and> same_base (txn t) (txn t') \<and> fits t' ws
    \<and> mt_view (txn t') = (mt_view (txn t))(k \<mapsto> Uint64ToBytes (c + delta))"
proof -
  obtain t1 where g: "bdb_GetWithTxn B k t = (Ok (mt_view (txn t) k), t1)" "txn t1 = mt_read k (txn t)" "fits t1 = fits t"
    using GetWithTxn_spec [OF assms(1)] by blast
  obtain t2 where s: "bt_SetEntry B k (Uint64ToBytes (c + delta)) None t1 = (Ok (), t2)"
    "txn t2 = mt_write k (Some (Uint64ToBytes (c + delta))) (txn t1)" "fits t2 ws"
    using SetEntry [of t1 k] assms g by auto
  have "bdb_IncrByWithTxn B k delta t = (Ok (), t2)"
    using assms(3) g(1) s(1)
    by (cases "mt_view (txn t) k") (simp_all add: bdb_IncrByWithTxn_def call_simps counter_of_def bdb_SetWithTxn_def)
  then show ?thesis using s(2,3) g(2) by simp
qed

lemma DecrByWithTxn_spec:
  assumes "k \<noteq> []" and "mt_update (txn t)" and "counter_of (mt_view (txn t) k) = Ok c"
    and "fits t ((k, Some (Uint64ToBytes (decr c delta))) # ws)"
  shows "\<exists>t'. bdb_DecrByWithTxn B k delta t = (Ok (), t') \<and> same_base (txn t) (txn t') \<and> fits t' ws
    \<and> mt_view (txn t') = (mt_view (txn t))(k \<mapsto> Uint64ToBytes (decr c delta))"
proof -
  obtain t1 where g: "bdb_GetWithTxn B k t = (Ok (mt_view (txn t) k), t1)" "txn t1 = mt_read k (txn t)" "fits t1 = fits t"
    using GetWithTxn_spec [OF assms(1)] by blast
  obtain t2 where s: "bt_SetEntry B k (Uint64ToBytes (decr c delta)) None t1 = (Ok (), t2)"
    "txn t2 = mt_write k (Some (Uint64ToBytes (decr c delta))) (txn t1)" "fits t2 ws"
    using SetEntry [of t1 k] assms g by auto
  have "bdb_DecrByWithTxn B k delta t = (Ok (), t2)"
    using assms(3) g(1) s(1)
    by (cases "mt_view (txn t) k")
      (auto simp: bdb_DecrByWithTxn_def call_simps counter_of_def bdb_SetWithTxn_def simp flip: decr_def)
  then show ?thesis using s(2,3) g(2) by simp
qed

lemma IncrBy_spec:
  assumes "\<not> managed" and "k \<noteq> []" and "counter_of (latest vers d k) = Ok c"
    and "cap [(k, Some (Uint64ToBytes (c + delta)))]"
  shows "\<exists>d'. bdb_IncrBy B False k delta d = (Ok (), d')
    \<and> latest vers d' = (latest vers d)(k \<mapsto> Uint64ToBytes (c + delta))"
  unfolding bdb_IncrBy_def if_False
proof (rule run_update(2) [OF assms(1)])
  fix t assume "mt_view (txn t) = latest vers d" "mt_update (txn t)" "\<And>ws. cap ws \<Longrightarrow> fits t ws"
  then show "\<exists>t'. bdb_IncrByWithTxn B k delta t = (Ok (), t')
      \<and> mt_view (txn t') = (latest vers d)(k \<mapsto> Uint64ToBytes (c + delta)) \<and> same_base (txn t) (txn t')"
    using IncrByWithTxn_spec [OF assms(2), of t c delta "[]"] assms(3,4) by auto
qed

lemma DecrBy_spec:
  assumes "\<not> managed" and "k \<noteq> []" and "counter_of (latest vers d k) = Ok c"
    and "cap [(k, Some (Uint64ToBytes (decr c delta)))]"
  shows "\<exists>d'. bdb_DecrBy B False k delta d = (Ok (), d')
    \<and> latest vers d' = (latest vers d)(k \<mapsto> Uint64ToBytes (decr c delta))"
  unfolding bdb_DecrBy_def if_False
proof (rule run_update(2) [OF assms(1)])
  fix t assume "mt_view (txn t) = latest vers d" "mt_update (txn t)" "\<And>ws. cap ws \<Longrightarrow> fits t ws"
  then show "\<exists>t'. bdb_DecrByWithTxn B k delta t = (Ok (), t')
      \<and> mt_view (txn t') = (latest vers d)(k \<mapsto> Uint64ToBytes (decr c delta)) \<and> same_base (txn t) (txn t')"
    using DecrByWithTxn_spec [OF assms(2), of t c delta "[]"] assms(3,4) by auto
qed

lemma DeleteByPrefix_loop_spec:
  assumes "mt_update (txn t)" and "\<forall>i \<in> set items. item_Key i \<noteq> []"
    and "fits t (map (\<lambda>i. (item_Key i, None)) (takeWhile (\<lambda>i. prefix pre (item_Key i)) items))"
  shows "\<exists>t'. DeleteByPrefix_loop B ctx_background pre n items t = (Ok (), t') \<and> same_base (txn t) (txn t')
    \<and> mt_view (txn t') = (\<lambda>k. if k \<in> item_Key ` set (takeWhile (\<lambda>i. prefix pre (item_Key i)) items) then None
                              else mt_view (txn t) k)"
  using assms
proof (induction items arbitrary: n t)
  case (Cons i items)
  show ?case
  proof (cases "prefix pre (item_Key i)")
    case True
    let ?t0 = "bt_Item B (item_Key i) t"
    obtain t1 where d: "bt_Delete B (item_Key i) ?t0 = (Ok (), t1)" "txn t1 = mt_write (item_Key i) None (txn ?t0)"
      "fits t1 (map (\<lambda>i. (item_Key i, None)) (takeWhile (\<lambda>i. prefix pre (item_Key i)) items))"
      using Delete [of ?t0 "item_Key i"] Cons.prems True by (auto simp: Item_read)
    then obtain t2 where "DeleteByPrefix_loop B ctx_background pre (Suc n) items t1 = (Ok (), t2)"
      "same_base (txn t1) (txn t2)"
      "mt_view (txn t2) = (\<lambda>k. if k \<in> item_Key ` set (takeWhile (\<lambda>i. prefix pre (item_Key i)) items) then None
                              else mt_view (txn t1) k)"
      using Cons.IH [of t1 "Suc n"] Cons.prems by (auto simp: Item_read)
    moreover have "mt_view (txn t1) = (mt_view (txn t))(item_Key i := None)" "same_base (txn t) (txn t1)"
      using d(2) by (simp_all add: Item_read)
    ultimately show ?thesis
      using True d(1) same_base_trans [of "txn t" "txn t1"]
      by (auto simp: ctx_background_def bdb_DeleteWithTxn_def fun_eq_iff)
  qed simp
qed simp

lemma DeleteByPrefix_spec:
  assumes "\<not> managed"
    and "\<And>ks. set ks = {k. prefix pre k \<and> k \<noteq> [] \<and> latest vers d k \<noteq> None} \<Longrightarrow> distinct ks \<Longrightarrow> cap (map (\<lambda>k. (k, None)) ks)"
  shows "\<exists>d'. bdb_DeleteByPrefix B False ctx_background pre d = (Ok (), d')
    \<and> latest vers d' = (\<lambda>k. if prefix pre k \<and> k \<noteq> [] then None else latest vers d k)"
  unfolding bdb_DeleteByPrefix_def if_False
proof (rule run_update(1) [OF assms(1)])
  fix t assume v: "mt_view (txn t) = latest vers d" and u: "mt_update (txn t)" and c: "\<And>ws. cap ws \<Longrightarrow> fits t ws"
  note w = items_under [OF v, of pre]
  let ?L = "items_with pre (bt_Items B t)"
  have keys: "item_Key ` set ?L = {k. prefix pre k \<and> k \<noteq> [] \<and> latest vers d k \<noteq> None}"
  proof -
    have "dom (map_of (map kv ?L)) = {k. prefix pre k \<and> k \<noteq> [] \<and> latest vers d k \<noteq> None}"
      by (auto simp: w(3) split: if_splits)
    then show ?thesis by (simp add: dom_map_of_conv_image_fst image_image kv_def)
  qed
  have "fits t (map (\<lambda>k. (k, None)) (map item_Key ?L))"
    using keys w(2) by (intro c assms(2)) (simp_all add: kv_def comp_def)
  moreover have "\<forall>i \<in> set (seek pre (bt_Items B t)). item_Key i \<noteq> []"
    by (auto simp: seek_def Items_view dest: set_dropWhileD)
  ultimately obtain t' where "DeleteByPrefix_loop B ctx_background pre 0 (seek pre (bt_Items B t)) t = (Ok (), t')"
    "same_base (txn t) (txn t')"
    "mt_view (txn t') = (\<lambda>k. if k \<in> item_Key ` set ?L then None else mt_view (txn t) k)"
    using DeleteByPrefix_loop_spec [OF u, of "seek pre (bt_Items B t)" pre 0] Items_sorted [of t]
    by (auto simp: takeWhile_seek comp_def)
  then show "\<exists>t'. bdb_DeleteByPrefixWithTxn B ctx_background pre t = (Ok (), t')
      \<and> mt_view (txn t') = (\<lambda>k. if prefix pre k \<and> k \<noteq> [] then None else latest vers d k) \<and> same_base (txn t) (txn t')"
    using keys v by (auto simp: bdb_DeleteByPrefixWithTxn_def fun_eq_iff)
qed

lemma DeleteByPrefix_cancelled:
  assumes "\<not> managed" and "ctx 0"
  shows "\<exists>d'. bdb_DeleteByPrefix B False ctx pre d = (Ok (), d') \<and> latest vers d' = latest vers d"
  unfolding bdb_DeleteByPrefix_def if_False
proof (rule run_update(1) [OF assms(1)])
  fix t assume "mt_view (txn t) = latest vers d"
  moreover have "DeleteByPrefix_loop B ctx pre 0 items t = (Ok (), t)" for items
    using assms(2) by (cases items) simp_all
  ultimately show "\<exists>t'. bdb_DeleteByPrefixWithTxn B ctx pre t = (Ok (), t')
      \<and> mt_view (txn t') = latest vers d \<and> same_base (txn t) (txn t')"
    by (simp add: bdb_DeleteByPrefixWithTxn_def)
qed

end

text \<open>A store opened without managed timestamps keeps the contract of a local store.\<close>

locale badger_plain = badger B False vers txn fits cap
  for B :: "('d, 't) badger_api" and vers txn fits cap

sublocale badger_plain \<subseteq> kv: kv_store "latest vers" "\<lambda>k w. cap [(k, w)]" "bdb_Get B" "\<lambda>k b. bdb_Set B False k b []"
  "bdb_Delete B False" "bdb_IncrBy B False" "bdb_DecrBy B False"
  using Get_spec Set_spec Delete_spec IncrBy_spec DecrBy_spec by unfold_locales auto

interpretation mp: badger_plain "mem_badger False" "\<lambda>h. h" mem_spec "\<lambda>_ _. True" "\<lambda>_. True"
  by unfold_locales

context badger_plain
begin

lemmas get_after_set = kv.get_after_set
lemmas incr_then_decr = kv.incr_then_decr

end

lemma demo_latest:
  "latest (\<lambda>h. h) demo_kvs ''a2'' = Some [2]" "latest (\<lambda>h. h) demo_kvs ''b'' = Some [9]"
  by (simp_all add: latest_def demo_kvs_def mvcc_at_def)

section \<open>Properties\<close>

text \<open>C23: a value written is the value read, and no other key changes: after a \<^verbatim>\<open>Set\<close> that BadgerDB takes,
  every \<^verbatim>\<open>Get\<close> returns what it returned before, except at the key written.\<close>

theorem store_set_get:
  assumes "badger_plain B vers txn fits cap" and "k \<noteq> []" and "cap [(k, Some b)]"
  shows "\<exists>d'. bdb_Set B False k b [] d = (Ok (), d')
    \<and> (\<forall>k'. k' \<noteq> [] \<longrightarrow> bdb_Get B k' d' = (if k' = k then Ok (Some b) else bdb_Get B k' d))"
  using assms(2,3) by (rule badger_plain.get_after_set [OF assms(1)])

theorem store_set_get_witness:
  "\<exists>d'. bdb_Set (mem_badger False) False ''k'' [7] [] demo_kvs = (Ok (), d') \<and> bdb_Get (mem_badger False) ''k'' d' = Ok (Some [7])"
  using store_set_get [OF mp.badger_plain_axioms, of "''k''" "[7]" demo_kvs] by auto



text \<open>C20: reading page by page visits every entry once. On an unchanged database, following the cursors of
  \<^verbatim>\<open>IterateByPrefix\<close> with any page size collects exactly what one prefix read returns, and ends.\<close>

theorem pages_cover_prefix:
  assumes "badger B managed vers txn fits cap" and "bdb_GetByPrefix B ctx_background pre d = Ok kvs"
    and "0 < n" and "length kvs < f"
  shows "pages B pre n f [] d [] = Some kvs"
  using assms(2-) by (rule badger.pages_spec [OF assms(1)])

theorem pages_cover_prefix_witness:
  "bdb_GetByPrefix (mem_badger False) ctx_background ''a'' demo_kvs = Ok [(''a1'', [1]), (''a2'', [2]), (''a3'', [3])]
   \<and> pages (mem_badger False) ''a'' 2 4 [] demo_kvs [] = Some [(''a1'', [1]), (''a2'', [2]), (''a3'', [3])]"
proof -
  have "bdb_GetByPrefix (mem_badger False) ctx_background ''a'' demo_kvs = Ok [(''a1'', [1]), (''a2'', [2]), (''a3'', [3])]"
    by code_simp
  with pages_cover_prefix [OF mb.badger_axioms this, of 2 4] show ?thesis by simp
qed

text \<open>C25: counters. Adding to a counter and taking the same amount away restores it, unless the addition
  wrapped around, in which case the counter ends at zero.\<close>

theorem counter_incr_decr:
  assumes "badger_plain B vers txn fits cap" and "k \<noteq> []" and "counter_of (latest vers d k) = Ok c"
    and "\<And>w. cap [(k, Some (Uint64ToBytes w))]"
  shows "\<exists>d1 d2. bdb_IncrBy B False k delta d = (Ok (), d1) \<and> bdb_DecrBy B False k delta d1 = (Ok (), d2)
    \<and> bdb_Get B k d2 = Ok (Some (Uint64ToBytes (if c \<le> c + delta then c else 0)))"
  using assms(2-) by (rule badger_plain.incr_then_decr [OF assms(1)])

theorem counter_incr_decr_witness:
  "\<exists>d1 d2. bdb_IncrBy (mem_badger False) False ''n'' 5 demo_kvs = (Ok (), d1)
     \<and> bdb_DecrBy (mem_badger False) False ''n'' 5 d1 = (Ok (), d2)
     \<and> bdb_Get (mem_badger False) ''n'' d2 = Ok (Some (Uint64ToBytes 0))"
proof -
  have "counter_of (latest (\<lambda>h. h) demo_kvs ''n'') = Ok 0"
    by (simp add: counter_of_def latest_def demo_kvs_def mvcc_at_def)
  from counter_incr_decr [OF mp.badger_plain_axioms _ this, of 5] show ?thesis by simp
qed

text \<open>C26: \<^verbatim>\<open>DeleteByPrefix\<close> removes every key under the prefix and nothing else.\<close>

theorem delete_prefix_exact:
  assumes "badger_plain B vers txn fits cap"
    and "\<And>ks. set ks = {k. prefix pre k \<and> k \<noteq> [] \<and> latest vers d k \<noteq> None} \<Longrightarrow> distinct ks \<Longrightarrow> cap (map (\<lambda>k. (k, None)) ks)"
  shows "\<exists>d'. bdb_DeleteByPrefix B False ctx_background pre d = (Ok (), d')
    \<and> latest vers d' = (\<lambda>k. if prefix pre k \<and> k \<noteq> [] then None else latest vers d k)"
  by (rule badger.DeleteByPrefix_spec [OF badger_plain.axioms [OF assms(1)]]) (use assms(2) in simp_all)

theorem delete_prefix_exact_witness:
  "\<exists>d'. bdb_DeleteByPrefix (mem_badger False) False ctx_background ''a'' demo_kvs = (Ok (), d')
     \<and> latest (\<lambda>h. h) d' ''a2'' = None \<and> latest (\<lambda>h. h) d' ''b'' = Some [9]"
  using delete_prefix_exact [OF mp.badger_plain_axioms, of "''a''" demo_kvs] demo_latest by auto

text \<open>C32: a cancelled \<^verbatim>\<open>DeleteByPrefix\<close> reports success: with the context done from the start it returns nil
  and deletes nothing.\<close>

theorem cancelled_delete_reports_success:
  assumes "badger_plain B vers txn fits cap" and "ctx 0"
  shows "\<exists>d'. bdb_DeleteByPrefix B False ctx pre d = (Ok (), d') \<and> latest vers d' = latest vers d"
  by (rule badger.DeleteByPrefix_cancelled [OF badger_plain.axioms [OF assms(1)]]) (use assms(2) in simp_all)

theorem cancelled_delete_reports_success_witness:
  "\<exists>d'. bdb_DeleteByPrefix (mem_badger False) False (\<lambda>_. True) ''a'' demo_kvs = (Ok (), d')
     \<and> latest (\<lambda>h. h) d' ''a2'' = Some [2]"
  using cancelled_delete_reports_success [OF mp.badger_plain_axioms, of "\<lambda>_. True" "''a''" demo_kvs] demo_latest by auto

text \<open>A scan whose cursor key has been deleted in the meantime ends early: the next page is empty and
  the cursor says the range is exhausted, although a key of the range is still there.\<close>

lemma cursor_deleted_ends_scan:
  "fst (bdb_IterateByPrefix (mem_badger False) ctx_background ''a'' [] (Some 1) collect demo_kvs []) = Ok ''a2''
   \<and> fst (bdb_Delete (mem_badger False) False ''a2'' demo_kvs) = Ok ()
   \<and> bdb_IterateByPrefix (mem_badger False) ctx_background ''a'' ''a2'' (Some 1) collect
       (snd (bdb_Delete (mem_badger False) False ''a2'' demo_kvs)) [] = (Ok [], [])
   \<and> bdb_Get (mem_badger False) ''a3'' (snd (bdb_Delete (mem_badger False) False ''a2'' demo_kvs)) = Ok (Some [3])"
  by code_simp

end
