(* ===== verification/Fsm.thy ===== *)
theory Fsm
  imports Badger_Store
begin

text \<open>
  \<^verbatim>\<open>fsm.go\<close> and \<^verbatim>\<open>replication.go\<close>: the state machine that applies committed Raft log entries to the
  local database, and the snapshots it makes and restores. The libraries the state machine calls are
  bundled in the record \<open>libs\<close>; backup and restore of BadgerDB are the record \<open>backup_api\<close>.
\<close>

section \<open>Libraries\<close>

record ('d, 't, 'j, 'm, 'fd, 'set, 'files, 'desc) libs =
  lib_badger :: "('d, 't) badger_api"
  lib_json :: "'j json_api"
  lib_proto :: "('m, 'fd) proto_api"
  lib_desc :: "('set, 'files, 'desc, 'm) desc_api"
  lib_store :: "'set desc_store"
  lib_codec :: cmd_codec

text \<open>\<^verbatim>\<open>Backup(w, since)\<close> with the highest version and the bytes written to \<open>w\<close>, \<^verbatim>\<open>DropAll\<close>, and
  \<^verbatim>\<open>Load(r, maxPendingWrites)\<close>.\<close>

record 'd backup_api =
  bk_Backup :: "u64 \<Rightarrow> 'd \<Rightarrow> (u64 \<times> bytes) res"
  bk_DropAll :: "('d, unit) call"
  bk_Load :: "bytes \<Rightarrow> nat \<Rightarrow> ('d, unit) call"

section \<open>Applying commands\<close>

definition getTtl :: "Command \<Rightarrow> duration list" where
  "getTtl cmd = (case cmd_Ttl cmd of Some d \<Rightarrow> [d] | None \<Rightarrow> [])"

definition applySet :: "('d, 't, 'j, 'm, 'fd, 'set, 'files, 'desc) libs \<Rightarrow> Command \<Rightarrow> ('d, unit) call" where
  "applySet L cmd =
     bdb_newTransactionAt (lib_badger L) (cmd_ReadTs cmd) (cmd_CommitTs cmd)
       (bdb_SetWithTxn (lib_badger L) (cmd_Key cmd) (cmd_Value cmd) (getTtl cmd))"

text \<open>The update of one command inside a transaction, which \<^verbatim>\<open>applyUpdate\<close> and \<^verbatim>\<open>applyTransaction\<close>
  both spell out. Reading the delta type of a command without update metadata dereferences nil.\<close>

definition updateWithTxn ::
    "('d, 't, 'j, 'm, 'fd, 'set, 'files, 'desc) libs \<Rightarrow> Command \<Rightarrow> ('t, unit) call" where
  "updateWithTxn L cmd =
     (case cmd_UpdateMeta cmd of
        None \<Rightarrow> panicS ''invalid memory address or nil pointer dereference''
      | Some meta \<Rightarrow>
          (case meta_UpdateDeltaType meta of
             PROTOBUF \<Rightarrow>
               bindS (liftR (UnmarshalUpdateDelta (lib_json L) (lib_proto L) (lib_desc L) (lib_store L) cmd)) (\<lambda>v.
               case v of
                 ProtoDelta msg \<Rightarrow>
                   bdb_UpdateProtobufWithTxn (lib_badger L) (lib_proto L) (cmd_Key cmd) msg (getTtl cmd)
               | JsonDelta _ \<Rightarrow> panicS ''invalid memory address or nil pointer dereference'')
           | JSON \<Rightarrow>
               bindS (liftR (UnmarshalUpdateDelta (lib_json L) (lib_proto L) (lib_desc L) (lib_store L) cmd)) (\<lambda>v.
               bdb_UpdateJsonWithTxn (lib_badger L) (lib_json L) (cmd_Key cmd)
                 (case v of JsonDelta msg \<Rightarrow> msg | ProtoDelta _ \<Rightarrow> None) (getTtl cmd))
           | _ \<Rightarrow> failS ErrUnknownOp))"

definition applyUpdate :: "('d, 't, 'j, 'm, 'fd, 'set, 'files, 'desc) libs \<Rightarrow> Command \<Rightarrow> ('d, unit) call" where
  "applyUpdate L cmd =
     bdb_newTransactionAt (lib_badger L) (cmd_ReadTs cmd) (cmd_CommitTs cmd) (updateWithTxn L cmd)"

definition applyDelete :: "('d, 't, 'j, 'm, 'fd, 'set, 'files, 'desc) libs \<Rightarrow> Command \<Rightarrow> ('d, unit) call" where
  "applyDelete L cmd =
     bdb_newTransactionAt (lib_badger L) (cmd_ReadTs cmd) (cmd_CommitTs cmd)
       (bdb_DeleteWithTxn (lib_badger L) (cmd_Key cmd))"

definition applyDeleteByPrefix ::
    "('d, 't, 'j, 'm, 'fd, 'set, 'files, 'desc) libs \<Rightarrow> ctx \<Rightarrow> Command \<Rightarrow> ('d, unit) call" where
  "applyDeleteByPrefix L ctx cmd =
     bdb_newTransactionAt (lib_badger L) (cmd_ReadTs cmd) (cmd_CommitTs cmd)
       (bdb_DeleteByPrefixWithTxn (lib_badger L) ctx (cmd_Prefix cmd))"

definition applyIncrBy :: "('d, 't, 'j, 'm, 'fd, 'set, 'files, 'desc) libs \<Rightarrow> Command \<Rightarrow> ('d, unit) call" where
  "applyIncrBy L cmd =
     bdb_newTransactionAt (lib_badger L) (cmd_ReadTs cmd) (cmd_CommitTs cmd)
       (bdb_IncrByWithTxn (lib_badger L) (cmd_Key cmd) (cmd_IncrOrDecrDelta cmd))"

definition applyDecrBy :: "('d, 't, 'j, 'm, 'fd, 'set, 'files, 'desc) libs \<Rightarrow> Command \<Rightarrow> ('d, unit) call" where
  "applyDecrBy L cmd =
     bdb_newTransactionAt (lib_badger L) (cmd_ReadTs cmd) (cmd_CommitTs cmd)
       (bdb_DecrByWithTxn (lib_badger L) (cmd_Key cmd) (cmd_IncrOrDecrDelta cmd))"

definition subWithTxn ::
    "('d, 't, 'j, 'm, 'fd, 'set, 'files, 'desc) libs \<Rightarrow> Command \<Rightarrow> ('t, unit) call" where
  "subWithTxn L subCmd =
     (case cmd_Type subCmd of
        SET \<Rightarrow> bdb_SetWithTxn (lib_badger L) (cmd_Key subCmd) (cmd_Value subCmd) (getTtl subCmd)
      | UPDATE \<Rightarrow> updateWithTxn L subCmd
      | DELETE \<Rightarrow> bdb_DeleteWithTxn (lib_badger L) (cmd_Key subCmd)
      | INCR_BY \<Rightarrow> bdb_IncrByWithTxn (lib_badger L) (cmd_Key subCmd) (cmd_IncrOrDecrDelta subCmd)
      | DECR_BY \<Rightarrow> bdb_DecrByWithTxn (lib_badger L) (cmd_Key subCmd) (cmd_IncrOrDecrDelta subCmd)
      | _ \<Rightarrow> failS ErrUnknownOp)"

fun subsWithTxn ::
    "('d, 't, 'j, 'm, 'fd, 'set, 'files, 'desc) libs \<Rightarrow> Command list \<Rightarrow> ('t, unit) call" where
  "subsWithTxn L [] = retS ()"
| "subsWithTxn L (sc # subs) = bindS (subWithTxn L sc) (\<lambda>_. subsWithTxn L subs)"

definition applyTransaction ::
    "('d, 't, 'j, 'm, 'fd, 'set, 'files, 'desc) libs \<Rightarrow> Command \<Rightarrow> ('d, unit) call" where
  "applyTransaction L cmd =
     bdb_newTransactionAt (lib_badger L) (cmd_ReadTs cmd) (cmd_CommitTs cmd)
       (subsWithTxn L (cmd_SubCommands cmd))"

definition applyCommand ::
    "('d, 't, 'j, 'm, 'fd, 'set, 'files, 'desc) libs \<Rightarrow> ctx \<Rightarrow> Command \<Rightarrow> ('d, unit) call" where
  "applyCommand L ctx c =
     (case cmd_Type c of
        SET \<Rightarrow> applySet L c
      | UPDATE \<Rightarrow> applyUpdate L c
      | DELETE \<Rightarrow> applyDelete L c
      | DELETE_BY_PREFIX \<Rightarrow> applyDeleteByPrefix L ctx c
      | INCR_BY \<Rightarrow> applyIncrBy L c
      | DECR_BY \<Rightarrow> applyDecrBy L c
      | TRANSACTION \<Rightarrow> applyTransaction L c
      | _ \<Rightarrow> failS ErrUnknownOp)"

definition fsm_Apply ::
    "('d, 't, 'j, 'm, 'fd, 'set, 'files, 'desc) libs \<Rightarrow> ctx \<Rightarrow> bytes \<Rightarrow> ('d, unit) call" where
  "fsm_Apply L ctx data =
     bindS (liftR (DecodeCommand (lib_codec L) data)) (applyCommand L ctx)"

section \<open>Snapshots\<close>

definition maxRestorePendingTxns :: nat where
  "maxRestorePendingTxns = 256"

definition TakeSnapshot :: "'d backup_api \<Rightarrow> 'd \<Rightarrow> (u64 \<times> bytes) res" where
  "TakeSnapshot K d = bk_Backup K 0 d"

definition Restore :: "'d backup_api \<Rightarrow> bytes \<Rightarrow> ('d, unit) call" where
  "Restore K data d =
     (case bk_DropAll K d of
        (Err e, d') \<Rightarrow> (Err (ErrText ''failed to drop existing data before snapshot restore''), d')
      | (Panicked p, d') \<Rightarrow> (Panicked p, d')
      | (Ok _, d') \<Rightarrow> bk_Load K data maxRestorePendingTxns d')"

definition fsm_RestoreSnapshot :: "'d backup_api \<Rightarrow> bytes \<Rightarrow> ('d, unit) call" where
  "fsm_RestoreSnapshot K snapshotData = Restore K snapshotData"

definition fsm_CreateSnapshot :: "'d backup_api \<Rightarrow> 'd \<Rightarrow> (u64 \<times> bytes) res" where
  "fsm_CreateSnapshot K d = TakeSnapshot K d"

section \<open>Specification of a transaction\<close>

text \<open>What an update makes of the stored value, the write that a sub-command amounts to on a given content,
  and the writes of a list of sub-commands.\<close>

definition update_value ::
    "('d, 't, 'j, 'm, 'fd, 'set, 'files, 'desc) libs \<Rightarrow> bytes option \<Rightarrow> Command \<Rightarrow> bytes res" where
  "update_value L old cmd =
     (case cmd_UpdateMeta cmd of
        None \<Rightarrow> Panicked ''invalid memory address or nil pointer dereference''
      | Some meta \<Rightarrow>
          if meta_UpdateDeltaType meta \<notin> {JSON, PROTOBUF} then Err ErrUnknownOp
          else bindR (UnmarshalUpdateDelta (lib_json L) (lib_proto L) (lib_desc L) (lib_store L) cmd) (\<lambda>v.
          case v of
            JsonDelta delta \<Rightarrow>
              bindR (case old of Some b \<Rightarrow> json_Unmarshal (lib_json L) b | None \<Rightarrow> Ok (Some [])) (\<lambda>full.
              bindR (maps_Copy full delta) (json_Marshal (lib_json L)))
          | ProtoDelta msg \<Rightarrow>
              (case old of Some b \<Rightarrow> MergeProtoDelta (lib_proto L) b msg | None \<Rightarrow> proto_Marshal (lib_proto L) msg)))"

definition sub_spec ::
    "('d, 't, 'j, 'm, 'fd, 'set, 'files, 'desc) libs \<Rightarrow> (key \<rightharpoonup> bytes) \<Rightarrow> Command \<Rightarrow> (key \<times> bytes option) res" where
  "sub_spec L m sc =
     (case cmd_Type sc of
        SET \<Rightarrow> Ok (cmd_Key sc, Some (cmd_Value sc))
      | DELETE \<Rightarrow> Ok (cmd_Key sc, None)
      | INCR_BY \<Rightarrow> bindR (counter_of (m (cmd_Key sc)))
          (\<lambda>c. Ok (cmd_Key sc, Some (Uint64ToBytes (c + cmd_IncrOrDecrDelta sc))))
      | DECR_BY \<Rightarrow> bindR (counter_of (m (cmd_Key sc)))
          (\<lambda>c. Ok (cmd_Key sc, Some (Uint64ToBytes (decr c (cmd_IncrOrDecrDelta sc)))))
      | UPDATE \<Rightarrow> bindR (update_value L (m (cmd_Key sc)) sc) (\<lambda>b. Ok (cmd_Key sc, Some b))
      | _ \<Rightarrow> Err ErrUnknownOp)"

fun subs_spec ::
    "('d, 't, 'j, 'm, 'fd, 'set, 'files, 'desc) libs \<Rightarrow> (key \<rightharpoonup> bytes) \<Rightarrow> Command list
     \<Rightarrow> (key \<times> bytes option) list res" where
  "subs_spec L m [] = Ok []"
| "subs_spec L m (sc # subs) =
     bindR (sub_spec L m sc) (\<lambda>(k, w). bindR (subs_spec L (m(k := w)) subs) (\<lambda>ws. Ok ((k, w) # ws)))"

text \<open>Commands with a key and without a time to live; commands that read the key they write; a command
  none of whose read keys has a version above its read timestamp.\<close>

definition plain_cmd :: "Command \<Rightarrow> bool" where
  "plain_cmd sc \<longleftrightarrow> cmd_Key sc \<noteq> [] \<and> cmd_Ttl sc = None"

definition reads_key :: "Command \<Rightarrow> bool" where
  "reads_key sc \<longleftrightarrow> cmd_Type sc \<in> {UPDATE, INCR_BY, DECR_BY}"

definition reads_fresh :: "mvcc \<Rightarrow> Command \<Rightarrow> bool" where
  "reads_fresh h c \<longleftrightarrow>
     (\<forall>(ts, k, w) \<in> set h. \<forall>sc \<in> set (cmd_SubCommands c). reads_key sc \<and> cmd_Key sc = k \<longrightarrow> ts \<le> cmd_ReadTs c)"

text \<open>An operation of a transaction that amounts to one write, after a read of the key if \<open>rd\<close> holds.\<close>

definition writes_one :: "('t \<Rightarrow> mtxn) \<Rightarrow> ('t \<Rightarrow> (key \<times> bytes option) list \<Rightarrow> bool) \<Rightarrow> bool \<Rightarrow> ('t, unit) call \<Rightarrow> key
    \<Rightarrow> bytes option \<Rightarrow> (key \<times> bytes option) list \<Rightarrow> 't \<Rightarrow> bool" where
  "writes_one txn fits rd fn k w ws t \<longleftrightarrow>
     (\<exists>t'. fn t = (Ok (), t') \<and> fits t' ws \<and>
        txn t' = mt_write k w (if rd then mt_read k (txn t) else txn t))"

text \<open>A single command as a transaction with one sub-command.\<close>

definition as_transaction :: "Command \<Rightarrow> Command" where
  "as_transaction c = set_SubCommands [c] (set_CommitTs (cmd_CommitTs c) (set_ReadTs (cmd_ReadTs c)
     (NewTransactionCommand (cmd_Id c))))"

section \<open>A concrete state machine\<close>

definition demo_libs :: "(mvcc, mem_txn, unit, bytes, unit, string list, string list, string) libs" where
  "demo_libs = \<lparr>lib_badger = mem_badger True, lib_json = demo_json, lib_proto = demo_proto, lib_desc = demo_desc,
     lib_store = None, lib_codec = \<lparr>codec_Marshal = (\<lambda>c. Ok []), codec_Unmarshal = (\<lambda>b. Ok (NewTransactionCommand ''t''))\<rparr>\<rparr>"

definition demo_batch :: Command where
  "demo_batch = set_SubCommands [NewSetCommand ''s'' ''x'' [1] [], NewIncrByCommand ''i'' ''n'' 5, NewDeleteCommand ''d'' ''a2'']
     (set_CommitTs 20 (set_ReadTs 10 (NewTransactionCommand ''t'')))"

section \<open>Lemmas\<close>

lemma getTtl_None [simp]: "cmd_Ttl c = None \<Longrightarrow> getTtl c = []"
  by (simp add: getTtl_def)

lemma IncrByWithTxn_eq:
  "bdb_IncrByWithTxn B k delta = bindS (bdb_GetWithTxn B k) (\<lambda>v.
     bindS (liftR (bindR (counter_of v) (\<lambda>c. Ok (Uint64ToBytes (c + delta))))) (\<lambda>b. bdb_SetWithTxn B k b []))"
proof -
  have "bindS (case v of Some b \<Rightarrow> bindS (liftR (BytesToUint64 b)) (\<lambda>c. retS (c + delta)) | None \<Rightarrow> retS delta)
      (\<lambda>n. bdb_SetWithTxn B k (Uint64ToBytes n) [])
    = bindS (liftR (bindR (counter_of v) (\<lambda>c. Ok (Uint64ToBytes (c + delta))))) (\<lambda>b. bdb_SetWithTxn B k b [])" for v
    by (rule ext) (auto simp: call_simps counter_of_def split: option.splits res.splits)
  then show ?thesis by (simp add: bdb_IncrByWithTxn_def)
qed

lemma DecrByWithTxn_eq:
  "bdb_DecrByWithTxn B k delta = bindS (bdb_GetWithTxn B k) (\<lambda>v.
     bindS (liftR (bindR (counter_of v) (\<lambda>c. Ok (Uint64ToBytes (decr c delta))))) (\<lambda>b. bdb_SetWithTxn B k b []))"
proof -
  have "bindS (case v of Some b \<Rightarrow> bindS (liftR (BytesToUint64 b)) (\<lambda>c. retS (if c < delta then 0 else c - delta)) | None \<Rightarrow> retS 0)
      (\<lambda>n. bdb_SetWithTxn B k (Uint64ToBytes n) [])
    = bindS (liftR (bindR (counter_of v) (\<lambda>c. Ok (Uint64ToBytes (decr c delta))))) (\<lambda>b. bdb_SetWithTxn B k b [])" for v
    by (rule ext) (cases v, simp_all add: call_simps counter_of_def decr_def [symmetric] split: res.splits)
  then show ?thesis by (simp add: bdb_DecrByWithTxn_def)
qed

lemma bindS_liftR:
  "bindS (liftR r) (\<lambda>x. bindS (liftR (g x)) h) = bindS (liftR (bindR r g)) h"
  by (rule ext, cases r) (simp_all add: call_simps)

lemma case_liftR:
  "(case v of None \<Rightarrow> liftR a | Some b \<Rightarrow> liftR (f b)) = liftR (case v of None \<Rightarrow> a | Some b \<Rightarrow> f b)"
  "(case v of None \<Rightarrow> retS c | Some b \<Rightarrow> liftR (g b)) = liftR (case v of None \<Rightarrow> Ok c | Some b \<Rightarrow> g b)"
  by (cases v, simp_all add: retS_def liftR_def fun_eq_iff)+

lemma UpdateJsonWithTxn_eq:
  "bdb_UpdateJsonWithTxn B J k delta ttl = bindS (bdb_GetWithTxn B k) (\<lambda>v.
     bindS (liftR (bindR (case v of Some b \<Rightarrow> json_Unmarshal J b | None \<Rightarrow> Ok (Some [])) (\<lambda>full.
       bindR (maps_Copy full delta) (json_Marshal J)))) (\<lambda>b. bdb_SetWithTxn B k b ttl))"
  by (simp only: bdb_UpdateJsonWithTxn_def case_liftR bindS_liftR)

lemma UpdateProtobufWithTxn_eq:
  "bdb_UpdateProtobufWithTxn B P k delta ttl = bindS (bdb_GetWithTxn B k) (\<lambda>v.
     bindS (liftR (case v of Some b \<Rightarrow> MergeProtoDelta P b delta | None \<Rightarrow> proto_Marshal P delta))
       (\<lambda>b. bdb_SetWithTxn B k b ttl))"
  by (simp only: bdb_UpdateProtobufWithTxn_def case_liftR)

lemma UnmarshalUpdateDelta_type:
  assumes "cmd_UpdateMeta c = Some meta" and "UnmarshalUpdateDelta J P D cache c = Ok v"
  shows "meta_UpdateDeltaType meta = JSON \<Longrightarrow> \<exists>m. v = JsonDelta m"
    and "meta_UpdateDeltaType meta = PROTOBUF \<Longrightarrow> \<exists>m. v = ProtoDelta m"
  using assms by (auto simp: UnmarshalUpdateDelta_def bindR_Ok_iff split: if_splits)

context badger
begin

lemma SetWithTxn_one:
  assumes "k \<noteq> []" and "mt_update (txn t)" and "fits t ((k, Some b) # ws)"
  shows "writes_one txn fits False (bdb_SetWithTxn B k b []) k (Some b) ws t"
  using SetEntry [OF assms(2,3,1)] by (auto simp: writes_one_def bdb_SetWithTxn_def)

lemma read_then_set_one:
  assumes "k \<noteq> []" and "mt_update (txn t)" and "fits t ((k, Some b) # ws)" and "f (mt_view (txn t) k) = Ok b"
  shows "writes_one txn fits True (bindS (bdb_GetWithTxn B k) (\<lambda>v. bindS (liftR (f v)) (\<lambda>b. bdb_SetWithTxn B k b []))) k (Some b) ws t"
proof -
  obtain t1 where g: "bdb_GetWithTxn B k t = (Ok (mt_view (txn t) k), t1)" "txn t1 = mt_read k (txn t)" "fits t1 = fits t"
    using GetWithTxn_spec [OF assms(1)] by blast
  have "writes_one txn fits False (bdb_SetWithTxn B k b []) k (Some b) ws t1"
    using assms(2,3) g by (intro SetWithTxn_one [OF assms(1)]) simp_all
  then show ?thesis using g(1,2) assms(4) by (auto simp: writes_one_def call_simps)
qed

end

context badger
begin

lemma updateWithTxn_one:
  assumes "lib_badger L = B" and "plain_cmd sc" and "mt_update (txn t)"
    and "update_value L (mt_view (txn t) (cmd_Key sc)) sc = Ok b" and "fits t ((cmd_Key sc, Some b) # ws)"
  shows "writes_one txn fits True (updateWithTxn L sc) (cmd_Key sc) (Some b) ws t"
proof -
  obtain meta v where meta: "cmd_UpdateMeta sc = Some meta" "meta_UpdateDeltaType meta \<in> {JSON, PROTOBUF}"
    and v: "UnmarshalUpdateDelta (lib_json L) (lib_proto L) (lib_desc L) (lib_store L) sc = Ok v"
    using assms(4) by (auto simp: update_value_def bindR_Ok_iff split: option.splits if_splits)
  have k: "cmd_Key sc \<noteq> []" and ttl: "getTtl sc = []" using assms(2) by (simp_all add: plain_cmd_def)
  note one = read_then_set_one [OF k assms(3,5)]
  from meta(2) show ?thesis
  proof (elim insertE emptyE)
    assume t: "meta_UpdateDeltaType meta = JSON"
    then obtain m where m: "v = JsonDelta m" using UnmarshalUpdateDelta_type(1) [OF meta(1) v] by blast
    have "updateWithTxn L sc = bdb_UpdateJsonWithTxn B (lib_json L) (cmd_Key sc) m []"
      by (rule ext) (simp add: updateWithTxn_def meta t v m assms(1) ttl call_simps)
    moreover have "bindR (case mt_view (txn t) (cmd_Key sc) of Some b \<Rightarrow> json_Unmarshal (lib_json L) b | None \<Rightarrow> Ok (Some []))
        (\<lambda>full. bindR (maps_Copy full m) (json_Marshal (lib_json L))) = Ok b"
      using assms(4) by (simp add: update_value_def meta t v m)
    ultimately show ?thesis by (simp only: UpdateJsonWithTxn_eq) (rule one)
  next
    assume t: "meta_UpdateDeltaType meta = PROTOBUF"
    then obtain m where m: "v = ProtoDelta m" using UnmarshalUpdateDelta_type(2) [OF meta(1) v] by blast
    have "updateWithTxn L sc = bdb_UpdateProtobufWithTxn B (lib_proto L) (cmd_Key sc) m []"
      by (rule ext) (simp add: updateWithTxn_def meta t v m assms(1) ttl call_simps)
    moreover have "(case mt_view (txn t) (cmd_Key sc) of Some b \<Rightarrow> MergeProtoDelta (lib_proto L) b m | None \<Rightarrow> proto_Marshal (lib_proto L) m) = Ok b"
      using assms(4) by (simp add: update_value_def meta t v m)
    ultimately show ?thesis by (simp only: UpdateProtobufWithTxn_eq) (rule one)
  qed
qed

lemma subWithTxn_one:
  assumes "lib_badger L = B" and "plain_cmd sc" and "mt_update (txn t)"
    and "sub_spec L (mt_view (txn t)) sc = Ok (k, w)" and "fits t ((k, w) # ws)"
  shows "k = cmd_Key sc \<and> writes_one txn fits (reads_key sc) (subWithTxn L sc) k w ws t"
proof -
  have ne: "cmd_Key sc \<noteq> []" and ttl: "getTtl sc = []" using assms(2) by (simp_all add: plain_cmd_def)
  have k: "k = cmd_Key sc" using assms(4) by (auto simp: sub_spec_def bindR_Ok_iff split: CommandType.splits)
  show ?thesis
  proof (cases "cmd_Type sc")
    case SET
    then show ?thesis
      using SetWithTxn_one [OF ne assms(3)] assms(4,5) by (auto simp: sub_spec_def subWithTxn_def reads_key_def assms(1) ttl)
  next
    case DELETE
    then show ?thesis
      using Delete [OF assms(3) _ ne] assms(4,5)
      by (auto simp: sub_spec_def subWithTxn_def reads_key_def assms(1) bdb_DeleteWithTxn_def writes_one_def)
  next
    case INCR_BY
    then show ?thesis
      using read_then_set_one [OF ne assms(3), where f = "\<lambda>v. bindR (counter_of v) (\<lambda>c. Ok (Uint64ToBytes (c + cmd_IncrOrDecrDelta sc)))"] assms(4,5)
      by (auto simp: sub_spec_def subWithTxn_def reads_key_def assms(1) IncrByWithTxn_eq bindR_Ok_iff)
  next
    case DECR_BY
    then show ?thesis
      using read_then_set_one [OF ne assms(3), where f = "\<lambda>v. bindR (counter_of v) (\<lambda>c. Ok (Uint64ToBytes (decr c (cmd_IncrOrDecrDelta sc))))"] assms(4,5)
      by (auto simp: sub_spec_def subWithTxn_def reads_key_def assms(1) DecrByWithTxn_eq bindR_Ok_iff)
  next
    case UPDATE
    then show ?thesis
      using updateWithTxn_one [OF assms(1-3)] assms(4,5) by (auto simp: sub_spec_def subWithTxn_def reads_key_def bindR_Ok_iff)
  qed (use assms(4) in \<open>auto simp: sub_spec_def\<close>)
qed

end

context badger
begin

lemma subsWithTxn_spec:
  assumes "lib_badger L = B" and "\<forall>sc \<in> set subs. plain_cmd sc" and "mt_update (txn t)"
    and "subs_spec L (mt_view (txn t)) subs = Ok ws" and "fits t ws"
  shows "\<exists>t'. subsWithTxn L subs t = (Ok (), t') \<and> same_base (txn t) (txn t')
    \<and> mt_pending (txn t') = rev ws @ mt_pending (txn t)
    \<and> mt_reads (txn t') \<subseteq> mt_reads (txn t) \<union> cmd_Key ` {sc \<in> set subs. reads_key sc}"
  using assms(2-)
proof (induction subs arbitrary: t ws)
  case Nil then show ?case by (simp add: retS_def)
next
  case (Cons sc subs)
  obtain k w ws' where s: "sub_spec L (mt_view (txn t)) sc = Ok (k, w)"
    and r: "subs_spec L ((mt_view (txn t))(k := w)) subs = Ok ws'" and ws: "ws = (k, w) # ws'"
    using Cons.prems(3) by (auto simp: bindR_Ok_iff)
  have "k = cmd_Key sc \<and> writes_one txn fits (reads_key sc) (subWithTxn L sc) k w ws' t"
    using Cons.prems s ws by (intro subWithTxn_one [OF assms(1)]) auto
  then obtain t1 where k: "k = cmd_Key sc" and t1: "subWithTxn L sc t = (Ok (), t1)" "fits t1 ws'"
    "txn t1 = mt_write k w (if reads_key sc then mt_read k (txn t) else txn t)"
    by (auto simp: writes_one_def)
  have b1: "same_base (txn t) (txn t1)" "mt_view (txn t1) = (mt_view (txn t))(k := w)" "mt_update (txn t1)"
    using Cons.prems(2) by (simp_all add: t1(3))
  have r': "subs_spec L (mt_view (txn t1)) subs = Ok ws'" by (simp only: b1(2) r)
  obtain t2 where t2: "subsWithTxn L subs t1 = (Ok (), t2)" "same_base (txn t1) (txn t2)"
    "mt_pending (txn t2) = rev ws' @ mt_pending (txn t1)"
    "mt_reads (txn t2) \<subseteq> mt_reads (txn t1) \<union> cmd_Key ` {sc \<in> set subs. reads_key sc}"
    using Cons.IH [OF _ b1(3) r' t1(2)] Cons.prems(1) by auto
  have "mt_pending (txn t1) = (k, w) # mt_pending (txn t)"
    "mt_reads (txn t1) \<subseteq> mt_reads (txn t) \<union> (if reads_key sc then {k} else {})"
    by (auto simp: t1(3) mt_write_def mt_read_def)
  then show ?case
    using t1(1) t2 same_base_trans [OF b1(1) t2(2)] by (auto simp: bindS_def ws k split: if_splits)
qed

lemma newTransactionAt_Ok:
  assumes "managed" and "cts \<noteq> 0"
    and "\<And>t. txn t = \<lparr>mt_snap = mvcc_at (vers d) rts, mt_pending = [], mt_reads = {}, mt_readTs = rts, mt_update = True\<rparr>
        \<Longrightarrow> (\<And>ws. cap ws \<Longrightarrow> fits t ws) \<Longrightarrow>
        \<exists>t'. fn t = (Ok (), t') \<and> mt_update (txn t') \<and> mt_pending (txn t') = ps \<and> \<not> mt_conflict (txn t') (vers d)"
  shows "\<exists>d'. bdb_newTransactionAt B rts cts fn d = (Ok (), d') \<and> vers d' = map (Pair cts) ps @ vers d"
proof -
  obtain t where t: "bd_NewTransactionAt B rts True d = Ok t"
    "txn t = \<lparr>mt_snap = mvcc_at (vers d) rts, mt_pending = [], mt_reads = {}, mt_readTs = rts, mt_update = True\<rparr>"
    "\<And>ws. cap ws \<Longrightarrow> fits t ws"
    using NewTransactionAt [OF assms(1), of rts True d] by blast
  obtain t' where t': "fn t = (Ok (), t')" "mt_update (txn t')" "mt_pending (txn t') = ps" "\<not> mt_conflict (txn t') (vers d)"
    using assms(3) [OF t(2,3)] by blast
  obtain d' where "bt_CommitAt B cts t' d = (Ok (), d')" "vers d' = stamp_writes cts (txn t') @ vers d"
    using CommitAt [OF assms(1) t'(2,4) assms(2)] by blast
  then show ?thesis using t(1) t'(1,3) by (simp add: bdb_newTransactionAt_def Discard stamp_writes_def)
qed

lemma newTransactionAt_error:
  assumes "managed" and "bdb_newTransactionAt B rts cts fn d = (r, d')" and "r \<noteq> Ok ()"
  shows "vers d' = vers d"
proof -
  obtain t where t: "bd_NewTransactionAt B rts True d = Ok t"
    using NewTransactionAt [OF assms(1), of rts True d] by blast
  obtain r1 t' where f: "fn t = (r1, t')" by force
  show ?thesis
  proof (cases r1)
    case (Ok u)
    obtain r2 d2 where c: "bt_CommitAt B cts t' d = (r2, d2)" by force
    then show ?thesis
      using CommitAt_outcome [OF assms(1) c] assms(2,3) t f Ok by (auto simp: bdb_newTransactionAt_def Discard)
  qed (use assms(2) t f in \<open>auto simp: bdb_newTransactionAt_def Discard\<close>)
qed

lemma Apply_error:
  assumes "managed" and "lib_badger L = B" and "fsm_Apply L ctx data d = (r, d')" and "r \<noteq> Ok ()"
  shows "vers d' = vers d"
proof (cases "DecodeCommand (lib_codec L) data")
  case (Ok c)
  then have "applyCommand L ctx c d = (r, d')" using assms(3) by (simp add: fsm_Apply_def call_simps)
  then show ?thesis
    using newTransactionAt_error [OF assms(1) _ assms(4)] assms(2)
    by (auto simp: applyCommand_def applySet_def applyUpdate_def applyDelete_def applyDeleteByPrefix_def
        applyIncrBy_def applyDecrBy_def applyTransaction_def failS_def split: CommandType.splits)
qed (use assms(3) in \<open>simp_all add: fsm_Apply_def call_simps\<close>)

lemma applyTransaction_spec:
  assumes "managed" and "lib_badger L = B" and "cmd_CommitTs c \<noteq> 0" and "\<forall>sc \<in> set (cmd_SubCommands c). plain_cmd sc"
    and "subs_spec L (mvcc_at (vers d) (cmd_ReadTs c)) (cmd_SubCommands c) = Ok ws" and "cap ws"
    and "reads_fresh (vers d) c"
  shows "\<exists>d'. applyTransaction L c d = (Ok (), d') \<and> vers d' = map (Pair (cmd_CommitTs c)) (rev ws) @ vers d"
  unfolding applyTransaction_def assms(2)
proof (rule newTransactionAt_Ok [OF assms(1,3)])
  fix t
  assume t: "txn t = \<lparr>mt_snap = mvcc_at (vers d) (cmd_ReadTs c), mt_pending = [], mt_reads = {}, mt_readTs = cmd_ReadTs c, mt_update = True\<rparr>"
    and f: "\<And>ws. cap ws \<Longrightarrow> fits t ws"
  have "mt_view (txn t) = mvcc_at (vers d) (cmd_ReadTs c)" "mt_update (txn t)" by (simp_all add: t mt_view_fresh)
  then obtain t' where t': "subsWithTxn L (cmd_SubCommands c) t = (Ok (), t')" "same_base (txn t) (txn t')"
    "mt_pending (txn t') = rev ws @ mt_pending (txn t)"
    "mt_reads (txn t') \<subseteq> mt_reads (txn t) \<union> cmd_Key ` {sc \<in> set (cmd_SubCommands c). reads_key sc}"
    using subsWithTxn_spec [OF assms(2,4), of t ws] assms(5) f [OF assms(6)] by auto
  have "\<not> mt_conflict (txn t') (vers d)"
    using t'(2,4) assms(7) by (fastforce simp: mt_conflict_def same_base_def t reads_fresh_def)
  then show "\<exists>t'. subsWithTxn L (cmd_SubCommands c) t = (Ok (), t') \<and> mt_update (txn t') \<and>
      mt_pending (txn t') = rev ws \<and> \<not> mt_conflict (txn t') (vers d)"
    using t' by (auto simp: t same_base_def)
qed

end

lemma mvcc_at_later: "ts < cts \<Longrightarrow> mvcc_at (map (Pair cts) ws @ m) ts = mvcc_at m ts"
proof -
  assume "ts < cts"
  then have "newest (map (Pair cts) ws @ m) ts k = newest m ts k" for k
    by (induction ws) (auto split: option.splits)
  then show ?thesis by (simp add: mvcc_at_def fun_eq_iff)
qed

lemma mvcc_at_earlier:
  assumes "\<forall>(t0, _) \<in> set m. t0 \<le> cts" and "cts \<le> ts"
  shows "mvcc_at (map (Pair cts) ws @ m) ts k = (case map_of ws k of Some w \<Rightarrow> w | None \<Rightarrow> mvcc_at m ts k)"
  using assms(2) by (auto simp: mvcc_at_def newest_append_older [OF assms(1)] split: option.splits)

lemma bindS_retS_right: "bindS f retS = f"
  by (rule ext) (auto simp: call_simps split: prod.splits res.splits)

lemma demo_batch_simps:
  "cmd_CommitTs demo_batch = 20" "cmd_ReadTs demo_batch = 10"
  "cmd_SubCommands demo_batch = [NewSetCommand ''s'' ''x'' [1] [], NewIncrByCommand ''i'' ''n'' 5, NewDeleteCommand ''d'' ''a2'']"
  by (simp_all add: demo_batch_def)

section \<open>Properties\<close>



text \<open>C33: an entry that fails to apply, by an error or a panic, leaves every version in the database as it
  was.\<close>

theorem failed_apply_changes_nothing:
  assumes "badger (lib_badger L) True vers txn fits cap" and "fsm_Apply L ctx data d = (r, d')" and "r \<noteq> Ok ()"
  shows "vers d' = vers d"
  by (rule badger.Apply_error [OF assms(1) TrueI refl assms(2,3)])

theorem failed_apply_changes_nothing_witness:
  "\<exists>d'. fsm_Apply (demo_libs\<lparr>lib_codec := \<lparr>codec_Marshal = (\<lambda>c. Ok []), codec_Unmarshal = (\<lambda>b. Ok (NewSetCommand ''s'' [] [1] []))\<rparr>\<rparr>)
       ctx_background [] demo_kvs = (Err ErrEmptyKey, d') \<and> d' = demo_kvs"
proof -
  let ?L = "demo_libs\<lparr>lib_codec := \<lparr>codec_Marshal = (\<lambda>c. Ok []), codec_Unmarshal = (\<lambda>b. Ok (NewSetCommand ''s'' [] [1] []))\<rparr>\<rparr>"
  have B: "badger (lib_badger ?L) True (\<lambda>h. h) mem_spec (\<lambda>_ _. True) (\<lambda>_. True)"
    using mb.badger_axioms [of True] by (simp add: demo_libs_def)
  obtain d' where a: "fsm_Apply ?L ctx_background [] demo_kvs = (Err ErrEmptyKey, d')"
    by (simp add: fsm_Apply_def DecodeCommand_def call_simps applyCommand_def applySet_def new_command_defs
        bdb_newTransactionAt_def bdb_SetWithTxn_def demo_libs_def mem_defs)
  from failed_apply_changes_nothing [OF B a] a show ?thesis by simp
qed

text \<open>A single command is a transaction of one. Applying a set, update, delete or counter command by
  itself is applying the transaction that has it as its only sub-command.\<close>

lemma single_command_as_transaction:
  assumes "cmd_Type c \<in> {SET, UPDATE, DELETE, INCR_BY, DECR_BY}"
  shows "applyCommand L ctx c = applyTransaction L (as_transaction c)"
  using assms
  by (auto simp: applyCommand_def applyTransaction_def as_transaction_def subWithTxn_def bindS_retS_right
      applySet_def applyUpdate_def applyDelete_def applyIncrBy_def applyDecrBy_def)

end
