(* ===== verification/Storage.thy ===== *)
theory Storage
  imports Wal
begin

text \<open>
  \<^verbatim>\<open>storage.go\<close>: the Raft storage of a node, which keeps the log in \<^verbatim>\<open>raft.MemoryStorage\<close> (the parameter
  \<open>memory_storage\<close>) and on disk (\<^verbatim>\<open>wal.go\<close>, theory \<open>Wal\<close>).
\<close>

section \<open>State\<close>

record ('ms, 'w, 'h) Storage =
  st_wal :: "('w, 'h) Wal"
  st_memStorage :: "'ms option"

definition newStorage :: "('w, 'h) wal_api \<Rightarrow> string \<Rightarrow> 'w \<Rightarrow> ('ms, 'w, 'h) Storage res \<times> 'w" where
  "newStorage A baseDir = bindS (newWal A baseDir) (\<lambda>wal. retS \<lparr>st_wal = wal, st_memStorage = None\<rparr>)"

definition on_wal :: "(('w, 'h) Wal, 'a) call \<Rightarrow> (('ms, 'w, 'h) Storage, 'a) call" where
  "on_wal f s = (case f (st_wal s) of (r, w) \<Rightarrow> (r, s\<lparr>st_wal := w\<rparr>))"

definition on_mem :: "('ms, 'a) call \<Rightarrow> (('ms, 'w, 'h) Storage, 'a) call" where
  "on_mem f s = non_nil (st_memStorage s) (\<lambda>m s. case f m of (r, m') \<Rightarrow> (r, s\<lparr>st_memStorage := Some m'\<rparr>)) s"

definition read_mem :: "('ms \<Rightarrow> 'a res) \<Rightarrow> (('ms, 'w, 'h) Storage, 'a) call" where
  "read_mem f s = non_nil (st_memStorage s) (\<lambda>m. liftR (f m)) s"

text \<open>\<^verbatim>\<open>Initialize\<close> closes the log when it fails, ignoring the result.\<close>

definition closing :: "('w, 'h) wal_api \<Rightarrow> (('ms, 'w, 'h) Storage, 'a) call \<Rightarrow> (('ms, 'w, 'h) Storage, 'a) call" where
  "closing A f s =
     (case f s of
        (Err e, s') \<Rightarrow> (case on_wal (wal_Close A) s' of (Panicked m, s'') \<Rightarrow> (Panicked m, s'') | (_, s'') \<Rightarrow> (Err e, s''))
      | r \<Rightarrow> r)"

section \<open>Operations\<close>

definition Initialize ::
    "('w, 'h) wal_api \<Rightarrow> 'ms memory_storage \<Rightarrow> (('ms, 'w, 'h) Storage, unit) call" where
  "Initialize A M s =
     bindS (on_wal (wal_open A)) (\<lambda>(latestSnap, hardState, entries).
     bindS (case latestSnap of
         Some sn \<Rightarrow> if \<not> IsEmptySnap sn then closing A (on_mem (ms_ApplySnapshot M sn)) else retS ()
       | None \<Rightarrow> retS ()) (\<lambda>_.
     bindS (if \<not> IsEmptyHardState hardState then closing A (on_mem (ms_SetHardState M hardState)) else retS ()) (\<lambda>_.
     if entries \<noteq> [] then closing A (on_mem (ms_Append M entries)) else retS ())))
     (s\<lparr>st_memStorage := Some (ms_New M)\<rparr>)"

definition saveStateToWal :: "('w, 'h) wal_api \<Rightarrow> Ready \<Rightarrow> (('ms, 'w, 'h) Storage, unit) call" where
  "saveStateToWal A rd =
     bindS (if \<not> IsEmptySnap (rd_Snapshot rd) then on_wal (wal_SaveSnap A (rd_Snapshot rd)) else retS ()) (\<lambda>_.
     bindS (on_wal (wal_SaveState A (rd_HardState rd) (rd_Entries rd))) (\<lambda>_.
     bindS (on_wal (wal_sync A)) (\<lambda>_.
     on_wal (wal_Release A (snap_Index (rd_Snapshot rd))))))"

text \<open>An outdated snapshot is skipped.\<close>

definition apply_unless_old :: "'ms memory_storage \<Rightarrow> Snapshot \<Rightarrow> (('ms, 'w, 'h) Storage, unit) call" where
  "apply_unless_old M sn s =
     (case on_mem (ms_ApplySnapshot M sn) s of
        (Err e, s') \<Rightarrow> if e \<noteq> ErrSnapOutOfDate then (Err e, s') else (Ok (), s')
      | r \<Rightarrow> r)"

definition SaveState :: "('w, 'h) wal_api \<Rightarrow> 'ms memory_storage \<Rightarrow> Ready \<Rightarrow> (('ms, 'w, 'h) Storage, unit) call" where
  "SaveState A M rd =
     bindS (saveStateToWal A rd) (\<lambda>_.
     bindS (if \<not> IsEmptySnap (rd_Snapshot rd) then apply_unless_old M (rd_Snapshot rd) else retS ()) (\<lambda>_.
     bindS (if \<not> IsEmptyHardState (rd_HardState rd) then on_mem (ms_SetHardState M (rd_HardState rd)) else retS ()) (\<lambda>_.
     on_mem (ms_Append M (rd_Entries rd)))))"

definition Existing :: "('ms, 'w, 'h) Storage \<Rightarrow> bool" where
  "Existing s = ExistingWAL (st_wal s)"

definition LastSnapshotIndex :: "'ms memory_storage \<Rightarrow> ('ms, 'w, 'h) Storage \<Rightarrow> u64 res" where
  "LastSnapshotIndex M s =
     (case fst (read_mem (ms_Snapshot M) s) of
        Ok sn \<Rightarrow> Ok (snap_Index sn) | Err e \<Rightarrow> Ok 0 | Panicked m \<Rightarrow> Panicked m)"

definition compact :: "'ms memory_storage \<Rightarrow> u64 \<Rightarrow> (('ms, 'w, 'h) Storage, unit) call" where
  "compact M index s =
     (case on_mem (ms_Compact M index) s of
        (Err e, s') \<Rightarrow> if e = ErrCompacted then (Ok (), s') else (Err e, s')
      | r \<Rightarrow> r)"

definition Compact :: "'ms memory_storage \<Rightarrow> u64 \<Rightarrow> (('ms, 'w, 'h) Storage, unit) call" where
  "Compact M index = compact M index"

definition storage_CreateSnapshot ::
    "('w, 'h) wal_api \<Rightarrow> 'ms memory_storage \<Rightarrow> u64 \<Rightarrow> ConfState \<Rightarrow> bytes \<Rightarrow> (('ms, 'w, 'h) Storage, unit) call" where
  "storage_CreateSnapshot A M index confState data =
     bindS (read_mem (ms_Term M index)) (\<lambda>term.
     let snapshot = \<lparr>snap_Data = data, snap_ConfState = confState, snap_Index = index, snap_Term = term\<rparr> in
     bindS (on_wal (wal_SaveSnap A snapshot)) (\<lambda>_.
     bindS (apply_unless_old M snapshot) (\<lambda>_.
     bindS (on_wal (wal_sync A)) (\<lambda>_.
     bindS (on_wal (wal_Release A index)) (\<lambda>_.
     compact M index)))))"

definition storage_Close :: "('w, 'h) wal_api \<Rightarrow> (('ms, 'w, 'h) Storage, unit) call" where
  "storage_Close A = on_wal (wal_Close A)"

text \<open>The interface \<^verbatim>\<open>raft.Storage\<close>.\<close>

definition InitialState :: "'ms memory_storage \<Rightarrow> (('ms, 'w, 'h) Storage, HardState \<times> ConfState) call" where
  "InitialState M = read_mem (ms_InitialState M)"

definition storage_Entries :: "'ms memory_storage \<Rightarrow> u64 \<Rightarrow> u64 \<Rightarrow> u64 \<Rightarrow> (('ms, 'w, 'h) Storage, Entry list) call" where
  "storage_Entries M lo hi maxSize = read_mem (ms_Entries M lo hi maxSize)"

definition Term :: "'ms memory_storage \<Rightarrow> u64 \<Rightarrow> (('ms, 'w, 'h) Storage, u64) call" where
  "Term M i = read_mem (ms_Term M i)"

definition LastIndex :: "'ms memory_storage \<Rightarrow> (('ms, 'w, 'h) Storage, u64) call" where
  "LastIndex M = read_mem (ms_LastIndex M)"

definition FirstIndex :: "'ms memory_storage \<Rightarrow> (('ms, 'w, 'h) Storage, u64) call" where
  "FirstIndex M = read_mem (ms_FirstIndex M)"

definition storage_Snapshot :: "'ms memory_storage \<Rightarrow> (('ms, 'w, 'h) Storage, Snapshot) call" where
  "storage_Snapshot M = read_mem (ms_Snapshot M)"

section \<open>Invariants\<close>

text \<open>The disk of a storage; a storage whose log is open under the base directory.\<close>

abbreviation st_disk :: "('ms, 'w, 'h) Storage \<Rightarrow> 'w" where
  "st_disk s \<equiv> wl_disk (st_wal s)"

definition dirs_ok :: "('w, 'h) wal_api \<Rightarrow> string \<Rightarrow> ('w, 'h) Wal \<Rightarrow> bool" where
  "dirs_ok A baseDir w \<longleftrightarrow> wl_waldir w = path_Join A baseDir ''wal'' \<and> wl_snapdir w = path_Join A baseDir ''snap''
     \<and> wl_snapshotter w \<in> {None, Some (path_Join A baseDir ''snap'')}"

definition log_ok :: "('w, 'h) wal_api \<Rightarrow> string \<Rightarrow> ('w \<Rightarrow> log_view) \<Rightarrow> ('w, 'h) Wal \<Rightarrow> bool" where
  "log_ok A baseDir view w \<longleftrightarrow> dirs_ok A baseDir w \<and> no_dangling (view (wl_disk w))"

definition unmarked :: "('w \<Rightarrow> log_view) \<Rightarrow> Snapshot \<Rightarrow> ('w, 'h) Wal \<Rightarrow> bool" where
  "unmarked view sn w \<longleftrightarrow> snap_Index sn \<noteq> 0 \<and> \<not> marked (lv_marks (view (wl_disk w))) sn"

section \<open>What a storage is for\<close>

text \<open>The state Raft believes it has persisted: the snapshot, the log above it, the hard state, and every entry ever
  written. \<open>ready_ok\<close> is what Raft promises of the next \<^verbatim>\<open>Ready\<close>: its entries are consecutive and start inside or right
  after the log, a snapshot is ahead of all that was written, and the commit index is not behind the snapshot.\<close>

record raft_state =
  rs_snap :: Snapshot
  rs_log :: "Entry list"
  rs_hard :: HardState
  rs_written :: "Entry list"

definition raft_init :: raft_state where
  "raft_init = \<lparr>rs_snap = emptySnapshot, rs_log = [], rs_hard = emptyHardState, rs_written = []\<rparr>"

definition consecutive :: "Entry list \<Rightarrow> bool" where
  "consecutive es \<longleftrightarrow> (\<forall>i < length es. unat (ent_Index (es ! i)) = unat (ent_Index (hd es)) + i)"

definition ready_snap :: "raft_state \<Rightarrow> Ready \<Rightarrow> Snapshot" where
  "ready_snap R rd = (if IsEmptySnap (rd_Snapshot rd) then rs_snap R else rd_Snapshot rd)"

definition ready_log :: "raft_state \<Rightarrow> Ready \<Rightarrow> Entry list" where
  "ready_log R rd = (if IsEmptySnap (rd_Snapshot rd) then rs_log R else [])"

definition appended :: "u64 \<Rightarrow> Entry list \<Rightarrow> Entry list \<Rightarrow> Entry list" where
  "appended b lg es = (if es = [] then lg else take (unat (ent_Index (hd es)) - unat b - 1) lg @ es)"

definition fits :: "u64 \<Rightarrow> Entry list \<Rightarrow> Entry list \<Rightarrow> bool" where
  "fits b lg es \<longleftrightarrow> es = [] \<or> consecutive es \<and> b < ent_Index (hd es) \<and> unat (ent_Index (hd es)) \<le> unat b + length lg + 1"

definition ready_ok :: "raft_state \<Rightarrow> Ready \<Rightarrow> bool" where
  "ready_ok R rd \<longleftrightarrow>
     (IsEmptySnap (rd_Snapshot rd) \<or>
        snap_Index (rs_snap R) < snap_Index (rd_Snapshot rd) \<and> snap_Term (rs_snap R) \<le> snap_Term (rd_Snapshot rd)
        \<and> (\<forall>e \<in> set (rs_written R). ent_Index e \<le> snap_Index (rd_Snapshot rd)) \<and> \<not> IsEmptyHardState (rd_HardState rd))
     \<and> (IsEmptyHardState (rd_HardState rd) \<or> snap_Index (ready_snap R rd) \<le> hs_Commit (rd_HardState rd))
     \<and> fits (snap_Index (ready_snap R rd)) (ready_log R rd) (rd_Entries rd)"

definition ready_next :: "raft_state \<Rightarrow> Ready \<Rightarrow> raft_state" where
  "ready_next R rd =
     \<lparr>rs_snap = ready_snap R rd,
      rs_log = appended (snap_Index (ready_snap R rd)) (ready_log R rd) (rd_Entries rd),
      rs_hard = (if IsEmptyHardState (rd_HardState rd) then rs_hard R else rd_HardState rd),
      rs_written = rs_written R @ rd_Entries rd\<rparr>"

fun readies_ok :: "raft_state \<Rightarrow> Ready list \<Rightarrow> bool" where
  "readies_ok R [] = True"
| "readies_ok R (rd # rds) = (ready_ok R rd \<and> readies_ok (ready_next R rd) rds)"

fun SaveStates :: "('w, 'h) wal_api \<Rightarrow> 'ms memory_storage \<Rightarrow> Ready list \<Rightarrow> (('ms, 'w, 'h) Storage, unit) call" where
  "SaveStates A M [] = retS ()"
| "SaveStates A M (rd # rds) = bindS (SaveState A M rd) (\<lambda>_. SaveStates A M rds)"

text \<open>The disk holds a state when loading the newest marked snapshot and replaying the entries above it gives it back.\<close>

definition holds_state :: "raft_state \<Rightarrow> log_view \<Rightarrow> bool" where
  "holds_state R v \<longleftrightarrow> lv_exists v \<and> lv_state v = rs_hard R \<and> lv_entries v = rs_written R
     \<and> replay (snap_Index (rs_snap R)) [] (rs_written R) = Some (rs_log R)
     \<and> (\<forall>m \<in> set (lv_marks v). ws_Index m \<le> hs_Commit (rs_hard R) \<and> ws_Index m \<le> snap_Index (rs_snap R))
     \<and> (\<exists>m \<in> set (lv_marks v). ws_Index m = snap_Index (rs_snap R))
     \<and> (\<forall>m \<in> set (lv_marks v). ws_Index m = snap_Index (rs_snap R) \<longrightarrow> ws_Term m = snap_Term (rs_snap R))
     \<and> newest_file (marked (lv_marks v)) (lv_files v) = (if IsEmptySnap (rs_snap R) then None else Some (rs_snap R))
     \<and> (IsEmptySnap (rs_snap R) \<longrightarrow> rs_snap R = emptySnapshot)"

text \<open>A run: two entries, then a snapshot of index five that replaces them, then the entry after it.\<close>

definition demo_disk :: journal where
  "demo_disk = (let v = \<lparr>lv_exists = False, lv_state = emptyHardState, lv_entries = [], lv_marks = [], lv_files = []\<rparr>
     in \<lparr>j_view = v, j_dur = v, j_start = None, j_faults = []\<rparr>)"

definition demo_entry :: "u64 \<Rightarrow> u64 \<Rightarrow> Entry" where
  "demo_entry t i = \<lparr>ent_Term = t, ent_Index = i, ent_Type = EntryNormal, ent_Data = [ucast i]\<rparr>"

definition demo_ready :: "Entry list \<Rightarrow> u64 \<Rightarrow> u64 \<Rightarrow> u64 \<Rightarrow> Ready" where
  "demo_ready es index term commit =
     \<lparr>rd_SoftState = None, rd_ReadStates = None, rd_HardState = \<lparr>hs_Term = term, hs_Vote = 1, hs_Commit = commit\<rparr>, rd_Entries = es,
      rd_Snapshot = \<lparr>snap_Data = [7], snap_ConfState = emptyConfState, snap_Index = index, snap_Term = term\<rparr>,
      rd_CommittedEntries = [], rd_Messages = []\<rparr>"

definition demo_readies :: "Ready list" where
  "demo_readies = [demo_ready [demo_entry 1 1, demo_entry 1 2] 0 1 2, demo_ready [] 5 2 5, demo_ready [demo_entry 2 6] 0 2 5]"

definition demo_storage :: "bool \<Rightarrow> journal \<Rightarrow> (list_mem, journal, unit) Storage" where
  "demo_storage existing j = \<lparr>st_wal = \<lparr>wl_waldir = ''d/wal'', wl_snapdir = ''d/snap'', wl_wal = None, wl_snapshotter = None,
     wl_existingWAL = existing, wl_disk = j\<rparr>, st_memStorage = None\<rparr>"

definition demo_first :: "(list_mem, journal, unit) Storage" where
  "demo_first = snd (Initialize journal_api list_memory (demo_storage False demo_disk))"

definition demo_last :: "(list_mem, journal, unit) Storage" where
  "demo_last = snd (SaveStates journal_api list_memory demo_readies demo_first)"

section \<open>Lemmas on the order of writes\<close>

lemmas lens_defs = on_disk_def on_wal_def on_mem_def non_nil_def

lemma snd_on_disk [simp]: "snd (on_disk f w) = w\<lparr>wl_disk := snd (f (wl_disk w))\<rparr>"
  by (simp add: on_disk_def split: prod.splits)

lemma snd_on_wal [simp]: "snd (on_wal f s) = s\<lparr>st_wal := snd (f (st_wal s))\<rparr>"
  by (simp add: on_wal_def split: prod.splits)

lemma on_mem_wal [simp]: "st_wal (snd (on_mem f s)) = st_wal s"
  by (simp add: on_mem_def non_nil_def panicS_def split: prod.splits option.splits)

lemma apply_unless_old_wal [simp]: "st_wal (snd (apply_unless_old M sn s)) = st_wal s"
  using on_mem_wal [of "ms_ApplySnapshot M sn" s]
  by (auto simp: apply_unless_old_def simp del: on_mem_wal split: prod.splits res.splits)

lemma compact_wal [simp]: "st_wal (snd (compact M i s)) = st_wal s"
  using on_mem_wal [of "ms_Compact M i" s] by (auto simp: compact_def simp del: on_mem_wal split: prod.splits res.splits)

lemma ensures_on_wal [ensures_intros]: "ensures P f Q \<Longrightarrow> ensures (\<lambda>s. P (st_wal s)) (on_wal f) (\<lambda>s. Q (st_wal s))"
  by (simp add: ensures_def)

lemma ensures_mem [ensures_intros]:
  "ensures (\<lambda>s. P (st_wal s)) (on_mem f) (\<lambda>s. P (st_wal s))"
  "ensures (\<lambda>s. P (st_wal s)) (apply_unless_old M sn) (\<lambda>s. P (st_wal s))"
  "ensures (\<lambda>s. P (st_wal s)) (compact M i) (\<lambda>s. P (st_wal s))"
  by (simp_all add: ensures_def)

lemma dirs_ok_disk [simp]: "dirs_ok A baseDir (w\<lparr>wl_disk := d\<rparr>) = dirs_ok A baseDir w"
  by (simp add: dirs_ok_def)

lemma no_dangling_mono:
  "no_dangling v \<Longrightarrow> set (lv_marks v') \<subseteq> set (lv_marks v) \<Longrightarrow> lv_files v' = lv_files v \<Longrightarrow> no_dangling v'"
  by (auto simp: no_dangling_def)

lemma non_nil_ensures:
  assumes "\<And>h d r d'. g h d = (r, d') \<Longrightarrow> set (lv_marks (view d')) \<subseteq> set (lv_marks (view d)) \<and> lv_files (view d') = lv_files (view d)"
  shows "ensures (log_ok A baseDir view) (\<lambda>w. non_nil (wl_wal w) (\<lambda>h. on_disk (g h)) w) (log_ok A baseDir view)"
  unfolding ensures_def
proof (intro allI impI)
  fix w
  assume ok: "log_ok A baseDir view w"
  show "log_ok A baseDir view (snd (non_nil (wl_wal w) (\<lambda>h. on_disk (g h)) w))"
  proof (cases "wl_wal w")
    case (Some h)
    from assms [OF prod.collapse [symmetric], of h "wl_disk w"] ok Some show ?thesis
      by (auto simp: non_nil_def log_ok_def intro: no_dangling_mono)
  qed (use ok in \<open>simp add: non_nil_def panicS_def\<close>)
qed

context etcd_log
begin

lemma wal_SaveState_ok [ensures_intros]: "ensures (log_ok A baseDir view) (wal_SaveState A st es) (log_ok A baseDir view)"
  unfolding wal_SaveState_def [abs_def] by (rule non_nil_ensures) (rule fail_Save)

lemma wal_sync_ok [ensures_intros]: "ensures (log_ok A baseDir view) (wal_sync A) (log_ok A baseDir view)"
  unfolding wal_sync_def [abs_def] by (rule non_nil_ensures) (rule fail_Sync)

lemma wal_Release_ok [ensures_intros]: "ensures (log_ok A baseDir view) (wal_Release A i) (log_ok A baseDir view)"
  unfolding wal_Release_def [abs_def] by (rule non_nil_ensures) (rule fail_Release)

text \<open>The file of a snapshot is complete before its marker is written.\<close>

lemma save_file_ok:
  assumes "log_ok A baseDir view w" "unmarked view s w" "wl_snapshotter w = Some d" "snap_SaveSnap A d s (wl_disk w) = (r, x)"
  shows "no_dangling (view x)" "r = Ok () \<Longrightarrow> s \<in> set (lv_files (view x))"
proof -
  have d: "d = path_Join A baseDir ''snap''" using assms(1,3) by (simp add: log_ok_def dirs_ok_def)
  note f = fail_SaveSnap [OF assms(4) [unfolded d]]
  show "r = Ok () \<Longrightarrow> s \<in> set (lv_files (view x))" using f assms(2) by (simp add: unmarked_def)
  show "no_dangling (view x)"
    using f assms(1,2) unfolding no_dangling_def log_ok_def unmarked_def marked_def by metis
qed

lemma wal_SaveSnap_ok: "ensures (\<lambda>w. log_ok A baseDir view w \<and> unmarked view s w) (wal_SaveSnap A s) (log_ok A baseDir view)"
  unfolding ensures_def
proof (intro allI impI, elim conjE)
  fix w
  assume ok: "log_ok A baseDir view w" and um: "unmarked view s w"
  show "log_ok A baseDir view (snd (wal_SaveSnap A s w))"
  proof (cases "wl_snapshotter w")
    case None
    then show ?thesis using ok by (simp add: wal_SaveSnap_def bindS_def non_nil_def panicS_def)
  next
    case (Some d)
    obtain r x where rx: "snap_SaveSnap A d s (wl_disk w) = (r, x)" by fastforce
    note f = save_file_ok [OF ok um Some rx]
    define m where "m = \<lparr>ws_Index = snap_Index s, ws_Term = snap_Term s, ws_ConfState = Some (snap_ConfState s), ws_unrecognized = None\<rparr>"
    have "no_dangling (view (snd (wal_SaveSnapshot A h m x)))" if "r = Ok ()" for h
      using fail_SaveSnapshot [OF prod.collapse [symmetric], of h m x] f(1) f(2) [OF that]
      unfolding no_dangling_def m_def by (auto 4 3)
    then show ?thesis using ok f(1)
      by (cases r) (auto simp: wal_SaveSnap_def bindS_def on_disk_def [of "snap_SaveSnap A d s"] non_nil_def panicS_def Some rx
          log_ok_def m_def split: option.split)
  qed
qed

lemma CreateSnapshot_ok:
  assumes "log_ok A baseDir view (st_wal s)"
    and "\<And>t. unmarked view \<lparr>snap_Data = data, snap_ConfState = cs, snap_Index = index, snap_Term = t\<rparr> (st_wal s)"
  shows "log_ok A baseDir view (st_wal (snd (storage_CreateSnapshot A M index cs data s)))"
proof -
  let ?sn = "\<lambda>t. \<lparr>snap_Data = data, snap_ConfState = cs, snap_Index = index, snap_Term = t\<rparr>"
  let ?Q = "\<lambda>s. log_ok A baseDir view (st_wal s)"
  have "ensures (\<lambda>s. log_ok A baseDir view (st_wal s) \<and> unmarked view (?sn t) (st_wal s)) (bindS (on_wal (wal_SaveSnap A (?sn t))) (\<lambda>_.
     bindS (apply_unless_old M (?sn t)) (\<lambda>_.
     bindS (on_wal (wal_sync A)) (\<lambda>_.
     bindS (on_wal (wal_Release A index)) (\<lambda>_.
     compact M index))))) ?Q" for t
    by (intro ensures_bind ensures_on_wal [OF wal_SaveSnap_ok] ensures_intros)
  with assms show ?thesis
    by (auto simp: ensures_def storage_CreateSnapshot_def bindS_def [of "read_mem _"] read_mem_def non_nil_def liftR_def panicS_def Let_def
        split: option.splits res.splits prod.splits)
qed

lemma SaveState_ok:
  assumes "log_ok A baseDir view (st_wal s)" "IsEmptySnap (rd_Snapshot rd) \<or> unmarked view (rd_Snapshot rd) (st_wal s)"
  shows "log_ok A baseDir view (st_wal (snd (SaveState A M rd s)))"
proof -
  let ?P = "\<lambda>s. log_ok A baseDir view (st_wal s) \<and> (IsEmptySnap (rd_Snapshot rd) \<or> unmarked view (rd_Snapshot rd) (st_wal s))"
  let ?Q = "\<lambda>s. log_ok A baseDir view (st_wal s)"
  have "ensures ?P (if \<not> IsEmptySnap (rd_Snapshot rd) then on_wal (wal_SaveSnap A (rd_Snapshot rd)) else retS ()) ?Q"
    using ensures_on_wal [OF wal_SaveSnap_ok [of "rd_Snapshot rd"]] by (auto simp: ensures_def retS_def)
  then have "ensures ?P (saveStateToWal A rd) ?Q"
    unfolding saveStateToWal_def by (rule ensures_bind) (intro ensures_bind ensures_intros)
  then have "ensures ?P (SaveState A M rd) ?Q"
    unfolding SaveState_def by (rule ensures_bind) (intro ensures_bind ensures_intros)
  with assms show ?thesis by (simp add: ensures_def)
qed

lemma crash_no_dangling: "no_dangling (view w) \<Longrightarrow> no_dangling (view (crash w))"
  using dur_marks [of w] by (auto simp: crash_view intro: no_dangling_mono)

end

section \<open>Lemmas on replaying\<close>

lemma replay_append:
  "replay b acc (xs @ ys) = (case replay b acc xs of None \<Rightarrow> None | Some acc' \<Rightarrow> replay b acc' ys)"
  by (induction b acc xs rule: replay.induct) (auto simp: Let_def)

lemma unat_offset:
  fixes i b :: u64
  assumes "b < i"
  shows "unat (i - b - 1) = unat i - unat b - 1"
proof -
  have "unat (i - b) = unat i - unat b" using assms by (simp add: unat_sub word_less_nat_alt word_le_nat_alt)
  moreover have "1 \<le> i - b" using assms by (metis word_le_nat_alt calculation unat_1 zero_less_diff word_less_nat_alt Suc_leI One_nat_def)
  ultimately show ?thesis by (simp add: unat_sub)
qed

lemma replay_from:
  assumes "replay b acc es = Some lg" "\<forall>i < length acc. unat (ent_Index (acc ! i)) = unat b + i + 1"
  shows "\<forall>i < length lg. unat (ent_Index (lg ! i)) = unat b + i + 1"
  using assms
proof (induction es arbitrary: acc)
  case (Cons e es)
  show ?case
  proof (cases "b < ent_Index e")
    case True
    let ?k = "unat (ent_Index e) - unat b - 1"
    from Cons.prems(1) True have k: "?k \<le> length acc" and r: "replay b (take ?k acc @ [e]) es = Some lg"
      by (auto simp: Let_def unat_offset split: if_splits)
    from True Cons.prems(2) k have "\<forall>i < length (take ?k acc @ [e]). unat (ent_Index ((take ?k acc @ [e]) ! i)) = unat b + i + 1"
      by (auto simp: nth_append word_less_nat_alt less_Suc_eq)
    with Cons.IH [OF r] show ?thesis by simp
  qed (use Cons in simp)
qed simp

lemma replay_old: "\<forall>e \<in> set es. ent_Index e \<le> b \<Longrightarrow> replay b acc es = Some acc"
  by (induction es) (auto simp: not_less)

lemma consecutive_Cons: "consecutive (e # es) \<Longrightarrow> es \<noteq> [] \<Longrightarrow> consecutive es \<and> unat (ent_Index (hd es)) = unat (ent_Index e) + 1"
proof -
  assume c: "consecutive (e # es)" and "es \<noteq> []"
  then have step: "unat (ent_Index (es ! i)) = unat (ent_Index e) + Suc i" if "i < length es" for i
    using that unfolding consecutive_def by (auto dest: spec [of _ "Suc i"])
  from step [of 0] \<open>es \<noteq> []\<close> have "unat (ent_Index (hd es)) = unat (ent_Index e) + 1" by (simp add: hd_conv_nth)
  with step show ?thesis by (simp add: consecutive_def)
qed

lemma replay_fits:
  assumes "fits b acc es"
  shows "replay b acc es = Some (appended b acc es)"
  using assms
proof (induction es arbitrary: acc)
  case (Cons e es)
  let ?acc = "take (unat (ent_Index e) - unat b - 1) acc @ [e]"
  have 1: "b < ent_Index e" "unat (ent_Index e) \<le> unat b + length acc + 1" and c: "consecutive (e # es)"
    using Cons.prems by (auto simp: fits_def)
  then have s: "replay b acc (e # es) = replay b ?acc es" by (auto simp: Let_def unat_offset)
  have len: "length ?acc = unat (ent_Index e) - unat b" using 1 by (auto simp: word_less_nat_alt)
  show ?case
  proof (cases "es = []")
    case False
    note c' = consecutive_Cons [OF c False]
    with 1 len have "fits b ?acc es" by (auto simp: fits_def word_less_nat_alt)
    then have "replay b ?acc es = Some (appended b ?acc es)" by (rule Cons.IH)
    moreover have "appended b ?acc es = ?acc @ es" using c' len False by (simp add: appended_def)
    ultimately show ?thesis unfolding s by (simp add: appended_def)
  next
    case True
    then show ?thesis unfolding s by (simp add: appended_def)
  qed
qed (simp add: appended_def)

lemma newest_file_snoc: "P s \<Longrightarrow> \<forall>f \<in> set fs. P f \<longrightarrow> older f s \<Longrightarrow> newest_file P (fs @ [s]) = Some s"
  by (induction fs) auto

section \<open>The storage keeps what Raft gave it\<close>

locale raft_storage = etcd_log A baseDir view dur crash opened reading + raft_memory M log base snap hard
  for A :: "('w, 'h) wal_api" and baseDir and view dur :: "'w \<Rightarrow> log_view" and crash :: "'w \<Rightarrow> 'w"
    and opened :: "'h \<Rightarrow> 'w \<Rightarrow> bool" and reading :: "'h \<Rightarrow> WalSnapshot \<Rightarrow> 'w \<Rightarrow> bool"
    and M :: "'ms memory_storage" and log :: "'ms \<Rightarrow> Entry list" and base :: "'ms \<Rightarrow> u64" and snap :: "'ms \<Rightarrow> Snapshot"
    and hard :: "'ms \<Rightarrow> HardState"

text \<open>A log that is open for appending; a memory that holds a state.\<close>

definition appending :: "('w, 'h) wal_api \<Rightarrow> string \<Rightarrow> ('h \<Rightarrow> 'w \<Rightarrow> bool) \<Rightarrow> ('w, 'h) Wal \<Rightarrow> bool" where
  "appending A baseDir opened w \<longleftrightarrow> dirs_ok A baseDir w \<and> wl_snapshotter w \<noteq> None
     \<and> (\<exists>h. wl_wal w = Some h \<and> opened h (wl_disk w))"

definition in_memory :: "('ms \<Rightarrow> Entry list) \<Rightarrow> ('ms \<Rightarrow> u64) \<Rightarrow> ('ms \<Rightarrow> Snapshot) \<Rightarrow> ('ms \<Rightarrow> HardState) \<Rightarrow> raft_state \<Rightarrow> 'ms \<Rightarrow> bool" where
  "in_memory log base snap hard R m \<longleftrightarrow> log m = rs_log R \<and> snap m = rs_snap R \<and> hard m = rs_hard R \<and> base m = snap_Index (rs_snap R)"

definition after_ready :: "Ready \<Rightarrow> log_view \<Rightarrow> log_view" where
  "after_ready rd v =
     (let v' = (if IsEmptySnap (rd_Snapshot rd) then v
        else v\<lparr>lv_files := add_file (rd_Snapshot rd) (lv_files v), lv_marks := lv_marks v @
          [\<lparr>ws_Index = snap_Index (rd_Snapshot rd), ws_Term = snap_Term (rd_Snapshot rd),
            ws_ConfState = Some (snap_ConfState (rd_Snapshot rd)), ws_unrecognized = None\<rparr>]\<rparr>) in
      v'\<lparr>lv_state := (if IsEmptyHardState (rd_HardState rd) then lv_state v else rd_HardState rd), lv_entries := lv_entries v @ rd_Entries rd\<rparr>)"

lemma newest_after_save:
  assumes new: "newest_file (marked ms) fs = (if IsEmptySnap sn then None else Some sn)"
    and le: "snap_Index sn < snap_Index s" "snap_Term sn \<le> snap_Term s"
    and m: "ws_Index m = snap_Index s" "ws_Term m = snap_Term s"
  shows "newest_file (marked (ms @ [m])) (add_file s fs) = Some s"
  unfolding add_file_def
proof (rule newest_file_snoc, simp add: marked_def m, intro ballI impI)
  fix f
  assume f: "f \<in> set (filter (\<lambda>f. \<not> (snap_Term f = snap_Term s \<and> snap_Index f = snap_Index s)) fs)" and "marked (ms @ [m]) f"
  then have "f \<in> set fs" "marked ms f" by (auto simp: marked_def m)
  with new have "older f sn" by (auto simp: newest_file_None_iff split: if_splits dest: newest_file_SomeD)
  with le show "older f s" by (auto simp: older_def)
qed

lemma holds_after_ready:
  assumes h: "holds_state R v" and ok: "ready_ok R rd"
  shows "holds_state (ready_next R rd) (after_ready rd v)"
proof -
  note h' = h [unfolded holds_state_def] and ok' = ok [unfolded ready_ok_def]
  have "replay (snap_Index (ready_snap R rd)) [] (rs_written R) = Some (ready_log R rd)"
    using h' ok' replay_old [of "rs_written R"] by (auto simp: ready_snap_def ready_log_def)
  with ok' have rep: "replay (snap_Index (ready_snap R rd)) [] (rs_written R @ rd_Entries rd)
      = Some (appended (snap_Index (ready_snap R rd)) (ready_log R rd) (rd_Entries rd))"
    by (simp add: replay_append replay_fits)
  show ?thesis
  proof (cases "IsEmptySnap (rd_Snapshot rd)")
    case True
    with h' ok' rep show ?thesis
      by (auto simp: holds_state_def ready_next_def after_ready_def ready_snap_def Let_def intro: order_trans)
  next
    case False
    have le: "snap_Index (rs_snap R) < snap_Index (rd_Snapshot rd)" "snap_Term (rs_snap R) \<le> snap_Term (rd_Snapshot rd)"
      "\<not> IsEmptyHardState (rd_HardState rd)" "snap_Index (rd_Snapshot rd) \<le> hs_Commit (rd_HardState rd)"
      using False ok' by (auto simp: ready_snap_def)
    have marks: "\<forall>m \<in> set (lv_marks v). ws_Index m < snap_Index (rd_Snapshot rd)" using h' le(1) by (meson le_less_trans)
    note new = newest_after_save [where s = "rd_Snapshot rd" and sn = "rs_snap R"]
    with h' False rep le marks show ?thesis
      by (auto simp: holds_state_def ready_next_def after_ready_def ready_snap_def Let_def intro: order_trans less_imp_le)
  qed
qed

context raft_storage
begin

lemma SaveSnap_done:
  assumes "appending A baseDir opened w" "wal_SaveSnap A s w = (Ok (), w')" "snap_Index s \<noteq> 0"
  shows "\<exists>d. w' = w\<lparr>wl_disk := d\<rparr> \<and> appending A baseDir opened w'
    \<and> view d = (view (wl_disk w))\<lparr>lv_files := add_file s (lv_files (view (wl_disk w))), lv_marks := lv_marks (view (wl_disk w)) @
      [\<lparr>ws_Index = snap_Index s, ws_Term = snap_Term s, ws_ConfState = Some (snap_ConfState s), ws_unrecognized = None\<rparr>]\<rparr>"
proof -
  obtain h where h: "wl_wal w = Some h" "opened h (wl_disk w)" "wl_snapshotter w = Some (path_Join A baseDir ''snap'')"
    using assms(1) by (auto simp: appending_def dirs_ok_def)
  obtain x where x: "snap_SaveSnap A (path_Join A baseDir ''snap'') s (wl_disk w) = (Ok (), x)"
    and y: "wal_SaveSnap A s w = non_nil (wl_wal w) (\<lambda>h. on_disk (wal_SaveSnapshot A h
       \<lparr>ws_Index = snap_Index s, ws_Term = snap_Term s, ws_ConfState = Some (snap_ConfState s), ws_unrecognized = None\<rparr>)) (w\<lparr>wl_disk := x\<rparr>)"
    using assms(2) h by (auto simp: wal_SaveSnap_def lens_defs bindS_def split: prod.splits res.splits)
  note f = SaveSnap_view [OF assms(3) x, of h]
  obtain d where "wal_SaveSnapshot A h \<lparr>ws_Index = snap_Index s, ws_Term = snap_Term s, ws_ConfState = Some (snap_ConfState s),
      ws_unrecognized = None\<rparr> x = (Ok (), d)" "w' = w\<lparr>wl_disk := d\<rparr>"
    using assms(2) h unfolding y by (auto simp: lens_defs split: prod.splits)
  with SaveSnapshot_view [of h x _ d] f h assms(1) show ?thesis by (auto simp: appending_def)
qed

lemma SaveState_done:
  assumes "appending A baseDir opened w" "wal_SaveState A st es w = (Ok (), w')"
  shows "\<exists>d. w' = w\<lparr>wl_disk := d\<rparr> \<and> appending A baseDir opened w' \<and> view d = (view (wl_disk w))
    \<lparr>lv_state := (if IsEmptyHardState st then lv_state (view (wl_disk w)) else st), lv_entries := lv_entries (view (wl_disk w)) @ es\<rparr>"
  using assms Save_view by (fastforce simp: wal_SaveState_def lens_defs appending_def split: prod.splits)

lemma sync_done:
  assumes "appending A baseDir opened w" "wal_sync A w = (Ok (), w')"
  shows "\<exists>d. w' = w\<lparr>wl_disk := d\<rparr> \<and> appending A baseDir opened w' \<and> view d = view (wl_disk w) \<and> dur d = view d"
  using assms Sync_view by (fastforce simp: wal_sync_def lens_defs appending_def split: prod.splits)

lemma Release_done:
  assumes "appending A baseDir opened w" "wal_Release A i w = (Ok (), w')"
  shows "\<exists>d. w' = w\<lparr>wl_disk := d\<rparr> \<and> appending A baseDir opened w' \<and> view d = view (wl_disk w) \<and> dur d = dur (wl_disk w)"
  using assms Release_view by (fastforce simp: wal_Release_def lens_defs appending_def split: prod.splits)

lemma on_wal_done:
  assumes "on_wal f s = (Ok (), s')"
  obtains w' where "f (st_wal s) = (Ok (), w')" and "s' = s\<lparr>st_wal := w'\<rparr>"
  using assms by (auto simp: on_wal_def split: prod.splits)

text \<open>After the log's part of a \<^verbatim>\<open>Ready\<close> is written everything on disk is durable.\<close>

lemma saveStateToWal_done:
  assumes a: "appending A baseDir opened (st_wal s)" and ok: "saveStateToWal A rd s = (Ok (), s')"
  shows "\<exists>d. s' = s\<lparr>st_wal := (st_wal s)\<lparr>wl_disk := d\<rparr>\<rparr> \<and> appending A baseDir opened (st_wal s')
    \<and> view d = after_ready rd (view (st_disk s)) \<and> dur d = view d"
proof -
  obtain s1 s2 s3 where steps: "(if \<not> IsEmptySnap (rd_Snapshot rd) then on_wal (wal_SaveSnap A (rd_Snapshot rd)) else retS ()) s = (Ok (), s1)"
    "on_wal (wal_SaveState A (rd_HardState rd) (rd_Entries rd)) s1 = (Ok (), s2)"
    "on_wal (wal_sync A) s2 = (Ok (), s3)" "on_wal (wal_Release A (snap_Index (rd_Snapshot rd))) s3 = (Ok (), s')"
    using ok by (auto simp: saveStateToWal_def bindS_Ok_iff)
  let ?v = "view (st_disk s)"
  let ?m = "\<lparr>ws_Index = snap_Index (rd_Snapshot rd), ws_Term = snap_Term (rd_Snapshot rd),
      ws_ConfState = Some (snap_ConfState (rd_Snapshot rd)), ws_unrecognized = None\<rparr>"
  have 1: "\<exists>d. s1 = s\<lparr>st_wal := (st_wal s)\<lparr>wl_disk := d\<rparr>\<rparr> \<and> appending A baseDir opened (st_wal s1) \<and> view d =
      (if IsEmptySnap (rd_Snapshot rd) then ?v
       else ?v\<lparr>lv_files := add_file (rd_Snapshot rd) (lv_files ?v), lv_marks := lv_marks ?v @ [?m]\<rparr>)"
  proof (cases "IsEmptySnap (rd_Snapshot rd)")
    case True
    with steps(1) a show ?thesis by (intro exI [of _ "st_disk s"]) (simp add: retS_def)
  next
    case False
    then have "on_wal (wal_SaveSnap A (rd_Snapshot rd)) s = (Ok (), s1)" using steps(1) by simp
    then obtain w where "wal_SaveSnap A (rd_Snapshot rd) (st_wal s) = (Ok (), w)" "s1 = s\<lparr>st_wal := w\<rparr>" by (rule on_wal_done)
    with SaveSnap_done [OF a] False show ?thesis by (fastforce simp: IsEmptySnap_def)
  qed
  then obtain d1 where d1: "s1 = s\<lparr>st_wal := (st_wal s)\<lparr>wl_disk := d1\<rparr>\<rparr>" "appending A baseDir opened (st_wal s1)"
    "view d1 = (if IsEmptySnap (rd_Snapshot rd) then ?v
       else ?v\<lparr>lv_files := add_file (rd_Snapshot rd) (lv_files ?v), lv_marks := lv_marks ?v @ [?m]\<rparr>)" by blast
  obtain w2 where w2: "wal_SaveState A (rd_HardState rd) (rd_Entries rd) (st_wal s1) = (Ok (), w2)" "s2 = s1\<lparr>st_wal := w2\<rparr>"
    using steps(2) by (rule on_wal_done)
  from SaveState_done [OF d1(2) w2(1)] obtain d2 where d2: "w2 = (st_wal s)\<lparr>wl_disk := d2\<rparr>" "appending A baseDir opened w2"
    "view d2 = after_ready rd ?v"
    using d1(1,3) by (auto simp: after_ready_def Let_def)
  obtain w3 where w3: "wal_sync A w2 = (Ok (), w3)" "s3 = s2\<lparr>st_wal := w3\<rparr>" using steps(3) w2(2) by (auto elim: on_wal_done)
  from sync_done [OF d2(2) w3(1)] obtain d3 where d3: "w3 = (st_wal s)\<lparr>wl_disk := d3\<rparr>" "appending A baseDir opened w3"
    "view d3 = after_ready rd ?v" "dur d3 = view d3" using d2(1,3) by auto
  obtain w4 where w4: "wal_Release A (snap_Index (rd_Snapshot rd)) w3 = (Ok (), w4)" "s' = s3\<lparr>st_wal := w4\<rparr>"
    using steps(4) w3(2) by (auto elim: on_wal_done)
  from Release_done [OF d3(2) w4(1)] show ?thesis using d3(1,3,4) w4(2) w3(2) w2(2) d1(1) by auto
qed

lemma mem_done:
  assumes m: "in_memory log base snap hard R m" and ok: "ready_ok R rd"
  shows "\<exists>m'. (bindS (if \<not> IsEmptySnap (rd_Snapshot rd) then apply_unless_old M (rd_Snapshot rd) else retS ()) (\<lambda>_.
     bindS (if \<not> IsEmptyHardState (rd_HardState rd) then on_mem (ms_SetHardState M (rd_HardState rd)) else retS ()) (\<lambda>_.
     on_mem (ms_Append M (rd_Entries rd))))) (\<lparr>st_wal = w, st_memStorage = Some m\<rparr>)
       = (Ok (), \<lparr>st_wal = w, st_memStorage = Some m'\<rparr>) \<and> in_memory log base snap hard (ready_next R rd) m'"
proof -
  let ?st = "\<lambda>m. \<lparr>st_wal = w, st_memStorage = Some m\<rparr>"
  have b: "base m = snap_Index (rs_snap R)" "snap m = rs_snap R" "log m = rs_log R" "hard m = rs_hard R"
    using m by (simp_all add: in_memory_def)
  have "\<exists>m1. (if \<not> IsEmptySnap (rd_Snapshot rd) then apply_unless_old M (rd_Snapshot rd) else retS ()) (?st m) = (Ok (), ?st m1)
      \<and> log m1 = ready_log R rd \<and> base m1 = snap_Index (ready_snap R rd) \<and> snap m1 = ready_snap R rd \<and> hard m1 = rs_hard R"
    using ok b ApplySnapshot [of m "rd_Snapshot rd"]
    by (auto simp: ready_ok_def ready_log_def ready_snap_def apply_unless_old_def lens_defs retS_def)
  then obtain m1 where m1: "(if \<not> IsEmptySnap (rd_Snapshot rd) then apply_unless_old M (rd_Snapshot rd) else retS ()) (?st m) = (Ok (), ?st m1)"
      "log m1 = ready_log R rd" "base m1 = snap_Index (ready_snap R rd)" "snap m1 = ready_snap R rd" "hard m1 = rs_hard R" by blast
  have "\<exists>m2. (if \<not> IsEmptyHardState (rd_HardState rd) then on_mem (ms_SetHardState M (rd_HardState rd)) else retS ()) (?st m1) = (Ok (), ?st m2)
      \<and> log m2 = log m1 \<and> base m2 = base m1 \<and> snap m2 = snap m1 \<and> hard m2 = rs_hard (ready_next R rd)"
    using SetHardState [of "rd_HardState rd" m1] m1(5) by (auto simp: lens_defs retS_def ready_next_def)
  then obtain m2 where m2: "(if \<not> IsEmptyHardState (rd_HardState rd) then on_mem (ms_SetHardState M (rd_HardState rd)) else retS ()) (?st m1) = (Ok (), ?st m2)"
      "log m2 = log m1" "base m2 = base m1" "snap m2 = snap m1" "hard m2 = rs_hard (ready_next R rd)" by blast
  have "\<exists>m3. on_mem (ms_Append M (rd_Entries rd)) (?st m2) = (Ok (), ?st m3) \<and> in_memory log base snap hard (ready_next R rd) m3"
  proof (cases "rd_Entries rd = []")
    case True
    then show ?thesis using m1 m2 Append_nil [of m2] by (simp add: lens_defs in_memory_def ready_next_def appended_def)
  next
    case False
    then have "base m2 < ent_Index (hd (rd_Entries rd))" "unat (ent_Index (hd (rd_Entries rd))) \<le> unat (base m2) + length (log m2) + 1"
      using ok m1 m2 by (auto simp: ready_ok_def fits_def)
    from Append [OF False this] m1 m2 False show ?thesis
      by (auto simp: lens_defs in_memory_def ready_next_def appended_def)
  qed
  with m1(1) m2(1) show ?thesis by (auto simp: bindS_def)
qed

lemma SaveState_persists:
  assumes "appending A baseDir opened (st_wal s)" "st_memStorage s = Some m" "in_memory log base snap hard R m"
    and "holds_state R (view (st_disk s))" "ready_ok R rd" "SaveState A M rd s = (Ok (), s')"
  shows "\<exists>m'. appending A baseDir opened (st_wal s') \<and> st_memStorage s' = Some m' \<and> in_memory log base snap hard (ready_next R rd) m'
    \<and> holds_state (ready_next R rd) (view (st_disk s')) \<and> dur (st_disk s') = view (st_disk s')"
proof -
  obtain s1 where "saveStateToWal A rd s = (Ok (), s1)" and rest: "bindS (if \<not> IsEmptySnap (rd_Snapshot rd) then apply_unless_old M (rd_Snapshot rd) else retS ()) (\<lambda>_.
     bindS (if \<not> IsEmptyHardState (rd_HardState rd) then on_mem (ms_SetHardState M (rd_HardState rd)) else retS ()) (\<lambda>_.
     on_mem (ms_Append M (rd_Entries rd)))) s1 = (Ok (), s')"
    using assms(6) unfolding SaveState_def by (rule bindS_OkE) auto
  with saveStateToWal_done [OF assms(1)] obtain d where d: "s1 = s\<lparr>st_wal := (st_wal s)\<lparr>wl_disk := d\<rparr>\<rparr>"
    "appending A baseDir opened (st_wal s1)" "view d = after_ready rd (view (st_disk s))" "dur d = view d" by blast
  have "s1 = \<lparr>st_wal = st_wal s1, st_memStorage = Some m\<rparr>" using d(1) assms(2) by simp
  with mem_done [OF assms(3,5), of "st_wal s1"] rest obtain m' where
    "s' = \<lparr>st_wal = st_wal s1, st_memStorage = Some m'\<rparr>" "in_memory log base snap hard (ready_next R rd) m'" by auto
  with d holds_after_ready [OF assms(4,5)] show ?thesis by simp
qed

lemma SaveStates_persist:
  assumes "appending A baseDir opened (st_wal s)" "st_memStorage s = Some m" "in_memory log base snap hard R m"
    and "holds_state R (view (st_disk s))" "dur (st_disk s) = view (st_disk s)" "readies_ok R rds" "SaveStates A M rds s = (Ok (), s')"
  shows "\<exists>m'. st_memStorage s' = Some m' \<and> in_memory log base snap hard (foldl ready_next R rds) m'
    \<and> holds_state (foldl ready_next R rds) (view (st_disk s')) \<and> dur (st_disk s') = view (st_disk s')"
  using assms
proof (induction rds arbitrary: R s m)
  case (Cons rd rds)
  from Cons.prems(7) obtain s1 where s1: "SaveState A M rd s = (Ok (), s1)" "SaveStates A M rds s1 = (Ok (), s')"
    by (auto elim: bindS_OkE)
  from Cons.prems(6) have ok: "ready_ok R rd" "readies_ok (ready_next R rd) rds" by auto
  from SaveState_persists [OF Cons.prems(1-4) ok(1) s1(1)] Cons.IH ok(2) s1(2) show ?case by auto
qed (auto simp: retS_def)

lemma newWal_done:
  assumes "newWal A baseDir d = (Ok w, d')"
  shows "w = \<lparr>wl_waldir = path_Join A baseDir ''wal'', wl_snapdir = path_Join A baseDir ''snap'', wl_wal = None, wl_snapshotter = None,
      wl_existingWAL = lv_exists (view d), wl_disk = d'\<rparr>" "view d' = view d" "dur d' = dur d"
proof -
  have mk: "view x' = view x \<and> dur x' = dur x" if "CreateDirIfNotExists A p x = (r, x')" for p x x' r
    using that Mkdir_view by (auto simp: CreateDirIfNotExists_def CreateDir_def split: if_splits)
  have rm: "RemoveMatch_loop A (path_Join A baseDir ''snap'') (prefix ''tmp'') es x = (r, x') \<Longrightarrow> view x' = view x \<and> dur x' = dur x" for es x x' r
  proof (induction es arbitrary: x)
    case (Cons e es)
    obtain n isDir where e: "e = (n, isDir)" by fastforce
    show ?case
    proof (cases "\<not> isDir \<and> prefix ''tmp'' n")
      case True
      obtain q y where y: "os_RemoveAll A (path_Join A (path_Join A baseDir ''snap'') n) x = (q, y)" by fastforce
      with True have "view y = view x \<and> dur y = dur x" using Remove_view by blast
      with Cons y True e show ?thesis by (cases q) (auto simp: bindS_def)
    qed (use Cons e in \<open>auto split: if_splits\<close>)
  qed (simp add: retS_def)
  from assms obtain x1 x2 where "CreateDirIfNotExists A (path_Join A baseDir ''wal'') d = (Ok (), x1)"
    "CreateDirIfNotExists A (path_Join A baseDir ''snap'') x1 = (Ok (), x2)"
    "RemoveMatchFile A (path_Join A baseDir ''snap'') (prefix ''tmp'') x2 = (Ok (), d')"
    and w: "w = \<lparr>wl_waldir = path_Join A baseDir ''wal'', wl_snapdir = path_Join A baseDir ''snap'', wl_wal = None, wl_snapshotter = None,
      wl_existingWAL = wal_Exist A (path_Join A baseDir ''wal'') d', wl_disk = d'\<rparr>"
    by (auto simp: newWal_def Let_def elim!: bindS_OkE)
  with mk have "view d' = view d \<and> dur d' = dur d"
    by (auto simp: RemoveMatchFile_def split: res.splits dest: rm)
  with w show "w = \<lparr>wl_waldir = path_Join A baseDir ''wal'', wl_snapdir = path_Join A baseDir ''snap'', wl_wal = None, wl_snapshotter = None,
      wl_existingWAL = lv_exists (view d), wl_disk = d'\<rparr>" "view d' = view d" "dur d' = dur d"
    by (auto simp: Exist)
qed

text \<open>Opening a log that holds a state gives the state back; opening a directory without a log creates one.\<close>

lemma wal_open_existing:
  assumes "holds_state R (view (wl_disk w))" "dur (wl_disk w) = view (wl_disk w)" "dirs_ok A baseDir w"
  shows "\<exists>w'. wal_open A w = (Ok (if IsEmptySnap (rs_snap R) then None else Some (rs_snap R), rs_hard R, rs_log R), w')
    \<and> appending A baseDir opened w' \<and> view (wl_disk w') = view (wl_disk w) \<and> dur (wl_disk w') = view (wl_disk w)"
proof -
  let ?v = "view (wl_disk w)" and ?wd = "path_Join A baseDir ''wal''" and ?sd = "path_Join A baseDir ''snap''"
  let ?sn = "if IsEmptySnap (rs_snap R) then None else Some (rs_snap R)"
  let ?m = "case ?sn of None \<Rightarrow> emptyWalSnapshot | Some s \<Rightarrow> emptyWalSnapshot\<lparr>ws_Index := snap_Index s, ws_Term := snap_Term s\<rparr>"
  note h = assms(1) [unfolded holds_state_def] and d = assms(3) [unfolded dirs_ok_def]
  have ex: "lv_exists ?v" and valid: "valid_marks ?v = lv_marks ?v" using h by (auto simp: valid_marks_def)
  from Valid_view [OF ex assms(2)] obtain x1 where x1: "wal_ValidSnapshotEntries A ?wd (wl_disk w) = (Ok (lv_marks ?v), x1)"
    "view x1 = ?v" "dur x1 = ?v" using valid assms(2) by auto
  from LoadNewest_view [of "lv_marks ?v" x1] h x1 obtain x2 where x2: "snap_LoadNewestAvailable A ?sd (lv_marks ?v) x1 =
      (case ?sn of None \<Rightarrow> Err ErrNoSnapshot | Some s \<Rightarrow> Ok s, x2)" "view x2 = ?v" "dur x2 = ?v" by auto
  from Open_view [of x2 ?m] ex x2 obtain hd x3 where x3: "wal_Open A ?wd ?m x2 = (Ok hd, x3)" "reading hd ?m x3" "view x3 = ?v" "dur x3 = ?v"
    by auto
  have m: "ws_Index ?m = snap_Index (rs_snap R)" "ws_Term ?m = snap_Term (rs_snap R)"
    using h by (auto simp: emptyWalSnapshot_def emptySnapshot_def IsEmptySnap_def)
  from ReadAll_view [OF x3(2)] h x3 obtain x4 where x4: "wal_ReadAll A hd x3 = (Ok (rs_hard R, rs_log R), x4)" "opened hd x4"
    "view x4 = ?v" "dur x4 = ?v" unfolding m by auto
  let ?w = "w\<lparr>wl_snapshotter := Some ?sd\<rparr>"
  have "loadLatestSnapshot A ?w = (Ok ?sn, ?w\<lparr>wl_disk := x2\<rparr>)"
    using ex d x1 x2 by (simp add: loadLatestSnapshot_def Exist bindS_def lens_defs)
  moreover have "openWAL A ?sn (?w\<lparr>wl_disk := x2\<rparr>) = (Ok hd, ?w\<lparr>wl_disk := x3\<rparr>)"
    using ex d x2 x3 unfolding openWAL_def by (simp add: Exist bindS_def lens_defs)
  ultimately have "wal_open A w = (Ok (?sn, rs_hard R, rs_log R), ?w\<lparr>wl_disk := x4, wl_wal := Some hd\<rparr>)"
    using d x4 by (simp add: wal_open_def bindS_def lens_defs retS_def)
  with x4 d show ?thesis by (auto simp: appending_def dirs_ok_def)
qed

lemma wal_open_fresh:
  assumes "\<not> lv_exists (view (wl_disk w))" "lv_files (view (wl_disk w)) = []" "dirs_ok A baseDir w" "wal_open A w = (Ok r, w')"
  shows "r = (Some emptySnapshot, emptyHardState, [])" "appending A baseDir opened w'"
    "holds_state raft_init (view (wl_disk w'))" "dur (wl_disk w') = view (wl_disk w')"
proof -
  let ?wd = "path_Join A baseDir ''wal''" and ?w = "w\<lparr>wl_snapshotter := Some (path_Join A baseDir ''snap'')\<rparr>"
  let ?v = "\<lparr>lv_exists = True, lv_state = emptyHardState, lv_entries = [], lv_marks = [emptyWalSnapshot], lv_files = []\<rparr>"
  note d = assms(3) [unfolded dirs_ok_def]
  have m: "emptyWalSnapshot\<lparr>ws_Index := snap_Index emptySnapshot, ws_Term := snap_Term emptySnapshot\<rparr> = emptyWalSnapshot"
    "ws_Index emptyWalSnapshot = 0" "ws_Term emptyWalSnapshot = 0"
    by (simp_all add: emptyWalSnapshot_def emptySnapshot_def)
  have load: "loadLatestSnapshot A ?w = (Ok (Some emptySnapshot), ?w)" using assms(1) d by (simp add: loadLatestSnapshot_def Exist)
  then obtain hd u where u: "openWAL A (Some emptySnapshot) ?w = (Ok hd, u)" using assms(4) d
    by (auto simp: wal_open_def bindS_def split: prod.splits res.splits)
  then obtain h0 x1 where x1: "wal_Create A ?wd (wl_disk w) = (Ok h0, x1)" using assms(1) d
    by (auto simp: openWAL_def Exist lens_defs bindS_def split: prod.splits res.splits)
  from Create_view [OF assms(1) x1] assms(2) have v1: "opened h0 x1" "view x1 = ?v" "dur x1 = ?v" by auto
  obtain q x2 where x2: "wal_CloseLog A h0 x1 = (q, x2)" by fastforce
  from Close_view [OF v1(1) x2] v1 have v2: "view x2 = ?v" "dur x2 = ?v" by auto
  from Open_view [of x2 emptyWalSnapshot] v2 obtain hd' x3 where x3: "wal_Open A ?wd emptyWalSnapshot x2 = (Ok hd', x3)"
    "reading hd' emptyWalSnapshot x3" "view x3 = ?v" "dur x3 = ?v" by auto
  from u assms(1) d x1 x2 x3(1) have u': "hd = hd'" "u = ?w\<lparr>wl_disk := x3\<rparr>"
    by (auto simp: openWAL_def Exist lens_defs bindS_def m split: res.splits)
  from ReadAll_view [OF x3(2)] x3 obtain x4 where x4: "wal_ReadAll A hd' x3 = (Ok (emptyHardState, []), x4)" "opened hd' x4"
    "view x4 = ?v" "dur x4 = ?v" by auto
  from load u u' x4 assms(4) d have "r = (Some emptySnapshot, emptyHardState, [])" "w' = ?w\<lparr>wl_disk := x4, wl_wal := Some hd'\<rparr>"
    by (auto simp: wal_open_def bindS_def lens_defs retS_def)
  with x4 d show "r = (Some emptySnapshot, emptyHardState, [])" "appending A baseDir opened w'"
    "holds_state raft_init (view (wl_disk w'))" "dur (wl_disk w') = view (wl_disk w')"
    by (auto simp: appending_def dirs_ok_def holds_state_def raft_init_def m emptySnapshot_def emptyHardState_def IsEmptySnap_def)
qed

lemma Initialize_loads:
  assumes "wal_open A (st_wal s) = (Ok (sn, rs_hard R, rs_log R), w')"
    and "holds_state R v" "if IsEmptySnap (rs_snap R) then sn = None \<or> sn = Some emptySnapshot else sn = Some (rs_snap R)"
  shows "\<exists>m. Initialize A M s = (Ok (), \<lparr>st_wal = w', st_memStorage = Some m\<rparr>) \<and> in_memory log base snap hard R m"
proof -
  let ?st = "\<lambda>m. \<lparr>st_wal = w', st_memStorage = Some m\<rparr>"
  note h = assms(2) [unfolded holds_state_def]
  have n: "log (ms_New M) = []" "base (ms_New M) = 0" "snap (ms_New M) = emptySnapshot" "hard (ms_New M) = emptyHardState"
    using New by auto
  have "\<exists>m1. (case sn of Some sn \<Rightarrow> if \<not> IsEmptySnap sn then closing A (on_mem (ms_ApplySnapshot M sn)) else retS () | None \<Rightarrow> retS ()) (?st (ms_New M))
      = (Ok (), ?st m1) \<and> log m1 = [] \<and> base m1 = snap_Index (rs_snap R) \<and> snap m1 = rs_snap R \<and> hard m1 = emptyHardState"
  proof (cases "IsEmptySnap (rs_snap R)")
    case True
    with h n assms(3) show ?thesis by (auto simp: retS_def emptySnapshot_def IsEmptySnap_def)
  next
    case False
    then have "sn = Some (rs_snap R)" "snap_Index (snap (ms_New M)) < snap_Index (rs_snap R)"
      using assms(3) n by (auto simp: emptySnapshot_def IsEmptySnap_def word_neq_0_conv)
    with ApplySnapshot [of "ms_New M" "rs_snap R"] n False show ?thesis by (auto simp: closing_def lens_defs)
  qed
  then obtain m1 where m1: "(case sn of Some sn \<Rightarrow> if \<not> IsEmptySnap sn then closing A (on_mem (ms_ApplySnapshot M sn)) else retS () | None \<Rightarrow> retS ()) (?st (ms_New M))
      = (Ok (), ?st m1)" "log m1 = []" "base m1 = snap_Index (rs_snap R)" "snap m1 = rs_snap R" "hard m1 = emptyHardState" by blast
  have "\<exists>m2. (if \<not> IsEmptyHardState (rs_hard R) then closing A (on_mem (ms_SetHardState M (rs_hard R))) else retS ()) (?st m1) = (Ok (), ?st m2)
      \<and> log m2 = log m1 \<and> base m2 = base m1 \<and> snap m2 = snap m1 \<and> hard m2 = rs_hard R"
    using SetHardState [of "rs_hard R" m1] m1(5) by (cases "IsEmptyHardState (rs_hard R)") (auto simp: closing_def lens_defs retS_def IsEmptyHardState_def)
  then obtain m2 where m2: "(if \<not> IsEmptyHardState (rs_hard R) then closing A (on_mem (ms_SetHardState M (rs_hard R))) else retS ()) (?st m1) = (Ok (), ?st m2)"
      "log m2 = log m1" "base m2 = base m1" "snap m2 = snap m1" "hard m2 = rs_hard R" by blast
  have "\<exists>m3. (if rs_log R \<noteq> [] then closing A (on_mem (ms_Append M (rs_log R))) else retS ()) (?st m2) = (Ok (), ?st m3)
      \<and> in_memory log base snap hard R m3"
  proof (cases "rs_log R")
    case (Cons e es)
    from h have "replay (snap_Index (rs_snap R)) [] (rs_written R) = Some (rs_log R)" by blast
    from replay_from [OF this] Cons have "unat (ent_Index (hd (rs_log R))) = unat (base m2) + 1" using m1 m2 by auto
    with Append [of "rs_log R" m2] Cons m1 m2 show ?thesis by (auto simp: closing_def lens_defs in_memory_def word_less_nat_alt)
  qed (use m1 m2 in \<open>auto simp: retS_def in_memory_def\<close>)
  then obtain m3 where m3: "(if rs_log R \<noteq> [] then closing A (on_mem (ms_Append M (rs_log R))) else retS ()) (?st m2) = (Ok (), ?st m3)"
      "in_memory log base snap hard R m3" by blast
  have "s\<lparr>st_memStorage := Some (ms_New M), st_wal := w'\<rparr> = ?st (ms_New M)" by (cases s) simp
  then have "on_wal (wal_open A) (s\<lparr>st_memStorage := Some (ms_New M)\<rparr>) = (Ok (sn, rs_hard R, rs_log R), ?st (ms_New M))"
    using assms(1) by (simp add: on_wal_def)
  with m1(1) m2(1) m3 show ?thesis unfolding Initialize_def bindS_def by (simp only: prod.case res.case) blast
qed

text \<open>A storage opened on a disk that holds a state.\<close>

lemma restart:
  assumes "holds_state R (view d)" "dur d = view d" "newStorage A baseDir d = (Ok s, d')"
  shows "\<exists>s' m. Initialize A M s = (Ok (), s') \<and> st_memStorage s' = Some m \<and> in_memory log base snap hard R m"
proof -
  from assms(3) obtain w where w: "newWal A baseDir d = (Ok w, d')" "s = \<lparr>st_wal = w, st_memStorage = None\<rparr>"
    by (auto simp: newStorage_def retS_def elim!: bindS_OkE)
  note w' = newWal_done [OF w(1)]
  have "holds_state R (view (wl_disk w))" "dur (wl_disk w) = view (wl_disk w)" "dirs_ok A baseDir w"
    using assms(1,2) w' by (auto simp: dirs_ok_def)
  from wal_open_existing [OF this] obtain x where
    "wal_open A w = (Ok (if IsEmptySnap (rs_snap R) then None else Some (rs_snap R), rs_hard R, rs_log R), x)" by blast
  with w(2) have "wal_open A (st_wal s) = (Ok (if IsEmptySnap (rs_snap R) then None else Some (rs_snap R), rs_hard R, rs_log R), x)"
    by simp
  then have "\<exists>m. Initialize A M s = (Ok (), \<lparr>st_wal = x, st_memStorage = Some m\<rparr>) \<and> in_memory log base snap hard R m"
    using assms(1) by (rule Initialize_loads) simp
  then show ?thesis by auto
qed

lemma first_start:
  assumes "\<not> lv_exists (view d)" "lv_files (view d) = []" "newStorage A baseDir d = (Ok s, d')" "Initialize A M s = (Ok (), s')"
  shows "\<exists>m. appending A baseDir opened (st_wal s') \<and> st_memStorage s' = Some m \<and> in_memory log base snap hard raft_init m
    \<and> holds_state raft_init (view (st_disk s')) \<and> dur (st_disk s') = view (st_disk s')"
proof -
  from assms(3) obtain w where w: "newWal A baseDir d = (Ok w, d')" "s = \<lparr>st_wal = w, st_memStorage = None\<rparr>"
    by (auto simp: newStorage_def retS_def elim!: bindS_OkE)
  note w' = newWal_done [OF w(1)]
  have f: "\<not> lv_exists (view (wl_disk w))" "lv_files (view (wl_disk w)) = []" "dirs_ok A baseDir w"
    using assms(1,2) w' by (auto simp: dirs_ok_def)
  from assms(4) w(2) obtain r x where r: "wal_open A w = (Ok r, x)"
    by (auto simp: Initialize_def on_wal_def elim!: bindS_OkE split: prod.splits)
  note fresh = wal_open_fresh [OF f r]
  then have "wal_open A (st_wal s) = (Ok (Some emptySnapshot, rs_hard raft_init, rs_log raft_init), x)"
    using r w(2) by (simp add: raft_init_def)
  then have "\<exists>m. Initialize A M s = (Ok (), \<lparr>st_wal = x, st_memStorage = Some m\<rparr>) \<and> in_memory log base snap hard raft_init m"
    using fresh(3) by (rule Initialize_loads) (simp add: raft_init_def)
  with assms(4) fresh show ?thesis by auto
qed

text \<open>Taking a snapshot empties the in-memory log.\<close>

lemma CreateSnapshot_mem:
  assumes "st_memStorage s = Some m" "snap_Index (snap m) < index" "storage_CreateSnapshot A M index cs data s = (Ok (), s')"
  shows "\<exists>m'. st_memStorage s' = Some m' \<and> log m' = [] \<and> base m' = index \<and> snap_Index (snap m') = index"
proof -
  obtain t where t: "ms_Term M index m = Ok t" and rest: "(let sn = \<lparr>snap_Data = data, snap_ConfState = cs, snap_Index = index, snap_Term = t\<rparr> in
     bindS (on_wal (wal_SaveSnap A sn)) (\<lambda>_. bindS (apply_unless_old M sn) (\<lambda>_. bindS (on_wal (wal_sync A)) (\<lambda>_.
     bindS (on_wal (wal_Release A index)) (\<lambda>_. compact M index))))) s = (Ok (), s')"
    using assms(1,3) by (auto simp: storage_CreateSnapshot_def read_mem_def non_nil_def liftR_def elim!: bindS_OkE)
  let ?sn = "\<lparr>snap_Data = data, snap_ConfState = cs, snap_Index = index, snap_Term = t\<rparr>"
  from ApplySnapshot [of m ?sn] assms(2) obtain m' where m': "ms_ApplySnapshot M ?sn m = (Ok (), m')" "log m' = []" "base m' = index"
    "snap m' = ?sn" by auto
  have keep: "st_memStorage y = st_memStorage x" if "on_wal f x = (r, y)" for f x r y
    using that by (auto simp: on_wal_def split: prod.splits)
  from rest obtain s1 s2 s3 s4 where s: "on_wal (wal_SaveSnap A ?sn) s = (Ok (), s1)" "apply_unless_old M ?sn s1 = (Ok (), s2)"
    "on_wal (wal_sync A) s2 = (Ok (), s3)" "on_wal (wal_Release A index) s3 = (Ok (), s4)" "compact M index s4 = (Ok (), s')"
    by (auto simp: bindS_Ok_iff Let_def)
  have "st_memStorage s2 = Some m'" using s(2) keep [OF s(1)] assms(1) m'(1) by (auto simp: apply_unless_old_def lens_defs)
  with keep [OF s(3)] keep [OF s(4)] have "st_memStorage s4 = Some m'" by simp
  with s(5) Compact_old [of index m'] m' have "st_memStorage s' = Some m'" by (auto simp: compact_def lens_defs)
  with m' show ?thesis by simp
qed

lemma SaveState_gap:
  assumes "st_memStorage s = Some m" "log m = []" "IsEmptySnap (rd_Snapshot rd)" "rd_Entries rd \<noteq> []"
    and "unat (base m) + 1 < unat (ent_Index (hd (rd_Entries rd)))" "fst (saveStateToWal A rd s) = Ok ()"
  shows "\<exists>p. fst (SaveState A M rd s) = Panicked p"
proof -
  have gap: "\<exists>p. fst (on_mem (ms_Append M (rd_Entries rd)) x) = Panicked p" if "st_memStorage x = Some k" "log k = []" "base k = base m" for x k
    using Append_gap [OF assms(4), of k] assms(5) that by (auto simp: lens_defs)
  obtain s1 where s1: "saveStateToWal A rd s = (Ok (), s1)" using assms(6) by (cases "saveStateToWal A rd s") auto
  have keep: "st_memStorage y = st_memStorage x" if "on_wal f x = (r, y)" for f x y and r :: "unit res"
    using that by (auto simp: on_wal_def split: prod.splits)
  have m1: "st_memStorage s1 = Some m" using s1 assms(1,3)
    by (auto simp: saveStateToWal_def dest!: keep elim!: bindS_OkE)
  have "\<exists>s2 k. (if \<not> IsEmptyHardState (rd_HardState rd) then on_mem (ms_SetHardState M (rd_HardState rd)) else retS ()) s1 = (Ok (), s2)
      \<and> st_memStorage s2 = Some k \<and> log k = [] \<and> base k = base m"
    using SetHardState [of "rd_HardState rd" m] m1 assms(2) by (cases "IsEmptyHardState (rd_HardState rd)") (auto simp: lens_defs retS_def)
  then obtain s2 k where k: "(if \<not> IsEmptyHardState (rd_HardState rd) then on_mem (ms_SetHardState M (rd_HardState rd)) else retS ()) s1 = (Ok (), s2)"
    "st_memStorage s2 = Some k" "log k = []" "base k = base m" by blast
  have "SaveState A M rd s = on_mem (ms_Append M (rd_Entries rd)) s2"
    using s1 assms(3) k(1) by (simp add: SaveState_def bindS_def)
  with gap [OF k(2-)] show ?thesis by simp
qed

end

interpretation js: raft_storage journal_api baseDir j_view j_durable j_crash "\<lambda>h j. j_start j = None" "\<lambda>h m j. j_start j = Some m"
    list_memory lm_log lm_base lm_snap lm_hard
  for baseDir
  by unfold_locales

section \<open>Properties\<close>





text \<open>C34: a snapshot taken behind the end of the log breaks the log. \<^verbatim>\<open>CreateSnapshot\<close> hands the new snapshot to
  \<^verbatim>\<open>MemoryStorage.ApplySnapshot\<close>, which drops every entry held in memory, those above the snapshot's index included. When
  Raft then persists the entries that follow the log it had, appending them panics.\<close>

theorem snapshot_discards_log:
  assumes "raft_storage A baseDir view dur crash opened reading M log base snap hard"
    and "st_memStorage s = Some m" "snap_Index (snap m) < index" "unat index < unat (base m) + length (log m)"
    and "storage_CreateSnapshot A M index cs data s = (Ok (), s')"
    and "IsEmptySnap (rd_Snapshot rd)" "rd_Entries rd \<noteq> []" "unat (ent_Index (hd (rd_Entries rd))) = unat (base m) + length (log m) + 1"
  shows "(\<exists>m'. st_memStorage s' = Some m' \<and> log m' = [] \<and> snap_Index (snap m') = index)
    \<and> (fst (saveStateToWal A rd s') = Ok () \<longrightarrow> (\<exists>p. fst (SaveState A M rd s') = Panicked p))"
proof -
  from raft_storage.CreateSnapshot_mem [OF assms(1,2,3,5)] obtain m' where
    m': "st_memStorage s' = Some m'" "log m' = []" "base m' = index" "snap_Index (snap m') = index" by blast
  with raft_storage.SaveState_gap [OF assms(1) m'(1,2) assms(6,7)] assms(4,8) show ?thesis by auto
qed

text \<open>A log of two entries of which one is applied.\<close>

theorem snapshot_discards_log_witness:
  "\<exists>p. fst (SaveState journal_api list_memory (demo_ready [demo_entry 1 3] 0 1 2)
     (snd (storage_CreateSnapshot journal_api list_memory 1 emptyConfState [9]
        (snd (SaveState journal_api list_memory (demo_ready [demo_entry 1 1, demo_entry 1 2] 0 1 2) demo_first))))) = Panicked p"
proof -
  let ?s = "snd (SaveState journal_api list_memory (demo_ready [demo_entry 1 1, demo_entry 1 2] 0 1 2) demo_first)"
  let ?s' = "snd (storage_CreateSnapshot journal_api list_memory 1 emptyConfState [9] ?s)"
  let ?rd = "demo_ready [demo_entry 1 3] 0 1 2"
  let ?m = "\<lparr>lm_base = 0, lm_term = 0, lm_log = [demo_entry 1 1, demo_entry 1 2], lm_snap = emptySnapshot,
    lm_hard = \<lparr>hs_Term = 1, hs_Vote = 1, hs_Commit = 2\<rparr>\<rparr>"
  have m: "st_memStorage ?s = Some ?m" and c: "storage_CreateSnapshot journal_api list_memory 1 emptyConfState [9] ?s = (Ok (), ?s')"
    and w: "fst (saveStateToWal journal_api ?rd ?s') = Ok ()" and r: "IsEmptySnap (rd_Snapshot ?rd)" "rd_Entries ?rd \<noteq> []"
    and u: "unat (ent_Index (hd (rd_Entries ?rd))) = unat (lm_base ?m) + length (lm_log ?m) + 1"
    and l: "snap_Index (lm_snap ?m) < 1" "unat (1 :: u64) < unat (lm_base ?m) + length (lm_log ?m)"
    by code_simp+
  from snapshot_discards_log [OF js.raft_storage_axioms m l c r u] w show ?thesis by blast
qed

end
