(* ===== verification/Transport.thy ===== *)
theory Transport
  imports Raft_Types "HOL-Library.AList"
begin

text \<open>
  \<^verbatim>\<open>transport.go\<close> and the peer table of the vendored \<^verbatim>\<open>rafthttp.Transport\<close> it drives. The connections,
  their statistics and probes are not modelled: handing a message to a peer appends it to \<open>rh_sent\<close>.
  Parsing of addresses (\<^verbatim>\<open>types.NewURLs\<close>, \<^verbatim>\<open>url.Parse\<close>) is a parameter.
\<close>

section \<open>The peer table of rafthttp\<close>

text \<open>A nil map is \<^const>\<open>None\<close>. Maps are association lists; their order is the order of a Go \<^verbatim>\<open>range\<close>
  over them.\<close>

record rafthttp =
  rh_peers :: "(u64 \<times> string list) list option"
  rh_remotes :: "(u64 \<times> string list) list option"
  rh_sent :: "Message list"

definition rh_Start :: "error option \<Rightarrow> (rafthttp, unit) call" where
  "rh_Start rtErr t =
     (case rtErr of
        Some e \<Rightarrow> (Err e, t)
      | None \<Rightarrow> (Ok (), t\<lparr>rh_remotes := Some [], rh_peers := Some []\<rparr>))"

text \<open>A lookup in a nil map finds nothing.\<close>

definition map_get :: "('k \<times> 'v) list option \<Rightarrow> 'k \<Rightarrow> 'v option" where
  "map_get m k = Option.bind m (\<lambda>kvs. map_of kvs k)"

fun rh_Send :: "Message list \<Rightarrow> rafthttp \<Rightarrow> rafthttp" where
  "rh_Send [] t = t"
| "rh_Send (m # msgs) t =
     (if msg_To m = 0 then rh_Send msgs t
      else if map_get (rh_peers t) (msg_To m) \<noteq> None then rh_Send msgs (t\<lparr>rh_sent := rh_sent t @ [m]\<rparr>)
      else if map_get (rh_remotes t) (msg_To m) \<noteq> None then rh_Send msgs (t\<lparr>rh_sent := rh_sent t @ [m]\<rparr>)
      else rh_Send msgs t)"

text \<open>\<^verbatim>\<open>NewURLs\<close> failing with a nil \<^verbatim>\<open>Logger\<close>, which is how the program leaves it, is ignored: the peer then
  has no address.\<close>

definition urls_of :: "(string list \<Rightarrow> string list res) \<Rightarrow> string list \<Rightarrow> string list" where
  "urls_of newURLs us = (case newURLs us of Ok urls \<Rightarrow> urls | _ \<Rightarrow> [])"

definition rh_AddPeer :: "(string list \<Rightarrow> string list res) \<Rightarrow> u64 \<Rightarrow> string list \<Rightarrow> (rafthttp, unit) call" where
  "rh_AddPeer newURLs i us t =
     (case rh_peers t of
        None \<Rightarrow> (Panicked ''transport stopped'', t)
      | Some ps \<Rightarrow>
          if map_of ps i \<noteq> None then (Ok (), t)
          else (Ok (), t\<lparr>rh_peers := Some (AList.update i (urls_of newURLs us) ps)\<rparr>))"

definition rh_RemovePeer :: "u64 \<Rightarrow> rafthttp \<Rightarrow> rafthttp" where
  "rh_RemovePeer i t =
     (if map_get (rh_peers t) i \<noteq> None then t\<lparr>rh_peers := map_option (AList.delete i) (rh_peers t)\<rparr> else t)"

definition rh_UpdatePeer :: "(string list \<Rightarrow> string list res) \<Rightarrow> u64 \<Rightarrow> string list \<Rightarrow> rafthttp \<Rightarrow> rafthttp" where
  "rh_UpdatePeer newURLs i us t =
     (if map_get (rh_peers t) i = None then t
      else t\<lparr>rh_peers := map_option (AList.update i (urls_of newURLs us)) (rh_peers t)\<rparr>)"

definition rh_Stop :: "rafthttp \<Rightarrow> rafthttp" where
  "rh_Stop t = t\<lparr>rh_peers := None, rh_remotes := None\<rparr>"

section \<open>The transport of a node\<close>

text \<open>\<^verbatim>\<open>server\<close> is the address it listens on.\<close>

record Transport =
  tr_id :: u64
  tr_raftTr :: rafthttp
  tr_server :: "string option"
  tr_peers :: "(u64 \<times> string) list"

definition NewTransport :: "u64 \<Rightarrow> (u64 \<times> string) list \<Rightarrow> Transport" where
  "NewTransport i peers =
     \<lparr>tr_id = i, tr_raftTr = \<lparr>rh_peers = None, rh_remotes = None, rh_sent = []\<rparr>, tr_server = None, tr_peers = peers\<rparr>"

fun addPeers :: "(string list \<Rightarrow> string list res) \<Rightarrow> u64 \<Rightarrow> (u64 \<times> string) list \<Rightarrow> (rafthttp, unit) call" where
  "addPeers newURLs self [] = retS ()"
| "addPeers newURLs self ((i, addr) # ps) =
     (if i \<noteq> self then bindS (rh_AddPeer newURLs i [addr]) (\<lambda>_. addPeers newURLs self ps)
      else addPeers newURLs self ps)"

text \<open>\<^verbatim>\<open>Start\<close> runs before the ready loop, the only receiver of the unbuffered \<^verbatim>\<open>errChan\<close>: a send on it blocks
  for good, and the result is \<^const>\<open>None\<close>.\<close>

definition transport_Start ::
    "(string list \<Rightarrow> string list res) \<Rightarrow> (string \<Rightarrow> string res) \<Rightarrow> error option \<Rightarrow> Transport
     \<Rightarrow> (unit res \<times> Transport) option" where
  "transport_Start newURLs urlParse rtErr tr =
     (case rh_Start rtErr (tr_raftTr tr) of
        (Ok _, rt) \<Rightarrow>
          (case map_of (tr_peers tr) (tr_id tr) of
             None \<Rightarrow> None
           | Some addr \<Rightarrow>
               (case urlParse addr of
                  Ok host \<Rightarrow>
                    (case addPeers newURLs (tr_id tr) (tr_peers tr) rt of
                       (Ok _, rt') \<Rightarrow> Some (Ok (), tr\<lparr>tr_raftTr := rt', tr_server := Some host\<rparr>)
                     | (Err e, rt') \<Rightarrow> Some (Err e, tr\<lparr>tr_raftTr := rt'\<rparr>)
                     | (Panicked p, rt') \<Rightarrow> Some (Panicked p, tr\<lparr>tr_raftTr := rt'\<rparr>))
                | _ \<Rightarrow> None))
      | _ \<Rightarrow> None)"

definition transport_Send :: "Message list \<Rightarrow> Transport \<Rightarrow> Transport" where
  "transport_Send messages tr = tr\<lparr>tr_raftTr := rh_Send messages (tr_raftTr tr)\<rparr>"

definition AddPeer :: "(string list \<Rightarrow> string list res) \<Rightarrow> u64 \<Rightarrow> string \<Rightarrow> (Transport, unit) call" where
  "AddPeer newURLs i addr tr =
     (case rh_AddPeer newURLs i [addr] (tr_raftTr tr) of
        (Ok _, rt) \<Rightarrow> (Ok (), tr\<lparr>tr_raftTr := rt, tr_peers := AList.update i addr (tr_peers tr)\<rparr>)
      | (Err e, rt) \<Rightarrow> (Err e, tr\<lparr>tr_raftTr := rt\<rparr>)
      | (Panicked p, rt) \<Rightarrow> (Panicked p, tr\<lparr>tr_raftTr := rt\<rparr>))"

definition RemovePeer :: "u64 \<Rightarrow> Transport \<Rightarrow> Transport" where
  "RemovePeer i tr = tr\<lparr>tr_raftTr := rh_RemovePeer i (tr_raftTr tr), tr_peers := AList.delete i (tr_peers tr)\<rparr>"

definition UpdatePeer :: "(string list \<Rightarrow> string list res) \<Rightarrow> u64 \<Rightarrow> string \<Rightarrow> Transport \<Rightarrow> Transport" where
  "UpdatePeer newURLs i addr tr =
     tr\<lparr>tr_raftTr := rh_UpdatePeer newURLs i [addr] (tr_raftTr tr), tr_peers := AList.update i addr (tr_peers tr)\<rparr>"

text \<open>The outcome of \<^verbatim>\<open>server.Shutdown\<close> is an argument.\<close>

definition transport_Stop :: "error option \<Rightarrow> (Transport, unit) call" where
  "transport_Stop shutdownErr tr =
     (let tr' = tr\<lparr>tr_raftTr := rh_Stop (tr_raftTr tr)\<rparr> in
      if tr_server tr \<noteq> None then
        (case shutdownErr of Some e \<Rightarrow> (Err e, tr') | None \<Rightarrow> (Ok (), tr'))
      else (Ok (), tr'))"

section \<open>Membership changes\<close>

text \<open>The calls that change the membership of a started transport, as the ready loop makes them: a new
  peer is added under a fresh id, an address is updated for a known one.\<close>

datatype membership = Add u64 string | Remove u64 | Update u64 string

fun member_ok :: "Transport \<Rightarrow> membership \<Rightarrow> bool" where
  "member_ok tr (Add i a) \<longleftrightarrow> i \<noteq> tr_id tr \<and> map_of (tr_peers tr) i = None"
| "member_ok tr (Remove i) \<longleftrightarrow> i \<noteq> tr_id tr"
| "member_ok tr (Update i a) \<longleftrightarrow> map_of (tr_peers tr) i \<noteq> None"

fun member_do :: "(string list \<Rightarrow> string list res) \<Rightarrow> membership \<Rightarrow> (Transport, unit) call" where
  "member_do newURLs (Add i a) tr = AddPeer newURLs i a tr"
| "member_do newURLs (Remove i) tr = (Ok (), RemovePeer i tr)"
| "member_do newURLs (Update i a) tr = (Ok (), UpdatePeer newURLs i a tr)"

fun members_do :: "(string list \<Rightarrow> string list res) \<Rightarrow> membership list \<Rightarrow> (Transport, unit) call" where
  "members_do newURLs [] = retS ()"
| "members_do newURLs (c # cs) = bindS (member_do newURLs c) (\<lambda>_. members_do newURLs cs)"

fun members_ok :: "(string list \<Rightarrow> string list res) \<Rightarrow> membership list \<Rightarrow> Transport \<Rightarrow> bool" where
  "members_ok newURLs [] tr \<longleftrightarrow> True"
| "members_ok newURLs (c # cs) tr \<longleftrightarrow>
     member_ok tr c \<and> members_ok newURLs cs (snd (member_do newURLs c tr))"

text \<open>The address book and the peer table agree on every other member.\<close>

definition peers_agree :: "(string list \<Rightarrow> string list res) \<Rightarrow> Transport \<Rightarrow> bool" where
  "peers_agree newURLs tr \<longleftrightarrow>
     (\<exists>ps. rh_peers (tr_raftTr tr) = Some ps \<and>
        (\<forall>i. map_of ps i = (if i = tr_id tr then None
            else map_option (\<lambda>a. urls_of newURLs [a]) (map_of (tr_peers tr) i))))"

definition demo_urls :: "string list \<Rightarrow> string list res" where
  "demo_urls us = Ok us"

definition demo_transport :: Transport where
  "demo_transport = NewTransport 1 [(1, ''a''), (2, ''b'')]"

section \<open>Lemmas\<close>

lemmas member_defs = AddPeer_def RemovePeer_def UpdatePeer_def rh_AddPeer_def rh_RemovePeer_def rh_UpdatePeer_def

lemma map_of_update' [simp]: "map_of (AList.update k v al) i = (if i = k then Some v else map_of al i)"
  by (simp add: update_conv')

lemma map_of_delete' [simp]: "map_of (AList.delete k al) i = (if i = k then None else map_of al i)"
  by (simp add: delete_conv')

lemma addPeers_table:
  assumes "rh_peers rt = Some ps" and "distinct (map fst peers)"
    and "\<And>i. i \<in> fst ` set peers \<Longrightarrow> map_of ps i = None"
  shows "\<exists>rt' ps'. addPeers newURLs self peers rt = (Ok (), rt') \<and> rh_peers rt' = Some ps' \<and>
    (\<forall>i. map_of ps' i = (if i = self then map_of ps i
       else case map_of peers i of Some a \<Rightarrow> Some (urls_of newURLs [a]) | None \<Rightarrow> map_of ps i))"
  using assms
proof (induction peers arbitrary: rt ps)
  case Nil
  then show ?case by (auto simp: call_simps)
next
  case (Cons p peers)
  obtain j a where p: "p = (j, a)" by (cases p)
  let ?ps = "if j = self then ps else AList.update j (urls_of newURLs [a]) ps"
  let ?rt = "if j = self then rt else rt\<lparr>rh_peers := Some ?ps\<rparr>"
  have step: "addPeers newURLs self (p # peers) rt = addPeers newURLs self peers ?rt"
    using Cons.prems by (auto simp: p call_simps rh_AddPeer_def)
  have "\<And>i. i \<in> fst ` set peers \<Longrightarrow> map_of ?ps i = None"
    using Cons.prems by (auto simp: p)
  moreover have "rh_peers ?rt = Some ?ps" using Cons.prems(1) by simp
  moreover have "distinct (map fst peers)" using Cons.prems(2) by (simp add: p)
  ultimately obtain rt' ps' where
    r: "addPeers newURLs self peers ?rt = (Ok (), rt')" "rh_peers rt' = Some ps'"
    "\<forall>i. map_of ps' i = (if i = self then map_of ?ps i
       else case map_of peers i of Some a \<Rightarrow> Some (urls_of newURLs [a]) | None \<Rightarrow> map_of ?ps i)"
    using Cons.IH [of ?rt ?ps] by meson
  have "j \<notin> fst ` set peers" using Cons.prems(2) by (auto simp: p)
  then have "map_of peers j = None" by (simp add: map_of_eq_None_iff)
  with r(3) have "map_of ps' i = (if i = self then map_of ps i
       else case map_of (p # peers) i of Some a \<Rightarrow> Some (urls_of newURLs [a]) | None \<Rightarrow> map_of ps i)" for i
    by (auto simp: p cong: option.case_cong)
  with r(1,2) step show ?case by auto
qed

lemma Start_agrees:
  assumes "distinct (map fst (tr_peers tr))" and "map_of (tr_peers tr) (tr_id tr) = Some addr"
    and "urlParse addr = Ok host"
  shows "\<exists>tr'. transport_Start newURLs urlParse None tr = Some (Ok (), tr') \<and> peers_agree newURLs tr'
    \<and> tr_id tr' = tr_id tr \<and> tr_peers tr' = tr_peers tr"
proof -
  let ?rt = "tr_raftTr tr\<lparr>rh_remotes := Some [], rh_peers := Some []\<rparr>"
  obtain rt' ps' where r: "addPeers newURLs (tr_id tr) (tr_peers tr) ?rt = (Ok (), rt')" "rh_peers rt' = Some ps'"
    "\<forall>i. map_of ps' i = (if i = tr_id tr then None
       else case map_of (tr_peers tr) i of Some a \<Rightarrow> Some (urls_of newURLs [a]) | None \<Rightarrow> None)"
    using addPeers_table [of ?rt "[]" "tr_peers tr" newURLs "tr_id tr"] assms(1)
    by (auto cong: option.case_cong if_cong)
  then show ?thesis
    using assms(2,3) by (auto simp: transport_Start_def rh_Start_def peers_agree_def split: option.splits)
qed

lemma member_do_agrees:
  assumes "peers_agree newURLs tr" and "member_ok tr c"
  shows "\<exists>tr'. member_do newURLs c tr = (Ok (), tr') \<and> peers_agree newURLs tr' \<and> tr_id tr' = tr_id tr"
proof -
  from assms(1) obtain ps where ps: "rh_peers (tr_raftTr tr) = Some ps"
    "\<And>i. map_of ps i = (if i = tr_id tr then None
       else map_option (\<lambda>a. urls_of newURLs [a]) (map_of (tr_peers tr) i))"
    by (auto simp: peers_agree_def)
  show ?thesis
    using assms(2) by (cases c) (auto simp: peers_agree_def member_defs map_get_def ps split: if_splits)
qed

lemma members_do_agrees:
  "peers_agree newURLs tr \<Longrightarrow> members_ok newURLs cs tr \<Longrightarrow>
     \<exists>tr'. members_do newURLs cs tr = (Ok (), tr') \<and> peers_agree newURLs tr' \<and> tr_id tr' = tr_id tr"
proof (induction cs arbitrary: tr)
  case (Cons c cs)
  then obtain tr1 where "member_do newURLs c tr = (Ok (), tr1)" "peers_agree newURLs tr1" "tr_id tr1 = tr_id tr"
    using member_do_agrees [of newURLs tr c] by auto
  with Cons show ?case by (force simp: call_simps)
qed (simp add: call_simps)

lemma Send_filter:
  assumes "rh_peers t = Some ps" and "rh_remotes t = Some []"
  shows "rh_Send msgs t = t\<lparr>rh_sent := rh_sent t @ filter (\<lambda>m. msg_To m \<noteq> 0 \<and> map_of ps (msg_To m) \<noteq> None) msgs\<rparr>"
  using assms by (induction msgs arbitrary: t) (auto simp: map_get_def)

section \<open>Properties\<close>

text \<open>C35: the peers that receive messages are the members of the address book. After a start with distinct
  ids, and after any sequence of membership changes that adds fresh ids, updates known ones and never
  names the node itself, the peer table of rafthttp holds exactly the other members with the addresses
  of the book.\<close>

theorem transport_peers_agree:
  assumes "distinct (map fst (tr_peers tr))" and "map_of (tr_peers tr) (tr_id tr) = Some addr"
    and "urlParse addr = Ok host" and "transport_Start newURLs urlParse None tr = Some (r, tr1)"
    and "members_ok newURLs cs tr1"
  shows "\<exists>tr2. members_do newURLs cs tr1 = (Ok (), tr2) \<and> peers_agree newURLs tr2"
proof -
  have "peers_agree newURLs tr1" using Start_agrees [of tr addr urlParse host newURLs] assms(1-4) by auto
  from members_do_agrees [OF this assms(5)] show ?thesis by auto
qed

theorem transport_peers_agree_witness:
  "\<exists>tr1 tr2. transport_Start demo_urls (\<lambda>a. Ok a) None demo_transport = Some (Ok (), tr1)
     \<and> members_do demo_urls [Add 3 ''c'', Update 2 ''B'', Remove 2] tr1 = (Ok (), tr2)
     \<and> tr_peers tr2 = [(1, ''a''), (3, ''c'')] \<and> peers_agree demo_urls tr2"
proof -
  let ?cs = "[Add 3 ''c'', Update 2 ''B'', Remove 2]"
  obtain tr1 where s: "transport_Start demo_urls (\<lambda>a. Ok a) None demo_transport = Some (Ok (), tr1)"
    and p: "tr_peers tr1 = [(1, ''a''), (2, ''b'')]" "tr_id tr1 = 1"
    using Start_agrees [of demo_transport "''a''" "\<lambda>a. Ok a" "''a''" demo_urls]
    by (auto simp: demo_transport_def NewTransport_def)
  have "rh_peers (tr_raftTr tr1) = Some [(2, [''b''])]"
    using s by (auto simp: transport_Start_def rh_Start_def demo_transport_def NewTransport_def call_simps
        rh_AddPeer_def urls_of_def demo_urls_def)
  then have m: "members_ok demo_urls ?cs tr1" and t: "\<exists>tr2. members_do demo_urls ?cs tr1 = (Ok (), tr2) \<and> tr_peers tr2 = [(1, ''a''), (3, ''c'')]"
    using p by (simp_all add: member_defs call_simps map_get_def)
  show ?thesis
    using transport_peers_agree [OF _ _ _ s m] s t by (auto simp: demo_transport_def NewTransport_def)
qed

end
