(* ===== verification/Config.thy ===== *)
theory Config
  imports Types
begin

text \<open>
  \<^verbatim>\<open>config.go\<close>: the configuration of a store, its validation and the defaults it fills in. The options of
  BadgerDB and the fields of \<^verbatim>\<open>raft.Config\<close> are held as far as the program reads or sets them. Loggers are the
  module names they are created with. \<open>cf_GCDiscardRatio\<close> is the bit pattern of a \<^verbatim>\<open>float64\<close>, which is
  only passed on; \<open>cf_GCInterval\<close> is in nanoseconds. The hooks of the application are not part of the record.
\<close>

section \<open>Data\<close>

datatype SchemaType = SchemaTypeJson | SchemaTypeProtobuf | SchemaTypeOther string

text \<open>The application's view of the cluster.\<close>

record Cluster =
  cl_GetID :: u64
  cl_GetName :: string
  cl_IsNodeRemoved :: "u64 \<Rightarrow> bool"

record RaftConfig =
  rc_ID :: u64
  rc_ElectionTick :: u64
  rc_HeartbeatTick :: u64
  rc_Nodename :: string
  rc_Peers :: "(u64 \<times> string) list"

record 'set SchemaConfig =
  sc_Type :: SchemaType
  sc_ProtoSchemaList :: "'set list"

record BadgerOptions =
  bo_Dir :: string
  bo_ValueDir :: string
  bo_InMemory :: bool
  bo_Logger :: "string option"

record 'set Config =
  cf_Name :: string
  cf_BaseDir :: string
  cf_Logger :: "string option"
  cf_GCInterval :: int
  cf_GCDiscardRatio :: u64
  cf_BadgerOptions :: BadgerOptions
  cf_RaftConfig :: "RaftConfig option"
  cf_Cluster :: "Cluster option"
  cf_SchemaConfig :: "'set SchemaConfig option"

section \<open>Operations\<close>

definition DBSubDir :: string where
  "DBSubDir = ''db''"

text \<open>\<^verbatim>\<open>validate\<close> works on the configuration it is called on and on the process-wide descriptor store. It
  checks, then fills in defaults; \<open>with_defaults\<close> is the part after the checks.\<close>

definition with_defaults :: "'set Config \<Rightarrow> 'set Config" where
  "with_defaults cfg =
     (let cfg = (if cf_Name cfg = '''' then cfg\<lparr>cf_Name := ''omashu''\<rparr> else cfg);
        opts = (cf_BadgerOptions cfg)\<lparr>bo_Dir := cf_BaseDir cfg @ ''/'' @ DBSubDir\<rparr>;
        cfg = (case cf_Logger cfg of
            None \<Rightarrow> cfg\<lparr>cf_BadgerOptions := opts\<lparr>bo_Logger := None\<rparr>, cf_Logger := Some ''nop''\<rparr>
          | Some l \<Rightarrow> cfg\<lparr>cf_BadgerOptions := opts\<lparr>bo_Logger := Some (cf_Name cfg @ ''.badger'')\<rparr>\<rparr>) in
      if bo_InMemory (cf_BadgerOptions cfg) then cfg\<lparr>cf_BaseDir := ''''\<rparr> else cfg)"

definition cfg_validate :: "bool \<Rightarrow> ('set Config \<times> 'set desc_store, unit) call" where
  "cfg_validate distributed st =
     (let (cfg, store) = st in
      if cf_Cluster cfg = None then (Err ErrMissingCluster, st)
      else if cf_BaseDir cfg = '''' then (Err ErrMissingBaseDir, st)
      else case cf_SchemaConfig cfg of
        None \<Rightarrow> (Err ErrMissingSchemaConfig, st)
      | Some sc \<Rightarrow>
          if sc_Type sc = SchemaTypeProtobuf \<and> sc_ProtoSchemaList sc = [] then (Err ErrMissingSchemaConfig, st)
          else
            let store = (if sc_Type sc = SchemaTypeProtobuf then NewProtoDescriptorStore (sc_ProtoSchemaList sc) store else store) in
            if distributed \<and> cf_RaftConfig cfg = None then (Err ErrMissingRaftConf, (cfg, store))
            else (Ok (), (with_defaults cfg, store)))"

text \<open>Durations are 64-bit numbers of nanoseconds; the products wrap around.\<close>

definition time_Second :: u64 where
  "time_Second = 1000000000"

definition time_Millisecond :: u64 where
  "time_Millisecond = 1000000"

definition PeerDialTimeout :: "'set Config \<Rightarrow> u64 res" where
  "PeerDialTimeout c =
     (case cf_RaftConfig c of
        None \<Rightarrow> Panicked ''RaftConfig is required for distributed mode''
      | Some rc \<Rightarrow> Ok (time_Second + rc_ElectionTick rc * rc_HeartbeatTick rc * time_Millisecond))"

section \<open>Well-formedness\<close>

text \<open>What the rest of the program takes for granted of a configuration.\<close>

definition cfg_wf :: "bool \<Rightarrow> 'set Config \<times> 'set desc_store \<Rightarrow> bool" where
  "cfg_wf distributed st \<longleftrightarrow>
     (let (cfg, store) = st in
      cf_Cluster cfg \<noteq> None \<and> cf_Name cfg \<noteq> '''' \<and> cf_Logger cfg \<noteq> None \<and> bo_Dir (cf_BadgerOptions cfg) \<noteq> ''''
      \<and> (distributed \<longrightarrow> is_Ok (PeerDialTimeout cfg))
      \<and> (\<exists>sc. cf_SchemaConfig cfg = Some sc \<and> (sc_Type sc = SchemaTypeProtobuf \<longrightarrow> store \<noteq> None)))"

definition demo_config :: "string Config" where
  "demo_config = \<lparr>cf_Name = '''', cf_BaseDir = ''/data'', cf_Logger = None, cf_GCInterval = 0, cf_GCDiscardRatio = 0,
     cf_BadgerOptions = \<lparr>bo_Dir = '''', bo_ValueDir = '''', bo_InMemory = True, bo_Logger = Some ''default''\<rparr>,
     cf_RaftConfig = Some \<lparr>rc_ID = 1, rc_ElectionTick = 10, rc_HeartbeatTick = 1, rc_Nodename = ''n1'', rc_Peers = [(1, ''http://a'')]\<rparr>,
     cf_Cluster = Some \<lparr>cl_GetID = 7, cl_GetName = ''c'', cl_IsNodeRemoved = (\<lambda>_. False)\<rparr>,
     cf_SchemaConfig = Some \<lparr>sc_Type = SchemaTypeProtobuf, sc_ProtoSchemaList = [''m.proto'']\<rparr>\<rparr>"

section \<open>Lemmas\<close>

lemma with_defaults_keeps [simp]:
  "cf_Cluster (with_defaults cfg) = cf_Cluster cfg" "cf_SchemaConfig (with_defaults cfg) = cf_SchemaConfig cfg"
  "cf_RaftConfig (with_defaults cfg) = cf_RaftConfig cfg"
  "bo_InMemory (cf_BadgerOptions (with_defaults cfg)) = bo_InMemory (cf_BadgerOptions cfg)"
  by (simp_all add: with_defaults_def Let_def split: option.split)

lemma with_defaults_sets [simp]:
  "cf_Name (with_defaults cfg) \<noteq> []" "\<exists>l. cf_Logger (with_defaults cfg) = Some l"
  "bo_Dir (cf_BadgerOptions (with_defaults cfg)) = cf_BaseDir cfg @ ''/db''"
  "cf_BaseDir (with_defaults cfg) = (if bo_InMemory (cf_BadgerOptions cfg) then [] else cf_BaseDir cfg)"
  by (simp_all add: with_defaults_def Let_def DBSubDir_def split: option.split)

text \<open>The checks alone.\<close>

lemma cfg_validate_Ok_iff:
  "cfg_validate distributed (cfg, store) = (Ok (), st') \<longleftrightarrow>
     cf_Cluster cfg \<noteq> None \<and> cf_BaseDir cfg \<noteq> [] \<and> (distributed \<longrightarrow> cf_RaftConfig cfg \<noteq> None)
     \<and> (\<exists>sc. cf_SchemaConfig cfg = Some sc \<and> (sc_Type sc = SchemaTypeProtobuf \<longrightarrow> sc_ProtoSchemaList sc \<noteq> [])
        \<and> st' = (with_defaults cfg, if sc_Type sc = SchemaTypeProtobuf then NewProtoDescriptorStore (sc_ProtoSchemaList sc) store else store))"
  by (cases "cf_SchemaConfig cfg") (auto simp: cfg_validate_def Let_def)

lemma cfg_validate_error: "cfg_validate distributed (cfg, store) = (r, st') \<Longrightarrow> r \<noteq> Ok () \<Longrightarrow> fst st' = cfg"
  by (cases "cf_SchemaConfig cfg") (auto simp: cfg_validate_def Let_def split: if_splits)

lemma cfg_validate_in_memory: "cf_Cluster cfg \<noteq> None \<Longrightarrow> cf_BaseDir cfg = [] \<Longrightarrow> fst (cfg_validate distributed (cfg, store)) = Err ErrMissingBaseDir"
  by (simp add: cfg_validate_def)

section \<open>Properties\<close>

text \<open>C36: a validated configuration is complete. When \<^verbatim>\<open>validate\<close> returns nil, the name, the logger, the database
  directory and the cluster are set, the schema is usable (in Protobuf mode the descriptor store exists), and in
  distributed mode \<^verbatim>\<open>PeerDialTimeout\<close> does not panic. When it returns an error the configuration is unchanged. Validating
  again succeeds, unless the database is in memory: then the base directory was cleared and the second
  validation fails.\<close>

theorem validated_config_wf:
  assumes "cfg_validate distributed st = (r, st')"
  shows "(r = Ok () \<longrightarrow> cfg_wf distributed st'
      \<and> bo_Dir (cf_BadgerOptions (fst st')) = cf_BaseDir (fst st) @ ''/db''
      \<and> fst (cfg_validate distributed st') =
          (if bo_InMemory (cf_BadgerOptions (fst st)) then Err ErrMissingBaseDir else Ok ()))
    \<and> (r \<noteq> Ok () \<longrightarrow> fst st' = fst st)"
proof (cases "r = Ok ()")
  case True
  obtain cfg store where st: "st = (cfg, store)" by fastforce
  from assms True st obtain sc where ok: "cf_Cluster cfg \<noteq> None" "cf_BaseDir cfg \<noteq> []" "distributed \<longrightarrow> cf_RaftConfig cfg \<noteq> None"
    "cf_SchemaConfig cfg = Some sc" "sc_Type sc = SchemaTypeProtobuf \<longrightarrow> sc_ProtoSchemaList sc \<noteq> []"
    "st' = (with_defaults cfg, if sc_Type sc = SchemaTypeProtobuf then NewProtoDescriptorStore (sc_ProtoSchemaList sc) store else store)"
    by (auto simp: cfg_validate_Ok_iff)
  have "cfg_wf distributed st'" unfolding ok(6) using ok(1,3,4)
    by (auto simp: cfg_wf_def PeerDialTimeout_def NewProtoDescriptorStore_def split: option.split)
  moreover have "fst (cfg_validate distributed st') = (if bo_InMemory (cf_BadgerOptions cfg) then Err ErrMissingBaseDir else Ok ())"
  proof (cases "bo_InMemory (cf_BadgerOptions cfg)")
    case False
    with ok have "\<exists>x. cfg_validate distributed st' = (Ok (), x)" unfolding ok(6) by (simp only: cfg_validate_Ok_iff) simp
    with False show ?thesis by auto
  qed (use ok(1) in \<open>simp add: ok(6) cfg_validate_in_memory\<close>)
  ultimately show ?thesis using True st ok(6) by simp
next
  case False
  obtain cfg store where st: "st = (cfg, store)" by fastforce
  with cfg_validate_error [of distributed cfg store r st'] False assms show ?thesis by simp
qed

theorem validated_config_wf_witness:
  "\<exists>st'. cfg_validate True (demo_config, None) = (Ok (), st') \<and> cfg_wf True st' \<and> bo_Dir (cf_BadgerOptions (fst st')) = ''/data/db''
     \<and> fst (cfg_validate True st') = Err ErrMissingBaseDir"
proof -
  obtain r st' where v: "cfg_validate True (demo_config, None) = (r, st')" by (cases "cfg_validate True (demo_config, None)")
  then have "r = Ok ()" by (auto simp: cfg_validate_def demo_config_def Let_def)
  with validated_config_wf [OF v] v show ?thesis by (auto simp: demo_config_def)
qed

end
