(* ===== verification/Node.thy ===== *)
theory Node
  imports Storage Transport Config
begin

text \<open>
  \<^verbatim>\<open>node.go\<close>: a member of the Raft cluster. The ready loop persists what Raft hands out, sends its messages and
  applies committed entries to the state machine; the propose loop feeds proposals to Raft; snapshots are taken in
  the background. \<^verbatim>\<open>raft.Node\<close> is the parameter \<open>raft_node\<close>. The state machine is the interface \<open>fsm_api\<close>, which
  \<open>fsm.go\<close> implements. Buffered channels are the lists of the values in them; a send into a full channel, and a send on an
  unbuffered channel without a receiver, do not return.
\<close>

section \<open>Interfaces\<close>

record 'd fsm_api =
  fa_Apply :: "bytes \<Rightarrow> ('d, unit) call"
  fa_RestoreSnapshot :: "bytes \<Rightarrow> ('d, unit) call"
  fa_CreateSnapshot :: "'d \<Rightarrow> (u64 \<times> bytes) res"

text \<open>\<open>n_Lead\<close> is \<^verbatim>\<open>Status().Lead\<close>.\<close>

record ('r, 'ms, 'w, 'h) raft_node =
  n_StartNode :: "RaftConfig \<Rightarrow> u64 list \<Rightarrow> ('ms, 'w, 'h) Storage \<Rightarrow> 'r"
  n_RestartNode :: "RaftConfig \<Rightarrow> ('ms, 'w, 'h) Storage \<Rightarrow> 'r"
  n_Tick :: "'r \<Rightarrow> 'r"
  n_Propose :: "bytes \<Rightarrow> ('r, unit) call"
  n_ProposeConfChange :: "ConfChange \<Rightarrow> ('r, unit) call"
  n_ApplyConfChange :: "ConfChange \<Rightarrow> 'r \<Rightarrow> ConfState \<times> 'r"
  n_ReadIndex :: "bytes \<Rightarrow> ('r, unit) call"
  n_Step :: "Message \<Rightarrow> ('r, unit) call"
  n_ReportUnreachable :: "u64 \<Rightarrow> 'r \<Rightarrow> 'r"
  n_ReportSnapshot :: "u64 \<Rightarrow> bool \<Rightarrow> 'r \<Rightarrow> 'r"
  n_Advance :: "'r \<Rightarrow> 'r"
  n_Stop :: "'r \<Rightarrow> 'r"
  n_Lead :: "'r \<Rightarrow> u64"

text \<open>What a node calls: its state machine, the disk, the in-memory log, Raft, the encodings and the parsing of
  addresses.\<close>

record ('d, 'w, 'h, 'ms, 'r) node_env =
  ev_fsm :: "'d fsm_api"
  ev_wal :: "('w, 'h) wal_api"
  ev_mem :: "'ms memory_storage"
  ev_raft :: "('r, 'ms, 'w, 'h) raft_node"
  ev_codec :: raft_codec
  ev_newURLs :: "string list \<Rightarrow> string list res"

section \<open>State\<close>

record propose =
  pr_cmdID :: string
  pr_cmd :: bytes
  pr_ErrResp :: "error option"

text \<open>What \<^verbatim>\<open>newNode\<close> is given.\<close>

record NodeBase =
  nd_id :: u64
  nd_name :: string
  nd_peers :: "(u64 \<times> string) list"

text \<open>A started node. \<open>nd_db\<close> is the database of its state machine. \<open>nd_proposing\<close> tells whether the propose loop
  runs, \<open>nd_fatal\<close> is the error it offers on \<^verbatim>\<open>errChan\<close>, \<open>nd_snapshots\<close> counts the goroutines started to take a snapshot.\<close>

record ('d, 'w, 'h, 'ms, 'r) Node = NodeBase +
  nd_n :: 'r
  nd_storage :: "('ms, 'w, 'h) Storage"
  nd_transport :: Transport
  nd_db :: 'd
  nd_cluster :: Cluster
  nd_confState :: ConfState
  nd_appliedIndex :: u64
  nd_lead :: u64
  nd_selfRemoved :: bool
  nd_proposeReqNotifier :: "propose list"
  nd_proposeRespNotifier :: "propose list"
  nd_readStatesNotifier :: "ReadState list"
  nd_fatal :: "error option"
  nd_proposing :: bool
  nd_snapshots :: nat

record 's node_hooks =
  hk_onLeaderChange :: "(u64 \<Rightarrow> u64 \<Rightarrow> ('s, unit) proc) option"
  hk_onRemovedSelf :: "('s, unit) proc option"

definition newNode :: "u64 \<Rightarrow> string \<Rightarrow> (u64 \<times> string) list \<Rightarrow> NodeBase" where
  "newNode i nodename peers = \<lparr>nd_id = i, nd_name = nodename, nd_peers = peers\<rparr>"

text \<open>Calls on the parts of a node.\<close>

definition on_storage :: "(('ms, 'w, 'h) Storage, 'a) call \<Rightarrow> (('d, 'w, 'h, 'ms, 'r, 'x) Node_scheme, 'a) call" where
  "on_storage f n = (case f (nd_storage n) of (r, s) \<Rightarrow> (r, n\<lparr>nd_storage := s\<rparr>))"

definition on_transport :: "(Transport, 'a) call \<Rightarrow> (('d, 'w, 'h, 'ms, 'r, 'x) Node_scheme, 'a) call" where
  "on_transport f n = (case f (nd_transport n) of (r, t) \<Rightarrow> (r, n\<lparr>nd_transport := t\<rparr>))"

definition on_fsm :: "('d, 'a) call \<Rightarrow> (('d, 'w, 'h, 'ms, 'r, 'x) Node_scheme, 'a) call" where
  "on_fsm f n = (case f (nd_db n) of (r, d) \<Rightarrow> (r, n\<lparr>nd_db := d\<rparr>))"

definition on_raft :: "('r, 'a) call \<Rightarrow> (('d, 'w, 'h, 'ms, 'r, 'x) Node_scheme, 'a) call" where
  "on_raft f n = (case f (nd_n n) of (r, m) \<Rightarrow> (r, n\<lparr>nd_n := m\<rparr>))"

text \<open>Sends on the channels.\<close>

definition readStatesCap :: nat where
  "readStatesCap = 2"

definition send_readState :: "ReadState \<Rightarrow> (('d, 'w, 'h, 'ms, 'r, 'x) Node_scheme, unit) proc" where
  "send_readState rs n =
     (if length (nd_readStatesNotifier n) < readStatesCap
      then Some (Ok (), n\<lparr>nd_readStatesNotifier := nd_readStatesNotifier n @ [rs]\<rparr>) else None)"

definition send_response :: "propose \<Rightarrow> (('d, 'w, 'h, 'ms, 'r, 'x) Node_scheme, unit) proc" where
  "send_response p n =
     (if length (nd_proposeRespNotifier n) < 1
      then Some (Ok (), n\<lparr>nd_proposeRespNotifier := nd_proposeRespNotifier n @ [p]\<rparr>) else None)"

text \<open>The ready loop sends on \<^verbatim>\<open>stopNotifier\<close> itself, so the only receiver left is the propose loop.\<close>

definition send_stop :: "(('d, 'w, 'h, 'ms, 'r, 'x) Node_scheme, unit) proc" where
  "send_stop n = (if nd_proposing n then Some (Ok (), n\<lparr>nd_proposing := False\<rparr>) else None)"

section \<open>Applying what was committed\<close>

definition applySnapshotToFSM ::
    "('d, 'w, 'h, 'ms, 'r) node_env \<Rightarrow> Snapshot \<Rightarrow> (('d, 'w, 'h, 'ms, 'r, 'x) Node_scheme, unit) call" where
  "applySnapshotToFSM E snapshot n =
     (if IsEmptySnap snapshot then (Ok (), n)
      else if snap_Index snapshot \<le> nd_appliedIndex n then (Err (ErrText ''snapshot index less then applied index''), n)
      else bindS (on_fsm (fa_RestoreSnapshot (ev_fsm E) (snap_Data snapshot))) (\<lambda>_ n.
        (Ok (), n\<lparr>nd_appliedIndex := snap_Index snapshot, nd_confState := snap_ConfState snapshot\<rparr>)) n)"

definition getMessagesToPublish :: "Ready \<Rightarrow> ('d, 'w, 'h, 'ms, 'r, 'x) Node_scheme \<Rightarrow> Message list" where
  "getMessagesToPublish rd n =
     map (\<lambda>msg. if msg_Type msg = MsgSnap
        then msg\<lparr>msg_Snapshot := (msg_Snapshot msg)\<lparr>snap_ConfState := nd_confState n\<rparr>\<rparr> else msg) (rd_Messages rd)"

definition getEntriesToApply :: "Entry list \<Rightarrow> ('d, 'w, 'h, 'ms, 'r, 'x) Node_scheme \<Rightarrow> Entry list res" where
  "getEntriesToApply committedEntries n =
     (if committedEntries = [] then Ok committedEntries
      else let appliedIndex = nd_appliedIndex n; firstIndex = ent_Index (hd committedEntries) in
        if appliedIndex + 1 < firstIndex then Panicked ''First index of committed entries is greater than applied index + 1''
        else if appliedIndex - firstIndex + 1 < of_nat (length committedEntries)
          then Ok (drop (unat (appliedIndex - firstIndex + 1)) committedEntries)
          else Ok [])"

definition applyNormalEntry ::
    "('d, 'w, 'h, 'ms, 'r) node_env \<Rightarrow> Entry \<Rightarrow> (('d, 'w, 'h, 'ms, 'r, 'x) Node_scheme, unit) call" where
  "applyNormalEntry E entry n =
     (if ent_Index entry \<le> nd_appliedIndex n then (Ok (), n)
      else on_fsm (fa_Apply (ev_fsm E) (ent_Data entry)) n)"

text \<open>A context is the text of an address.\<close>

definition applyConfChange ::
    "('d, 'w, 'h, 'ms, 'r) node_env \<Rightarrow> Entry \<Rightarrow> (('d, 'w, 'h, 'ms, 'r, 'x) Node_scheme, bool) call" where
  "applyConfChange E entry n =
     bindS (liftR (cc_Unmarshal (ev_codec E) (ent_Data entry))) (\<lambda>cc n.
       case n_ApplyConfChange (ev_raft E) cc (nd_n n) of (confState, m) \<Rightarrow>
         let n = n\<lparr>nd_n := m, nd_confState := confState\<rparr>; addr = map (\<lambda>b. char_of (unat b)) (cc_Context cc) in
         (case cc_Type cc of
            ConfChangeRemoveNode \<Rightarrow>
              if cc_NodeID cc = nd_id n then (Ok True, n)
              else (Ok False, n\<lparr>nd_transport := RemovePeer (cc_NodeID cc) (nd_transport n)\<rparr>)
          | ConfChangeUpdateNode \<Rightarrow>
              if cc_Context cc \<noteq> [] then (Ok False, n\<lparr>nd_transport := UpdatePeer (ev_newURLs E) (cc_NodeID cc) addr (nd_transport n)\<rparr>)
              else (Ok False, n)
          | _ \<Rightarrow>
              if cc_Context cc \<noteq> [] then bindS (on_transport (AddPeer (ev_newURLs E) (cc_NodeID cc) addr)) (\<lambda>_. retS False) n
              else (Ok False, n))) n"

fun apply_loop ::
    "('d, 'w, 'h, 'ms, 'r) node_env \<Rightarrow> bool \<Rightarrow> Entry list \<Rightarrow> (('d, 'w, 'h, 'ms, 'r, 'x) Node_scheme, bool) call" where
  "apply_loop E selfRemove [] = retS selfRemove"
| "apply_loop E selfRemove (e # entries) =
     (case ent_Type e of
        EntryNormal \<Rightarrow>
          if ent_Data e \<noteq> [] then bindS (applyNormalEntry E e) (\<lambda>_. apply_loop E selfRemove entries)
          else apply_loop E selfRemove entries
      | EntryConfChange \<Rightarrow> bindS (applyConfChange E e) (\<lambda>selfRemove'. apply_loop E selfRemove' entries)
      | _ \<Rightarrow> failS (ErrText ''unknown entry type''))"

definition applyEntries ::
    "('d, 'w, 'h, 'ms, 'r) node_env \<Rightarrow> Entry list \<Rightarrow> (('d, 'w, 'h, 'ms, 'r, 'x) Node_scheme, bool) call" where
  "applyEntries E entries =
     bindS (apply_loop E False entries) (\<lambda>selfRemove n.
       if entries = [] then (Panicked ''index out of range'', n)
       else (Ok selfRemove, n\<lparr>nd_appliedIndex := ent_Index (last entries)\<rparr>))"

section \<open>Leader changes, removal, read states\<close>

definition handleLeaderChange ::
    "('d, 'w, 'h, 'ms, 'r, 'x) Node_scheme node_hooks \<Rightarrow> u64 \<Rightarrow> (('d, 'w, 'h, 'ms, 'r, 'x) Node_scheme, unit) proc" where
  "handleLeaderChange H newLeader n =
     (if newLeader = nd_lead n then Some (Ok (), n)
      else let prevLeader = nd_lead n; n = n\<lparr>nd_lead := newLeader\<rparr> in
        case hk_onLeaderChange H of Some hook \<Rightarrow> hook prevLeader newLeader n | None \<Rightarrow> Some (Ok (), n))"

definition scheduleSelfRemoval ::
    "('d, 'w, 'h, 'ms, 'r, 'x) Node_scheme node_hooks \<Rightarrow> (('d, 'w, 'h, 'ms, 'r, 'x) Node_scheme, unit) proc" where
  "scheduleSelfRemoval H n =
     bindP (case hk_onRemovedSelf H of Some hook \<Rightarrow> hook | None \<Rightarrow> retP ()) (\<lambda>_. send_stop) (n\<lparr>nd_selfRemoved := True\<rparr>)"

text \<open>The position, from the end, of the last read state that the applied index has reached.\<close>

fun respond_scan :: "u64 \<Rightarrow> ReadState list \<Rightarrow> nat \<Rightarrow> nat option" where
  "respond_scan appliedIndex readStates 0 = None"
| "respond_scan appliedIndex readStates (Suc i) =
     (if rs_Index (readStates ! i) \<le> appliedIndex then Some i else respond_scan appliedIndex readStates i)"

definition respondToReadStates ::
    "ReadState list \<Rightarrow> (('d, 'w, 'h, 'ms, 'r, 'x) Node_scheme, ReadState list) proc" where
  "respondToReadStates readStates n =
     (if readStates = [] then Some (Ok [], n)
      else if rs_Index (last readStates) \<le> nd_appliedIndex n then
        bindP (send_readState (last readStates)) (\<lambda>_. retP []) n
      else case respond_scan (nd_appliedIndex n) readStates (length readStates) of
             Some i \<Rightarrow> bindP (send_readState (readStates ! i)) (\<lambda>_. retP (drop (i + 1) readStates)) n
           | None \<Rightarrow> Some (Ok readStates, n))"

section \<open>The ready loop\<close>

definition processReady ::
    "('d, 'w, 'h, 'ms, 'r) node_env \<Rightarrow> ('d, 'w, 'h, 'ms, 'r, 'x) Node_scheme node_hooks \<Rightarrow> Ready
     \<Rightarrow> (('d, 'w, 'h, 'ms, 'r, 'x) Node_scheme, unit) proc" where
  "processReady E H rd =
     bindP (case rd_SoftState rd of Some lead \<Rightarrow> handleLeaderChange H lead | None \<Rightarrow> retP ()) (\<lambda>_.
     bindP (case rd_ReadStates rd of Some readStates \<Rightarrow> respondToReadStates readStates | None \<Rightarrow> retP []) (\<lambda>pendingReadStates.
     bindP (sure (on_storage (SaveState (ev_wal E) (ev_mem E) rd))) (\<lambda>_.
     bindP (\<lambda>n. Some (Ok (), n\<lparr>nd_transport := transport_Send (getMessagesToPublish rd n) (nd_transport n)\<rparr>)) (\<lambda>_.
     bindP (if \<not> IsEmptySnap (rd_Snapshot rd) then sure (applySnapshotToFSM E (rd_Snapshot rd)) else retP ()) (\<lambda>_.
     bindP (\<lambda>n. Some (getEntriesToApply (rd_CommittedEntries rd) n, n)) (\<lambda>entries.
     bindP (if entries \<noteq> [] then sure (applyEntries E entries) else retP False) (\<lambda>selfRemove.
     if selfRemove then scheduleSelfRemoval H
     else
       bindP (if rd_ReadStates rd \<noteq> None then respondToReadStates pendingReadStates else retP []) (\<lambda>_ n.
       Some (Ok (), n\<lparr>nd_snapshots := nd_snapshots n + 1, nd_n := n_Advance (ev_raft E) (nd_n n)\<rparr>)))))))))"

text \<open>\<^verbatim>\<open>Stop\<close> ignores the errors it meets; the outcome of shutting down the server is an argument.\<close>

definition ignoring :: "('s, unit) call \<Rightarrow> ('s, unit) call" where
  "ignoring f s = (case f s of (Panicked p, s') \<Rightarrow> (Panicked p, s') | (_, s') \<Rightarrow> (Ok (), s'))"

definition node_Stop ::
    "('d, 'w, 'h, 'ms, 'r) node_env \<Rightarrow> error option \<Rightarrow> (('d, 'w, 'h, 'ms, 'r, 'x) Node_scheme, unit) call" where
  "node_Stop E shutdownErr =
     bindS (ignoring (on_transport (transport_Stop shutdownErr))) (\<lambda>_.
     bindS (ignoring (on_storage (storage_Close (ev_wal E)))) (\<lambda>_ n.
     (Ok (), n\<lparr>nd_n := n_Stop (ev_raft E) (nd_n n)\<rparr>)))"

datatype ready_event = EvTick | EvErr error | EvReady Ready | EvDone | EvStop

text \<open>One round of the select: the result tells whether the loop goes on.\<close>

definition ready_select ::
    "('d, 'w, 'h, 'ms, 'r) node_env \<Rightarrow> ('d, 'w, 'h, 'ms, 'r, 'x) Node_scheme node_hooks \<Rightarrow> ready_event
     \<Rightarrow> (('d, 'w, 'h, 'ms, 'r, 'x) Node_scheme, bool) proc" where
  "ready_select E H ev n =
     (case ev of
        EvTick \<Rightarrow> Some (Ok True, n\<lparr>nd_n := n_Tick (ev_raft E) (nd_n n)\<rparr>)
      | EvErr err \<Rightarrow> Some (Ok False, n)
      | EvReady rd \<Rightarrow>
          if nd_selfRemoved n then Some (Ok True, n)
          else (case processReady E H rd n of
                  None \<Rightarrow> None
                | Some (r, n') \<Rightarrow> (case r of
                    Ok _ \<Rightarrow> Some (Ok True, n') | Err e \<Rightarrow> Some (Ok False, n') | Panicked p \<Rightarrow> Some (Panicked p, n')))
      | EvDone \<Rightarrow> Some (Ok False, n)
      | EvStop \<Rightarrow> Some (Ok False, n))"

fun ready_loop ::
    "('d, 'w, 'h, 'ms, 'r) node_env \<Rightarrow> ('d, 'w, 'h, 'ms, 'r, 'x) Node_scheme node_hooks \<Rightarrow> ready_event list
     \<Rightarrow> (('d, 'w, 'h, 'ms, 'r, 'x) Node_scheme, bool) proc" where
  "ready_loop E H [] = retP True"
| "ready_loop E H (ev # evs) =
     bindP (ready_select E H ev) (\<lambda>go. if go then ready_loop E H evs else retP False)"

text \<open>The loop on a sequence of events, with the deferred \<^verbatim>\<open>Stop\<close> when it has ended.\<close>

definition readyHandler ::
    "('d, 'w, 'h, 'ms, 'r) node_env \<Rightarrow> ('d, 'w, 'h, 'ms, 'r, 'x) Node_scheme node_hooks \<Rightarrow> error option \<Rightarrow> ready_event list
     \<Rightarrow> (('d, 'w, 'h, 'ms, 'r, 'x) Node_scheme, unit) proc" where
  "readyHandler E H shutdownErr evs n =
     (case fst (storage_Snapshot (ev_mem E) (nd_storage n)) of
        Ok sn \<Rightarrow>
          bindP (ready_loop E H evs) (\<lambda>go. if go then retP () else sure (node_Stop E shutdownErr))
            (n\<lparr>nd_confState := snap_ConfState sn, nd_appliedIndex := snap_Index sn, nd_lead := n_Lead (ev_raft E) (nd_n n)\<rparr>)
      | Err e \<Rightarrow> bindP send_stop (\<lambda>_. sure (node_Stop E shutdownErr)) n
      | Panicked p \<Rightarrow> Some (Panicked p, n))"

section \<open>The propose loop\<close>

datatype propose_event = PvProposal propose | PvConfChange ConfChange | PvDone | PvStop

definition propose_select ::
    "('d, 'w, 'h, 'ms, 'r) node_env \<Rightarrow> propose_event \<Rightarrow> (('d, 'w, 'h, 'ms, 'r, 'x) Node_scheme, bool) proc" where
  "propose_select E ev n =
     (case ev of
        PvProposal prop \<Rightarrow>
          if nd_selfRemoved n then
            bindP (send_response \<lparr>pr_cmdID = pr_cmdID prop, pr_cmd = [],
               pr_ErrResp = Some (ErrText ''node has been removed from cluster'')\<rparr>) (\<lambda>_. retP True) n
          else (case on_raft (n_Propose (ev_raft E) (pr_cmd prop)) n of
              (Err e, n') \<Rightarrow> Some (Ok False, n'\<lparr>nd_fatal := Some e\<rparr>)
            | (Panicked p, n') \<Rightarrow> Some (Panicked p, n')
            | (Ok _, n') \<Rightarrow> bindP (send_response \<lparr>pr_cmdID = pr_cmdID prop, pr_cmd = [], pr_ErrResp = None\<rparr>) (\<lambda>_. retP True) n')
      | PvConfChange cc \<Rightarrow>
          if nd_selfRemoved n then Some (Ok True, n)
          else (case on_raft (n_ProposeConfChange (ev_raft E) cc) n of
              (Err e, n') \<Rightarrow> Some (Ok False, n'\<lparr>nd_fatal := Some e\<rparr>)
            | (Panicked p, n') \<Rightarrow> Some (Panicked p, n')
            | (Ok _, n') \<Rightarrow> Some (Ok True, n'))
      | PvDone \<Rightarrow> Some (Ok False, n)
      | PvStop \<Rightarrow> Some (Ok False, n))"

fun proposeHandler ::
    "('d, 'w, 'h, 'ms, 'r) node_env \<Rightarrow> propose_event list \<Rightarrow> (('d, 'w, 'h, 'ms, 'r, 'x) Node_scheme, unit) proc" where
  "proposeHandler E [] = retP ()"
| "proposeHandler E (ev # evs) =
     bindP (propose_select E ev) (\<lambda>go. if go then proposeHandler E evs else (\<lambda>n. Some (Ok (), n\<lparr>nd_proposing := False\<rparr>)))"

section \<open>Snapshots\<close>

definition defaultSnapshotCount :: u64 where
  "defaultSnapshotCount = 100000"

text \<open>The decision and the saving, between which other goroutines run.\<close>

definition snapshot_due ::
    "('d, 'w, 'h, 'ms, 'r) node_env \<Rightarrow> bool \<Rightarrow> ('d, 'w, 'h, 'ms, 'r, 'x) Node_scheme \<Rightarrow> (ConfState \<times> u64) option res" where
  "snapshot_due E force n =
     bindR (LastSnapshotIndex (ev_mem E) (nd_storage n)) (\<lambda>snapshotIndex.
     if \<not> force \<and> nd_appliedIndex n - snapshotIndex < defaultSnapshotCount then Ok None
     else Ok (Some (nd_confState n, nd_appliedIndex n)))"

definition snapshot_save ::
    "('d, 'w, 'h, 'ms, 'r) node_env \<Rightarrow> ConfState \<Rightarrow> u64 \<Rightarrow> bytes \<Rightarrow> (('d, 'w, 'h, 'ms, 'r, 'x) Node_scheme, unit) call" where
  "snapshot_save E confState appliedIndex data =
     ignoring (on_storage (storage_CreateSnapshot (ev_wal E) (ev_mem E) appliedIndex confState data))"

definition takeSnapshotIfNeeded ::
    "('d, 'w, 'h, 'ms, 'r) node_env \<Rightarrow> bool \<Rightarrow> (('d, 'w, 'h, 'ms, 'r, 'x) Node_scheme, unit) call" where
  "takeSnapshotIfNeeded E force n =
     bindS (liftR (snapshot_due E force n)) (\<lambda>due.
     case due of
       None \<Rightarrow> retS ()
     | Some (confState, appliedIndex) \<Rightarrow>
         (case fa_CreateSnapshot (ev_fsm E) (nd_db n) of
            Ok (uptoTs, data) \<Rightarrow> snapshot_save E confState appliedIndex data
          | Err e \<Rightarrow> retS ()
          | Panicked p \<Rightarrow> panicS p)) n"

section \<open>Reads\<close>

definition IsLeader :: "('d, 'w, 'h, 'ms, 'r, 'x) Node_scheme \<Rightarrow> bool" where
  "IsLeader n \<longleftrightarrow> nd_lead n = nd_id n"

definition Leader :: "('d, 'w, 'h, 'ms, 'r, 'x) Node_scheme \<Rightarrow> u64" where
  "Leader n = nd_lead n"

definition ReadIndex ::
    "('d, 'w, 'h, 'ms, 'r) node_env \<Rightarrow> bytes \<Rightarrow> (('d, 'w, 'h, 'ms, 'r, 'x) Node_scheme, u64) call" where
  "ReadIndex E rctx = bindS (on_raft (n_ReadIndex (ev_raft E) rctx)) (\<lambda>_ n. (Ok (nd_appliedIndex n), n))"

text \<open>With a value in the channel the wait is over; otherwise the timer or the context ends it. \<open>ended\<close> is the error of
  whichever fires.\<close>

definition WaitForReadState :: "error \<Rightarrow> (('d, 'w, 'h, 'ms, 'r, 'x) Node_scheme, ReadState) call" where
  "WaitForReadState ended n =
     (case nd_readStatesNotifier n of
        rs # rest \<Rightarrow> (Ok rs, n\<lparr>nd_readStatesNotifier := rest\<rparr>)
      | [] \<Rightarrow> (Err ended, n))"

section \<open>Callbacks of the transport\<close>

definition Process ::
    "('d, 'w, 'h, 'ms, 'r) node_env \<Rightarrow> Message \<Rightarrow> (('d, 'w, 'h, 'ms, 'r, 'x) Node_scheme, unit) call" where
  "Process E m = on_raft (n_Step (ev_raft E) m)"

definition IsIDRemoved :: "u64 \<Rightarrow> ('d, 'w, 'h, 'ms, 'r, 'x) Node_scheme \<Rightarrow> bool" where
  "IsIDRemoved i n = cl_IsNodeRemoved (nd_cluster n) i"

definition ReportUnreachable ::
    "('d, 'w, 'h, 'ms, 'r) node_env \<Rightarrow> u64 \<Rightarrow> ('d, 'w, 'h, 'ms, 'r, 'x) Node_scheme \<Rightarrow> ('d, 'w, 'h, 'ms, 'r, 'x) Node_scheme" where
  "ReportUnreachable E i n = n\<lparr>nd_n := n_ReportUnreachable (ev_raft E) i (nd_n n)\<rparr>"

definition ReportSnapshot ::
    "('d, 'w, 'h, 'ms, 'r) node_env \<Rightarrow> u64 \<Rightarrow> bool \<Rightarrow> ('d, 'w, 'h, 'ms, 'r, 'x) Node_scheme \<Rightarrow> ('d, 'w, 'h, 'ms, 'r, 'x) Node_scheme" where
  "ReportSnapshot E i status n = n\<lparr>nd_n := n_ReportSnapshot (ev_raft E) i status (nd_n n)\<rparr>"

section \<open>Starting\<close>

text \<open>The configuration is validated, so the cluster and the Raft configuration are set. The disk is passed along; a node
  that started has both loops running.\<close>

definition node_Start ::
    "('d, 'w, 'h, 'ms, 'r) node_env \<Rightarrow> (string \<Rightarrow> string res) \<Rightarrow> error option \<Rightarrow> 'set Config \<Rightarrow> NodeBase \<Rightarrow> 'd \<Rightarrow> 'w
     \<Rightarrow> (('d, 'w, 'h, 'ms, 'r) Node res \<times> 'w) option" where
  "node_Start E urlParse rtErr cfg node db disk =
     (case (cf_RaftConfig cfg, cf_Cluster cfg) of
        (Some rc, Some cluster) \<Rightarrow>
          (case newStorage (ev_wal E) (cf_BaseDir cfg) disk of
             (Ok st, disk1) \<Rightarrow>
               (case Initialize (ev_wal E) (ev_mem E) st of
                  (Ok _, st) \<Rightarrow>
                    (let n = (if Existing st then n_RestartNode (ev_raft E) rc st
                        else n_StartNode (ev_raft E) rc (map fst (nd_peers node)) st) in
                     case transport_Start (ev_newURLs E) urlParse rtErr (NewTransport (nd_id node) (nd_peers node)) of
                       None \<Rightarrow> None
                     | Some (Ok _, tr) \<Rightarrow> Some (Ok
                         \<lparr>nd_id = nd_id node, nd_name = nd_name node, nd_peers = nd_peers node, nd_n = n, nd_storage = st,
                          nd_transport = tr, nd_db = db, nd_cluster = cluster, nd_confState = emptyConfState, nd_appliedIndex = 0,
                          nd_lead = 0, nd_selfRemoved = False, nd_proposeReqNotifier = [], nd_proposeRespNotifier = [],
                          nd_readStatesNotifier = [], nd_fatal = None, nd_proposing = True, nd_snapshots = 0\<rparr>, st_disk st)
                     | Some (Err e, tr) \<Rightarrow> Some (Err e, st_disk st)
                     | Some (Panicked p, tr) \<Rightarrow> Some (Panicked p, st_disk st))
                | (Err e, st) \<Rightarrow> Some (Err e, st_disk st)
                | (Panicked p, st) \<Rightarrow> Some (Panicked p, st_disk st))
           | (Err e, disk1) \<Rightarrow> Some (Err e, disk1)
           | (Panicked p, disk1) \<Rightarrow> Some (Panicked p, disk1))
      | _ \<Rightarrow> Some (Panicked ''invalid memory address or nil pointer dereference'', disk))"

end
