(* ===== verification/Replica.thy ===== *)
theory Replica
  imports Node
begin

text \<open>
  What the ready loop of \<^verbatim>\<open>node.go\<close> (theory \<open>Node\<close>) guarantees: state is durable before its effects are visible, the
  database is the result of applying a prefix of the committed log, and readers are woken only when the database
  has caught up.
\<close>

section \<open>Specification\<close>

text \<open>Hooks of the owner leave the log, the peers, the database and the read states alone.\<close>

definition quiet :: "('d, 'w, 'h, 'ms, 'r, 'x) Node_scheme \<Rightarrow> ('d, 'w, 'h, 'ms, 'r, 'x) Node_scheme \<Rightarrow> bool" where
  "quiet n n' \<longleftrightarrow> nd_storage n' = nd_storage n \<and> nd_transport n' = nd_transport n \<and> nd_db n' = nd_db n
     \<and> nd_appliedIndex n' = nd_appliedIndex n \<and> nd_readStatesNotifier n' = nd_readStatesNotifier n"

definition quiet_hooks :: "('d, 'w, 'h, 'ms, 'r, 'x) Node_scheme node_hooks \<Rightarrow> bool" where
  "quiet_hooks H \<longleftrightarrow>
     (\<forall>hook prev new n r n'. hk_onLeaderChange H = Some hook \<longrightarrow> hook prev new n = Some (r, n') \<longrightarrow> quiet n n')
     \<and> (\<forall>hook n r n'. hk_onRemovedSelf H = Some hook \<longrightarrow> hook n = Some (r, n') \<longrightarrow> quiet n n')"

text \<open>A weaker promise, which is enough while the ready loop runs: it holds when the hook returns normally. \<open>settled\<close> makes
  quiet hooks of such hooks, which undo what a hook did that failed.\<close>

definition calm_hooks :: "('d, 'w, 'h, 'ms, 'r, 'x) Node_scheme node_hooks \<Rightarrow> bool" where
  "calm_hooks H \<longleftrightarrow>
     (\<forall>hook prev new n u n'. hk_onLeaderChange H = Some hook \<longrightarrow> hook prev new n = Some (Ok u, n') \<longrightarrow> quiet n n')
     \<and> (\<forall>hook n u n'. hk_onRemovedSelf H = Some hook \<longrightarrow> hook n = Some (Ok u, n') \<longrightarrow> quiet n n')"

definition settle :: "('s, unit) proc \<Rightarrow> ('s, unit) proc" where
  "settle f n = map_option (\<lambda>(r, n'). (r, if is_Ok r then n' else n)) (f n)"

definition settled :: "'s node_hooks \<Rightarrow> 's node_hooks" where
  "settled H = \<lparr>hk_onLeaderChange = map_option (\<lambda>hook prev new. settle (hook prev new)) (hk_onLeaderChange H),
     hk_onRemovedSelf = map_option settle (hk_onRemovedSelf H)\<rparr>"

text \<open>Hooks that return and leave the propose loop running.\<close>

definition hooks_return :: "('d, 'w, 'h, 'ms, 'r, 'x) Node_scheme node_hooks \<Rightarrow> bool" where
  "hooks_return H \<longleftrightarrow>
     (\<forall>hook prev new n. hk_onLeaderChange H = Some hook \<longrightarrow> (\<exists>r n'. hook prev new n = Some (r, n') \<and> nd_proposing n' = nd_proposing n))
     \<and> (\<forall>hook n. hk_onRemovedSelf H = Some hook \<longrightarrow> (\<exists>r n'. hook n = Some (r, n') \<and> nd_proposing n' = nd_proposing n))"

text \<open>Committed entries come in order, with positive indices.\<close>

definition in_order :: "Entry list \<Rightarrow> bool" where
  "in_order es \<longleftrightarrow> es = [] \<or> ent_Index (hd es) \<noteq> 0 \<and> consecutive es"

definition reads_ok :: "('d, 'w, 'h, 'ms, 'r, 'x) Node_scheme \<Rightarrow> bool" where
  "reads_ok n \<longleftrightarrow> (\<forall>rs \<in> set (nd_readStatesNotifier n). rs_Index rs \<le> nd_appliedIndex n)"

text \<open>The committed log from its first entry on, the state machine run over a piece of it, and a database that is
  indistinguishable from the one after its first entries. A snapshot is good when restoring it gives such a
  database.\<close>

definition indexed :: "Entry list \<Rightarrow> bool" where
  "indexed log \<longleftrightarrow> (\<forall>i < length log. unat (ent_Index (log ! i)) = i + 1)"

fun apply_all :: "'d fsm_api \<Rightarrow> Entry list \<Rightarrow> ('d, unit) call" where
  "apply_all F [] = retS ()"
| "apply_all F (e # es) =
     bindS (if ent_Type e = EntryNormal \<and> ent_Data e \<noteq> [] then fa_Apply F (ent_Data e) else retS ()) (\<lambda>_. apply_all F es)"

definition at_index :: "'d fsm_api \<Rightarrow> ('d \<Rightarrow> 'o) \<Rightarrow> Entry list \<Rightarrow> 'd \<Rightarrow> nat \<Rightarrow> 'd \<Rightarrow> bool" where
  "at_index F obs log d0 i d \<longleftrightarrow> i \<le> length log \<and> (\<exists>d'. apply_all F (take i log) d0 = (Ok (), d') \<and> obs d' = obs d)"

definition snap_at :: "'d fsm_api \<Rightarrow> ('d \<Rightarrow> 'o) \<Rightarrow> Entry list \<Rightarrow> 'd \<Rightarrow> Snapshot \<Rightarrow> bool" where
  "snap_at F obs log d0 sn \<longleftrightarrow>
     (\<forall>d d'. fa_RestoreSnapshot F (snap_Data sn) d = (Ok (), d') \<longrightarrow> at_index F obs log d0 (unat (snap_Index sn)) d')"

definition ready_for :: "'d fsm_api \<Rightarrow> ('d \<Rightarrow> 'o) \<Rightarrow> Entry list \<Rightarrow> 'd \<Rightarrow> Ready \<Rightarrow> bool" where
  "ready_for F obs log d0 rd \<longleftrightarrow>
     (\<exists>j k. rd_CommittedEntries rd = take k (drop j log)) \<and> (IsEmptySnap (rd_Snapshot rd) \<or> snap_at F obs log d0 (rd_Snapshot rd))"

text \<open>A deterministic state machine: what an observer can tell about a database decides whether an entry applies and
  what can be told afterwards; a snapshot restores what could be told when it was made.\<close>

locale replica_fsm =
  fixes F :: "'d fsm_api" and obs :: "'d \<Rightarrow> 'o"
  assumes apply_obs: "obs d1 = obs d2 \<Longrightarrow> fa_Apply F b d1 = (Ok (), e1) \<Longrightarrow> \<exists>e2. fa_Apply F b d2 = (Ok (), e2) \<and> obs e2 = obs e1"
    and restore_obs: "fa_CreateSnapshot F d = Ok (t, data) \<Longrightarrow> fa_RestoreSnapshot F data d1 = (Ok (), d2) \<Longrightarrow> obs d2 = obs d"

text \<open>A configuration change that removes the node from the cluster.\<close>

definition removes_self :: "('d, 'w, 'h, 'ms, 'r) node_env \<Rightarrow> u64 \<Rightarrow> Entry \<Rightarrow> bool" where
  "removes_self E i e \<longleftrightarrow>
     (case cc_Unmarshal (ev_codec E) (ent_Data e) of Ok cc \<Rightarrow> cc_Type cc = ConfChangeRemoveNode \<and> cc_NodeID cc = i | _ \<Rightarrow> False)"

definition is_change :: "Entry \<Rightarrow> bool" where
  "is_change e \<longleftrightarrow> ent_Type e = EntryConfChange"

text \<open>What the calls that apply entries leave alone.\<close>

definition untouched :: "('d, 'w, 'h, 'ms, 'r, 'x) Node_scheme \<Rightarrow> ('d, 'w, 'h, 'ms, 'r, 'x) Node_scheme \<Rightarrow> bool" where
  "untouched n n' \<longleftrightarrow> nd_storage n' = nd_storage n \<and> nd_readStatesNotifier n' = nd_readStatesNotifier n
     \<and> nd_proposing n' = nd_proposing n \<and> nd_selfRemoved n' = nd_selfRemoved n \<and> nd_id n' = nd_id n"

text \<open>The stages of \<^verbatim>\<open>processReady\<close>: before the state is saved, applying committed entries, and all that follows the save.\<close>

definition before_save ::
    "('d, 'w, 'h, 'ms, 'r, 'x) Node_scheme node_hooks \<Rightarrow> Ready \<Rightarrow> (('d, 'w, 'h, 'ms, 'r, 'x) Node_scheme, ReadState list) proc" where
  "before_save H rd =
     bindP (case rd_SoftState rd of Some lead \<Rightarrow> handleLeaderChange H lead | None \<Rightarrow> retP ()) (\<lambda>_.
     case rd_ReadStates rd of Some readStates \<Rightarrow> respondToReadStates readStates | None \<Rightarrow> retP [])"

definition apply_committed ::
    "('d, 'w, 'h, 'ms, 'r) node_env \<Rightarrow> Entry list \<Rightarrow> (('d, 'w, 'h, 'ms, 'r, 'x) Node_scheme, bool) proc" where
  "apply_committed E es =
     bindP (\<lambda>n. Some (getEntriesToApply es n, n)) (\<lambda>entries. if entries \<noteq> [] then sure (applyEntries E entries) else retP False)"

definition send_messages :: "Ready \<Rightarrow> (('d, 'w, 'h, 'ms, 'r, 'x) Node_scheme, unit) proc" where
  "send_messages rd n = Some (Ok (), n\<lparr>nd_transport := transport_Send (getMessagesToPublish rd n) (nd_transport n)\<rparr>)"

definition finish_ready ::
    "('d, 'w, 'h, 'ms, 'r) node_env \<Rightarrow> ('d, 'w, 'h, 'ms, 'r, 'x) Node_scheme node_hooks \<Rightarrow> Ready \<Rightarrow> ReadState list \<Rightarrow> bool
     \<Rightarrow> (('d, 'w, 'h, 'ms, 'r, 'x) Node_scheme, unit) proc" where
  "finish_ready E H rd pending selfRemove =
     (if selfRemove then scheduleSelfRemoval H
      else bindP (if rd_ReadStates rd \<noteq> None then respondToReadStates pending else retP []) (\<lambda>_ n.
        Some (Ok (), n\<lparr>nd_snapshots := nd_snapshots n + 1, nd_n := n_Advance (ev_raft E) (nd_n n)\<rparr>)))"

definition after_save ::
    "('d, 'w, 'h, 'ms, 'r) node_env \<Rightarrow> ('d, 'w, 'h, 'ms, 'r, 'x) Node_scheme node_hooks \<Rightarrow> Ready \<Rightarrow> ReadState list
     \<Rightarrow> (('d, 'w, 'h, 'ms, 'r, 'x) Node_scheme, unit) proc" where
  "after_save E H rd pending =
     bindP (send_messages rd) (\<lambda>_.
     bindP (if \<not> IsEmptySnap (rd_Snapshot rd) then sure (applySnapshotToFSM E (rd_Snapshot rd)) else retP ()) (\<lambda>_.
     bindP (apply_committed E (rd_CommittedEntries rd)) (finish_ready E H rd pending)))"

section \<open>A node with a recording state machine\<close>

definition demo_fsm :: "bytes list fsm_api" where
  "demo_fsm = \<lparr>fa_Apply = (\<lambda>b d. (Ok (), d @ [b])), fa_RestoreSnapshot = (\<lambda>b d. (Ok (), [b])), fa_CreateSnapshot = (\<lambda>d. Ok (0, concat d))\<rparr>"

text \<open>A \<^verbatim>\<open>raft.Node\<close> that counts the calls of \<^verbatim>\<open>Advance\<close>.\<close>

definition demo_raft :: "(nat, 'ms, 'w, 'h) raft_node" where
  "demo_raft = \<lparr>n_StartNode = (\<lambda>_ _ _. 0), n_RestartNode = (\<lambda>_ _. 0), n_Tick = (\<lambda>r. r), n_Propose = (\<lambda>_. retS ()),
     n_ProposeConfChange = (\<lambda>_. retS ()), n_ApplyConfChange = (\<lambda>_ r. (emptyConfState, r)), n_ReadIndex = (\<lambda>_. retS ()),
     n_Step = (\<lambda>_. retS ()), n_ReportUnreachable = (\<lambda>_ r. r), n_ReportSnapshot = (\<lambda>_ _ r. r), n_Advance = Suc, n_Stop = (\<lambda>r. r),
     n_Lead = (\<lambda>_. 0)\<rparr>"

definition demo_node_env :: "(bytes list, journal, unit, list_mem, nat) node_env" where
  "demo_node_env = \<lparr>ev_fsm = demo_fsm, ev_wal = journal_api, ev_mem = list_memory, ev_raft = demo_raft, ev_codec = word_codec, ev_newURLs = demo_urls\<rparr>"

definition demo_node :: "(bytes list, journal, unit, list_mem, nat) Node" where
  "demo_node = \<lparr>nd_id = 1, nd_name = ''n1'', nd_peers = [(1, ''a'')], nd_n = 0, nd_storage = demo_first, nd_transport = NewTransport 1 [(1, ''a'')],
     nd_db = [], nd_cluster = \<lparr>cl_GetID = 7, cl_GetName = ''c'', cl_IsNodeRemoved = (\<lambda>_. False)\<rparr>, nd_confState = emptyConfState,
     nd_appliedIndex = 0, nd_lead = 0, nd_selfRemoved = False, nd_proposeReqNotifier = [], nd_proposeRespNotifier = [],
     nd_readStatesNotifier = [], nd_fatal = None, nd_proposing = True, nd_snapshots = 0\<rparr>"

definition no_hooks :: "'s node_hooks" where
  "no_hooks = \<lparr>hk_onLeaderChange = None, hk_onRemovedSelf = None\<rparr>"

definition demo_log :: "Entry list" where
  "demo_log = [demo_entry 1 1, demo_entry 1 2, demo_entry 1 3]"

text \<open>Two committed batches that overlap, with a read waiting for the second entry.\<close>

definition demo_events :: "ready_event list" where
  "demo_events =
     [EvReady ((demo_ready [demo_entry 1 1, demo_entry 1 2] 0 1 2)\<lparr>rd_CommittedEntries := [demo_entry 1 1]\<rparr>), EvTick,
      EvReady ((demo_ready [demo_entry 1 3] 0 1 3)\<lparr>rd_CommittedEntries := [demo_entry 1 1, demo_entry 1 2, demo_entry 1 3],
         rd_ReadStates := Some [\<lparr>rs_Index = 2, rs_RequestCtx = [9]\<rparr>]\<rparr>)]"

definition demo_after :: "(bytes list, journal, unit, list_mem, nat) Node" where
  "demo_after = (case ready_loop demo_node_env no_hooks demo_events demo_node of Some (_, n) \<Rightarrow> n | None \<Rightarrow> demo_node)"

lemma no_hooks_quiet [simp]: "quiet_hooks no_hooks" "hooks_return no_hooks"
  by (simp_all add: quiet_hooks_def hooks_return_def no_hooks_def)

interpretation df: replica_fsm demo_fsm concat
  by unfold_locales (auto simp: demo_fsm_def)

section \<open>Lemmas on the parts\<close>

lemma bindP_assoc: "bindP (bindP m f) g = bindP m (\<lambda>a. bindP (f a) g)"
  by (rule ext) (auto simp: bindP_def split: option.splits prod.splits res.splits)

lemma processReady_stages:
  "processReady E H rd = bindP (before_save H rd) (\<lambda>pending.
     bindP (sure (on_storage (SaveState (ev_wal E) (ev_mem E) rd))) (\<lambda>_. after_save E H rd pending))"
  unfolding processReady_def before_save_def after_save_def apply_committed_def send_messages_def finish_ready_def
  by (simp only: bindP_assoc)

lemma quiet_refl [simp]: "quiet n n"
  by (simp add: quiet_def)

lemma quiet_trans: "quiet a b \<Longrightarrow> quiet b c \<Longrightarrow> quiet a c"
  by (simp add: quiet_def)

lemma handleLeaderChange_quiet:
  assumes "quiet_hooks H" "handleLeaderChange H lead n = Some (r, n')"
  shows "quiet n n'"
proof (cases "lead = nd_lead n \<or> hk_onLeaderChange H = None")
  case True
  with assms show ?thesis by (auto simp: handleLeaderChange_def Let_def quiet_def split: if_splits)
next
  case False
  then obtain hook where "hk_onLeaderChange H = Some hook" "hook (nd_lead n) lead (n\<lparr>nd_lead := lead\<rparr>) = Some (r, n')"
    using assms(2) by (auto simp: handleLeaderChange_def Let_def)
  with assms(1) have "quiet (n\<lparr>nd_lead := lead\<rparr>) n'" by (auto simp: quiet_hooks_def)
  then show ?thesis by (simp add: quiet_def)
qed

lemma scan_SomeD: "respond_scan a rss k = Some i \<Longrightarrow> i < k \<and> rs_Index (rss ! i) \<le> a"
  by (induction k) (auto split: if_splits)

text \<open>A response changes nothing but the channel, and puts at most one satisfied read state there.\<close>

lemma respond_changes:
  assumes "respondToReadStates rss n = Some (r, n')"
  shows "n' = n \<or> (\<exists>rs. rs_Index rs \<le> nd_appliedIndex n \<and> rs \<in> set rss \<and> length (nd_readStatesNotifier n) < readStatesCap
    \<and> n' = n\<lparr>nd_readStatesNotifier := nd_readStatesNotifier n @ [rs]\<rparr>)" "\<exists>p. r = Ok p"
proof -
  have send: "(bindP (send_readState rs) (\<lambda>_. retP p) n = Some (r, n')) =
      (length (nd_readStatesNotifier n) < readStatesCap \<and> r = Ok p \<and> n' = n\<lparr>nd_readStatesNotifier := nd_readStatesNotifier n @ [rs]\<rparr>)" for rs p
    by (auto simp: send_readState_def bindP_def retP_def)
  consider "rss = []" | "rss \<noteq> []" "rs_Index (last rss) \<le> nd_appliedIndex n"
    | "rss \<noteq> []" "\<not> rs_Index (last rss) \<le> nd_appliedIndex n" "respond_scan (nd_appliedIndex n) rss (length rss) = None"
    | i where "rss \<noteq> []" "\<not> rs_Index (last rss) \<le> nd_appliedIndex n" "respond_scan (nd_appliedIndex n) rss (length rss) = Some i"
    by fastforce
  then have "(n' = n \<or> (\<exists>rs. rs_Index rs \<le> nd_appliedIndex n \<and> rs \<in> set rss \<and> length (nd_readStatesNotifier n) < readStatesCap
    \<and> n' = n\<lparr>nd_readStatesNotifier := nd_readStatesNotifier n @ [rs]\<rparr>)) \<and> (\<exists>p. r = Ok p)"
  proof cases
    case 2
    with assms send show ?thesis by (auto simp: respondToReadStates_def intro!: exI [of _ "last rss"])
  next
    case (4 i)
    note scan_SomeD [OF 4(3)]
    with 4 assms send show ?thesis by (auto simp: respondToReadStates_def intro!: exI [of _ "rss ! i"])
  qed (use assms in \<open>auto simp: respondToReadStates_def\<close>)
  then show "n' = n \<or> (\<exists>rs. rs_Index rs \<le> nd_appliedIndex n \<and> rs \<in> set rss \<and> length (nd_readStatesNotifier n) < readStatesCap
    \<and> n' = n\<lparr>nd_readStatesNotifier := nd_readStatesNotifier n @ [rs]\<rparr>)" "\<exists>p. r = Ok p" by blast+
qed

lemma entries_to_apply:
  assumes "in_order es" "getEntriesToApply es n = Ok es'" "es' \<noteq> []"
  shows "\<exists>j. es' = drop j es \<and> j < length es \<and> unat (ent_Index (hd es)) + j = unat (nd_appliedIndex n) + 1
    \<and> unat (ent_Index (hd es)) \<le> unat (nd_appliedIndex n) + 1"
proof -
  let ?a = "nd_appliedIndex n" and ?f = "ent_Index (hd es)"
  have es: "es \<noteq> []" "?f \<noteq> 0" using assms by (auto simp: in_order_def getEntriesToApply_def)
  have le: "\<not> ?a + 1 < ?f" and d: "es' = drop (unat (?a - ?f + 1)) es" and len: "?a - ?f + 1 < of_nat (length es)"
    using assms es by (auto simp: getEntriesToApply_def Let_def split: if_splits)
  have nw: "?a + 1 \<noteq> 0" using le es(2) by (metis word_neq_0_conv)
  then have u1: "unat (?a + 1) = unat ?a + 1" by (metis add.commute unatSuc Suc_eq_plus1_left)
  have swap: "?a - ?f + 1 = ?a + 1 - ?f" by simp
  have j: "unat (?a - ?f + 1) = unat ?a + 1 - unat ?f" unfolding swap using le u1 by (simp add: unat_sub not_less)
  have "unat ?f \<le> unat ?a + 1" using le u1 by (simp add: word_less_nat_alt)
  with j d assms(3) show ?thesis by (intro exI [of _ "unat ?a + 1 - unat ?f"]) (auto simp: not_le [symmetric])
qed

lemma entries_last:
  assumes "in_order es" "getEntriesToApply es n = Ok es'" "es' \<noteq> []"
  shows "nd_appliedIndex n < ent_Index (last es')" "\<forall>i < length es'. unat (ent_Index (es' ! i)) = unat (nd_appliedIndex n) + 1 + i"
proof -
  obtain j where j: "es' = drop j es" "j < length es" "unat (ent_Index (hd es)) + j = unat (nd_appliedIndex n) + 1"
    using entries_to_apply [OF assms] by blast
  from assms(1) j(2) have c: "consecutive es" by (auto simp: in_order_def)
  show all: "\<forall>i < length es'. unat (ent_Index (es' ! i)) = unat (nd_appliedIndex n) + 1 + i"
    using c j by (auto simp: consecutive_def)
  have "unat (ent_Index (last es')) = unat (nd_appliedIndex n) + 1 + (length es' - 1)"
    using all assms(3) by (simp add: last_conv_nth)
  then show "nd_appliedIndex n < ent_Index (last es')" by (simp add: word_less_nat_alt)
qed

lemma untouched_refl [simp]: "untouched n n"
  by (simp add: untouched_def)

lemma applyNormalEntry_keeps: "applyNormalEntry E e n = (r, n') \<Longrightarrow> untouched n n' \<and> nd_appliedIndex n' = nd_appliedIndex n \<and> nd_transport n' = nd_transport n"
  by (auto simp: applyNormalEntry_def on_fsm_def untouched_def split: if_splits prod.splits)

lemma applyConfChange_keeps: "applyConfChange E e n = (r, n') \<Longrightarrow> untouched n n' \<and> nd_appliedIndex n' = nd_appliedIndex n \<and> nd_db n' = nd_db n"
  by (auto simp: applyConfChange_def on_transport_def bindS_def liftR_def retS_def untouched_def Let_def
      split: if_splits prod.splits res.splits ConfChangeType.splits)

lemma apply_loop_keeps: "apply_loop E sr es n = (r, n') \<Longrightarrow> untouched n n' \<and> nd_appliedIndex n' = nd_appliedIndex n"
proof (induction es arbitrary: sr n)
  case (Cons e es)
  have trans: "untouched a c" if "untouched a b" "untouched b c" for a b c :: "('a, 'b, 'c, 'd, 'e, 'f) Node_scheme"
    using that by (simp add: untouched_def)
  show ?case
  proof (cases "ent_Type e")
    case EntryNormal
    with Cons show ?thesis
      by (auto simp: bindS_def split: if_splits prod.splits res.splits dest!: applyNormalEntry_keeps intro: trans)
  next
    case EntryConfChange
    with Cons show ?thesis
      by (auto simp: bindS_def split: prod.splits res.splits dest!: applyConfChange_keeps intro: trans)
  qed (use Cons.prems in \<open>auto simp: failS_def\<close>)
qed (simp add: retS_def)

lemma applyEntries_keeps:
  "applyEntries E es n = (r, n') \<Longrightarrow> untouched n n' \<and> (nd_appliedIndex n' = nd_appliedIndex n \<or> es \<noteq> [] \<and> nd_appliedIndex n' = ent_Index (last es))"
  by (auto simp: applyEntries_def bindS_def retS_def untouched_def split: prod.splits res.splits if_splits dest!: apply_loop_keeps)

lemma apply_committed_keeps:
  assumes "in_order es" "apply_committed E es n = Some (r, n')"
  shows "untouched n n' \<and> nd_appliedIndex n \<le> nd_appliedIndex n'"
proof (cases "\<exists>es'. getEntriesToApply es n = Ok es' \<and> es' \<noteq> []")
  case True
  then obtain es' where es': "getEntriesToApply es n = Ok es'" "es' \<noteq> []" by blast
  with assms(2) have "applyEntries E es' n = (r, n')" by (simp add: apply_committed_def bindP_def)
  with applyEntries_keeps entries_last(1) [OF assms(1) es'] show ?thesis by fastforce
next
  case False
  with assms(2) show ?thesis by (auto simp: apply_committed_def bindP_def split: res.splits)
qed

lemma applySnapshot_keeps:
  "applySnapshotToFSM E sn n = (r, n') \<Longrightarrow> untouched n n' \<and> nd_appliedIndex n \<le> nd_appliedIndex n' \<and> nd_transport n' = nd_transport n"
  by (auto simp: applySnapshotToFSM_def on_fsm_def bindS_def untouched_def split: if_splits prod.splits res.splits)

lemma reads_ok_respond: "respondToReadStates rss n = Some (r, n') \<Longrightarrow> reads_ok n \<Longrightarrow> reads_ok n'"
  by (drule respond_changes(1)) (auto simp: reads_ok_def)

lemma reads_ok_mono: "reads_ok n \<Longrightarrow> nd_readStatesNotifier n' = nd_readStatesNotifier n \<Longrightarrow> nd_appliedIndex n \<le> nd_appliedIndex n' \<Longrightarrow> reads_ok n'"
  by (auto simp: reads_ok_def)

text \<open>What a step may change besides the channel of the read states.\<close>

lemma respond_keeps:
  "respondToReadStates rss n = Some (r, n') \<Longrightarrow> nd_storage n' = nd_storage n \<and> nd_transport n' = nd_transport n \<and> nd_db n' = nd_db n
    \<and> nd_appliedIndex n' = nd_appliedIndex n \<and> nd_proposing n' = nd_proposing n"
  by (drule respond_changes(1)) auto

lemma before_save_keeps:
  assumes "quiet_hooks H" "before_save H rd n = Some (r, n')"
  shows "nd_storage n' = nd_storage n \<and> nd_transport n' = nd_transport n \<and> nd_db n' = nd_db n
    \<and> nd_appliedIndex n' = nd_appliedIndex n \<and> (reads_ok n \<longrightarrow> reads_ok n')"
proof -
  obtain q n1 where n1: "(case rd_SoftState rd of Some lead \<Rightarrow> handleLeaderChange H lead | None \<Rightarrow> retP ()) n = Some (q, n1)"
    using assms(2) by (auto simp: before_save_def bindP_def split: option.splits prod.splits)
  then have "quiet n n1" using handleLeaderChange_quiet [OF assms(1)] by (auto split: option.splits)
  moreover have "n' = n1 \<or> (\<exists>rss. respondToReadStates rss n1 = Some (r, n'))"
    using assms(2) n1 by (cases q) (auto simp: before_save_def bindP_def split: option.splits)
  ultimately show ?thesis
    by (auto simp: quiet_def reads_ok_def dest: respond_keeps reads_ok_respond [unfolded reads_ok_def])
qed

lemma finish_keeps:
  assumes "quiet_hooks H" "finish_ready E H rd p sr n = Some (r, n')"
  shows "nd_storage n' = nd_storage n \<and> nd_appliedIndex n' = nd_appliedIndex n \<and> nd_db n' = nd_db n \<and> (reads_ok n \<longrightarrow> reads_ok n')"
proof (cases sr)
  case True
  obtain q n1 where n1: "(case hk_onRemovedSelf H of Some hook \<Rightarrow> hook | None \<Rightarrow> retP ()) (n\<lparr>nd_selfRemoved := True\<rparr>) = Some (q, n1)"
    using assms(2) True by (auto simp: finish_ready_def scheduleSelfRemoval_def bindP_def split: option.splits prod.splits)
  then have "quiet (n\<lparr>nd_selfRemoved := True\<rparr>) n1" using assms(1) by (auto simp: quiet_hooks_def split: option.splits)
  moreover have "n' = n1 \<or> n' = n1\<lparr>nd_proposing := False\<rparr>"
    using assms(2) True n1
    by (cases q) (auto simp: finish_ready_def scheduleSelfRemoval_def bindP_def send_stop_def split: option.splits if_splits)
  ultimately show ?thesis by (auto simp: quiet_def reads_ok_def)
next
  case False
  then obtain q n1 where "n1 = n \<or> (\<exists>rss. respondToReadStates rss n = Some (q, n1))"
    and "n' = n1 \<or> n' = n1\<lparr>nd_snapshots := nd_snapshots n1 + 1, nd_n := n_Advance (ev_raft E) (nd_n n1)\<rparr>"
    using assms(2) by (auto simp: finish_ready_def bindP_def split: option.splits prod.splits if_splits res.splits)
  then show ?thesis
    by (auto simp: reads_ok_def dest: respond_keeps reads_ok_respond [unfolded reads_ok_def])
qed

lemma after_save_keeps:
  assumes "quiet_hooks H" "in_order (rd_CommittedEntries rd)" "after_save E H rd p n = Some (r, n')"
  shows "nd_storage n' = nd_storage n \<and> nd_appliedIndex n \<le> nd_appliedIndex n' \<and> (reads_ok n \<longrightarrow> reads_ok n')"
proof -
  define n1 where "n1 = n\<lparr>nd_transport := transport_Send (getMessagesToPublish rd n) (nd_transport n)\<rparr>"
  have "\<exists>q2 n2. (if \<not> IsEmptySnap (rd_Snapshot rd) then sure (applySnapshotToFSM E (rd_Snapshot rd)) else retP ()) n1 = Some (q2, n2)"
    by (cases "applySnapshotToFSM E (rd_Snapshot rd) n1") (simp add: sure_def retP_def)
  then obtain q2 n2 where n2: "(if \<not> IsEmptySnap (rd_Snapshot rd) then sure (applySnapshotToFSM E (rd_Snapshot rd)) else retP ()) n1 = Some (q2, n2)"
    by blast
  then have u2: "untouched n1 n2 \<and> nd_appliedIndex n1 \<le> nd_appliedIndex n2"
    by (auto split: if_splits dest: applySnapshot_keeps)
  show ?thesis
  proof (cases "n' = n2")
    case True
    with u2 show ?thesis by (auto simp: n1_def untouched_def reads_ok_def intro: order_trans)
  next
    case False
    then obtain q3 n3 where n3: "apply_committed E (rd_CommittedEntries rd) n2 = Some (q3, n3)"
      and fin: "n' = n3 \<or> (\<exists>sr. finish_ready E H rd p sr n3 = Some (r, n'))"
      using assms(3) n2 unfolding after_save_def bindP_def send_messages_def n1_def [symmetric]
      by (auto split: option.splits prod.splits res.splits)
    from apply_committed_keeps [OF assms(2) n3] have "untouched n2 n3" "nd_appliedIndex n2 \<le> nd_appliedIndex n3" by auto
    with u2 have u3: "nd_storage n3 = nd_storage n" "nd_appliedIndex n \<le> nd_appliedIndex n3" "reads_ok n \<longrightarrow> reads_ok n3"
      by (auto simp: n1_def untouched_def reads_ok_def intro: order_trans)
    with fin finish_keeps [OF assms(1)] show ?thesis by fastforce
  qed
qed

text \<open>One \<^verbatim>\<open>Ready\<close>: nothing but the read states changes unless the state was saved, and the storage afterwards is the one saved.\<close>

lemma processReady_saves:
  assumes q: "quiet_hooks H" and c: "in_order (rd_CommittedEntries rd)" and p: "processReady E H rd n = Some (r, n')"
    and s: "SaveState (ev_wal E) (ev_mem E) rd (nd_storage n) = (sr, s')"
  shows "(sr = Ok () \<and> nd_storage n' = s' \<or> r \<noteq> Ok () \<and> nd_transport n' = nd_transport n \<and> nd_db n' = nd_db n \<and> nd_appliedIndex n' = nd_appliedIndex n)
    \<and> nd_appliedIndex n \<le> nd_appliedIndex n' \<and> (reads_ok n \<longrightarrow> reads_ok n')"
proof -
  obtain q1 n1 where n1: "before_save H rd n = Some (q1, n1)"
    using p by (auto simp: processReady_stages bindP_def split: option.splits)
  note k1 = before_save_keeps [OF q n1]
  define n2 where "n2 = n1\<lparr>nd_storage := s'\<rparr>"
  have "on_storage (SaveState (ev_wal E) (ev_mem E) rd) n1 = (sr, n2)" using s k1 by (simp add: on_storage_def n2_def)
  with p n1 consider "r \<noteq> Ok ()" "n' = n1" | "sr \<noteq> Ok ()" "r \<noteq> Ok ()" "n' = n2"
    | pend where "sr = Ok ()" "after_save E H rd pend n2 = Some (r, n')"
    by (auto simp: processReady_stages bindP_def sure_def split: res.splits)
  then show ?thesis
  proof cases
    case 3
    from after_save_keeps [OF q c 3(2)] k1 3(1) show ?thesis by (auto simp: n2_def reads_ok_def)
  qed (use k1 in \<open>auto simp: n2_def reads_ok_def\<close>)
qed

section \<open>Lemmas on the log\<close>

lemma apply_all_append: "apply_all F (xs @ ys) = bindS (apply_all F xs) (\<lambda>_. apply_all F ys)"
  by (induction xs) (simp_all add: bindS_assoc)

lemma slice_in_order:
  assumes "indexed log"
  shows "in_order (take k (drop j log))"
  using assms by (cases "take k (drop j log) = []") (auto simp: in_order_def consecutive_def indexed_def hd_conv_nth unat_eq_0 [symmetric])

lemma apply_loop_db:
  assumes "apply_loop E sr es n = (Ok sr', n')" "\<forall>e \<in> set es. nd_appliedIndex n < ent_Index e"
  shows "apply_all (ev_fsm E) es (nd_db n) = (Ok (), nd_db n')"
  using assms
proof (induction es arbitrary: sr n)
  case (Cons e es)
  show ?case
  proof (cases "ent_Type e")
    case EntryNormal
    show ?thesis
    proof (cases "ent_Data e = []")
      case False
      with Cons.prems EntryNormal obtain n1 where n1: "applyNormalEntry E e n = (Ok (), n1)" "apply_loop E sr es n1 = (Ok sr', n')"
        by (auto elim!: bindS_OkE)
      then have "fa_Apply (ev_fsm E) (ent_Data e) (nd_db n) = (Ok (), nd_db n1)"
        using Cons.prems(2) by (auto simp: applyNormalEntry_def on_fsm_def split: prod.splits if_splits)
      moreover have "apply_all (ev_fsm E) es (nd_db n1) = (Ok (), nd_db n')"
        using Cons.IH [OF n1(2)] Cons.prems(2) applyNormalEntry_keeps [OF n1(1)] by simp
      ultimately show ?thesis using EntryNormal False by (simp add: bindS_def)
    qed (use Cons EntryNormal in simp)
  next
    case EntryConfChange
    with Cons.prems obtain sr1 n1 where n1: "applyConfChange E e n = (Ok sr1, n1)" "apply_loop E sr1 es n1 = (Ok sr', n')"
      by (auto elim!: bindS_OkE)
    with Cons.IH [OF n1(2)] Cons.prems(2) applyConfChange_keeps [OF n1(1)] EntryConfChange show ?thesis by simp
  qed (use Cons.prems in \<open>auto simp: failS_def\<close>)
qed (simp add: retS_def)

context replica_fsm
begin

lemma apply_all_obs:
  "obs d1 = obs d2 \<Longrightarrow> apply_all F es d1 = (Ok (), e1) \<Longrightarrow> \<exists>e2. apply_all F es d2 = (Ok (), e2) \<and> obs e2 = obs e1"
proof (induction es arbitrary: d1 d2)
  case (Cons e es)
  let ?f = "if ent_Type e = EntryNormal \<and> ent_Data e \<noteq> [] then fa_Apply F (ent_Data e) else retS ()"
  from Cons.prems(2) obtain x where x: "?f d1 = (Ok (), x)" "apply_all F es x = (Ok (), e1)" by (auto elim!: bindS_OkE simp del: if_split)
  have "\<exists>y. ?f d2 = (Ok (), y) \<and> obs y = obs x" using x(1) Cons.prems(1) apply_obs by (auto simp: retS_def split: if_splits)
  then obtain y where "?f d2 = (Ok (), y)" "obs x = obs y" by auto
  with Cons.IH [OF _ x(2)] show ?case by (simp add: bindS_def)
qed (simp add: retS_def)

lemma at_index_step:
  assumes "at_index F obs log d0 a d" "apply_all F (take m (drop a log)) d = (Ok (), d')" "a + m \<le> length log"
  shows "at_index F obs log d0 (a + m) d'"
proof -
  from assms(1) obtain x where x: "apply_all F (take a log) d0 = (Ok (), x)" "obs x = obs d" by (auto simp: at_index_def)
  from apply_all_obs [OF x(2) [symmetric] assms(2)] obtain y where y: "apply_all F (take m (drop a log)) x = (Ok (), y)" "obs y = obs d'" by blast
  have "take (a + m) log = take a log @ take m (drop a log)" by (simp add: take_add)
  with x(1) y assms(3) show ?thesis by (auto simp: at_index_def apply_all_append bindS_def)
qed

lemma apply_committed_at:
  assumes log: "indexed log" and E: "ev_fsm E = F" and d: "at_index F obs log d0 (unat (nd_appliedIndex n)) (nd_db n)"
    and ok: "apply_committed E (take k (drop j log)) n = Some (Ok sr, n')"
  shows "at_index F obs log d0 (unat (nd_appliedIndex n')) (nd_db n')"
proof -
  let ?es = "take k (drop j log)" and ?a = "unat (nd_appliedIndex n)"
  obtain es' where es': "getEntriesToApply ?es n = Ok es'" using ok by (auto simp: apply_committed_def bindP_def split: res.splits)
  show ?thesis
  proof (cases "es' = []")
    case True
    with ok es' d show ?thesis by (simp add: apply_committed_def bindP_def)
  next
    case False
    note io = slice_in_order [OF log, of k j]
    obtain i where i: "es' = drop i ?es" "i < length ?es" "unat (ent_Index (hd ?es)) + i = ?a + 1"
      using entries_to_apply [OF io es' False] by blast
    then have "hd ?es = log ! j" "j < length log" by (auto simp: hd_conv_nth)
    then have "j + i = ?a" using log i(3) by (simp add: indexed_def)
    then have sl: "es' = take (k - i) (drop ?a log)" using i(1) by (simp add: drop_take add.commute)
    then have len: "es' = take (length es') (drop ?a log)" by (metis append_eq_conv_conj append_take_drop_id)
    have le: "?a + length es' \<le> length log" using sl d by (auto simp: at_index_def min_def)
    have ap: "applyEntries E es' n = (Ok sr, n')" using ok es' False by (simp add: apply_committed_def bindP_def)
    then obtain n1 where n1: "apply_loop E False es' n = (Ok sr, n1)" "n' = n1\<lparr>nd_appliedIndex := ent_Index (last es')\<rparr>"
      using False by (auto simp: applyEntries_def elim!: bindS_OkE)
    note last = entries_last [OF io es' False]
    have "\<forall>e \<in> set es'. nd_appliedIndex n < ent_Index e" using last(2) by (auto simp: in_set_conv_nth word_less_nat_alt)
    with apply_loop_db [OF n1(1)] E have "apply_all F es' (nd_db n) = (Ok (), nd_db n1)" by simp
    with at_index_step [OF d _ le] len have "at_index F obs log d0 (?a + length es') (nd_db n1)" by metis
    moreover have "unat (ent_Index (last es')) = ?a + length es'" using last(2) False by (simp add: last_conv_nth)
    ultimately show ?thesis using n1(2) by simp
  qed
qed

lemma processReady_at:
  assumes log: "indexed log" and E: "ev_fsm E = F" and q: "quiet_hooks H" and rd: "ready_for F obs log d0 rd"
    and d: "at_index F obs log d0 (unat (nd_appliedIndex n)) (nd_db n)" and p: "processReady E H rd n = Some (Ok (), n')"
  shows "at_index F obs log d0 (unat (nd_appliedIndex n')) (nd_db n')"
proof -
  obtain pend n1 n2 where n1: "before_save H rd n = Some (Ok pend, n1)"
    and n2: "on_storage (SaveState (ev_wal E) (ev_mem E) rd) n1 = (Ok (), n2)" and a: "after_save E H rd pend n2 = Some (Ok (), n')"
    using p by (auto simp: processReady_stages bindP_Ok_iff)
  have d2: "at_index F obs log d0 (unat (nd_appliedIndex n2)) (nd_db n2)"
    using d before_save_keeps [OF q n1] n2 by (auto simp: on_storage_def split: prod.splits)
  define n3 where "n3 = n2\<lparr>nd_transport := transport_Send (getMessagesToPublish rd n2) (nd_transport n2)\<rparr>"
  obtain n4 sr n5 where n4: "(if \<not> IsEmptySnap (rd_Snapshot rd) then sure (applySnapshotToFSM E (rd_Snapshot rd)) else retP ()) n3 = Some (Ok (), n4)"
    and n5: "apply_committed E (rd_CommittedEntries rd) n4 = Some (Ok sr, n5)" and fin: "finish_ready E H rd pend sr n5 = Some (Ok (), n')"
    using a by (auto simp: after_save_def send_messages_def bindP_Ok_iff n3_def)
  have "at_index F obs log d0 (unat (nd_appliedIndex n4)) (nd_db n4)"
  proof (cases "IsEmptySnap (rd_Snapshot rd)")
    case True
    with n4 d2 show ?thesis by (auto simp: n3_def)
  next
    case False
    with n4 E obtain x where "fa_RestoreSnapshot F (snap_Data (rd_Snapshot rd)) (nd_db n3) = (Ok (), x)" "nd_db n4 = x"
      "nd_appliedIndex n4 = snap_Index (rd_Snapshot rd)"
      by (auto simp: applySnapshotToFSM_def on_fsm_def bindS_def split: if_splits prod.splits res.splits)
    with rd False show ?thesis by (auto simp: ready_for_def snap_at_def)
  qed
  moreover obtain j k where "rd_CommittedEntries rd = take k (drop j log)" using rd by (auto simp: ready_for_def)
  ultimately have "at_index F obs log d0 (unat (nd_appliedIndex n5)) (nd_db n5)"
    using apply_committed_at [OF log E] n5 by metis
  with finish_keeps [OF q fin] show ?thesis by simp
qed

end

lemma ready_loop_induct:
  assumes "ready_loop E H evs n = Some (Ok True, n')" "P n"
    and "\<And>n rd n'. EvReady rd \<in> set evs \<Longrightarrow> P n \<Longrightarrow> processReady E H rd n = Some (Ok (), n') \<Longrightarrow> P n'"
    and "\<And>n. P n \<Longrightarrow> P (n\<lparr>nd_n := n_Tick (ev_raft E) (nd_n n)\<rparr>)"
  shows "P n'"
  using assms
proof (induction evs arbitrary: n)
  case (Cons ev evs)
  then obtain n1 where n1: "ready_select E H ev n = Some (Ok True, n1)" "ready_loop E H evs n1 = Some (Ok True, n')"
    by (auto simp: bindP_Ok_iff split: if_splits)
  have "P n1" using n1(1) Cons.prems(2,4) Cons.prems(3) [of _ n n1]
    by (cases ev) (auto simp: ready_select_def split: if_splits option.splits prod.splits res.splits)
  with Cons.IH [OF n1(2)] Cons.prems(3,4) show ?case by auto
qed simp

lemma settle_Ok [simp]: "settle f n = Some (Ok u, n') \<longleftrightarrow> f n = Some (Ok u, n')"
  by (auto simp: settle_def)

lemma quiet_settled:
  assumes "calm_hooks H"
  shows "quiet_hooks (settled H)"
  using assms unfolding quiet_hooks_def calm_hooks_def settled_def settle_def
  by (auto split: if_splits elim!: is_Ok.elims)

lemma handleLeaderChange_settled: "handleLeaderChange H lead n = Some (Ok u, n') \<Longrightarrow> handleLeaderChange (settled H) lead n = Some (Ok u, n')"
  by (cases "hk_onLeaderChange H") (auto simp: handleLeaderChange_def settled_def Let_def split: if_splits)

lemma scheduleSelfRemoval_settled: "scheduleSelfRemoval H n = Some (Ok u, n') \<Longrightarrow> scheduleSelfRemoval (settled H) n = Some (Ok u, n')"
  by (cases "hk_onRemovedSelf H") (auto simp: scheduleSelfRemoval_def settled_def bindP_Ok_iff)

lemma bindP_mono:
  "bindP m f s = Some (Ok b, t) \<Longrightarrow> (\<And>a u. f a u = Some (Ok b, t) \<Longrightarrow> g a u = Some (Ok b, t)) \<Longrightarrow> bindP m g s = Some (Ok b, t)"
  by (meson bindP_Ok_iff)

lemma before_save_settled:
  assumes "before_save H rd n = Some (Ok p, n1)"
  shows "before_save (settled H) rd n = Some (Ok p, n1)"
proof (cases "rd_SoftState rd")
  case (Some lead)
  with assms show ?thesis unfolding before_save_def bindP_Ok_iff by (auto dest: handleLeaderChange_settled)
qed (use assms in \<open>simp add: before_save_def\<close>)

lemma after_save_settled:
  assumes "after_save E H rd p n = Some (Ok (), n')"
  shows "after_save E (settled H) rd p n = Some (Ok (), n')"
proof -
  have "finish_ready E H rd p sr m = Some (Ok (), n') \<Longrightarrow> finish_ready E (settled H) rd p sr m = Some (Ok (), n')" for sr m
    using scheduleSelfRemoval_settled [of H m "()" n'] by (simp add: finish_ready_def split: if_splits)
  then show ?thesis using assms unfolding after_save_def by (elim bindP_mono)
qed

lemma processReady_settled:
  assumes "processReady E H rd n = Some (Ok (), n')"
  shows "processReady E (settled H) rd n = Some (Ok (), n')"
proof -
  obtain p n1 where n1: "before_save H rd n = Some (Ok p, n1)"
    and r: "bindP (sure (on_storage (SaveState (ev_wal E) (ev_mem E) rd))) (\<lambda>_. after_save E H rd p) n1 = Some (Ok (), n')"
    using assms unfolding processReady_stages bindP_Ok_iff [of "before_save H rd"] by blast
  have "bindP (sure (on_storage (SaveState (ev_wal E) (ev_mem E) rd))) (\<lambda>_. after_save E (settled H) rd p) n1 = Some (Ok (), n')"
    using r by (rule bindP_mono) (rule after_save_settled)
  then show ?thesis using before_save_settled [OF n1] unfolding processReady_stages bindP_Ok_iff [of "before_save (settled H) rd"] by blast
qed

lemma ready_loop_settled:
  "ready_loop E H evs n = Some (Ok True, n') \<Longrightarrow> ready_loop E (settled H) evs n = Some (Ok True, n')"
proof (induction evs arbitrary: n)
  case (Cons ev evs)
  then obtain n1 where n1: "ready_select E H ev n = Some (Ok True, n1)" "ready_loop E H evs n1 = Some (Ok True, n')"
    by (auto simp: bindP_Ok_iff split: if_splits)
  have "ready_select E (settled H) ev n = Some (Ok True, n1)"
  proof (cases ev)
    case (EvReady rd)
    then show ?thesis using n1(1) processReady_settled [of E H rd n n1]
      by (auto simp: ready_select_def split: if_splits option.splits prod.splits res.splits)
  qed (use n1(1) in \<open>simp_all add: ready_select_def\<close>)
  then show ?case using Cons.IH [OF n1(2)] by (auto simp: bindP_Ok_iff)
qed simp

lemma no_hooks_calm [simp]: "calm_hooks no_hooks"
  by (simp add: calm_hooks_def no_hooks_def)

context replica_fsm begin

lemma ready_loop_at:
  assumes "indexed log" "ev_fsm E = F" "calm_hooks H" "\<forall>rd. EvReady rd \<in> set evs \<longrightarrow> ready_for F obs log d0 rd"
    and "at_index F obs log d0 (unat (nd_appliedIndex n)) (nd_db n)" and "ready_loop E H evs n = Some (Ok True, n')"
  shows "at_index F obs log d0 (unat (nd_appliedIndex n')) (nd_db n') \<and> nd_appliedIndex n \<le> nd_appliedIndex n'"
proof (rule ready_loop_induct [OF ready_loop_settled [OF assms(6)]])
  note q = quiet_settled [OF assms(3)]
  fix m rd m'
  assume rd: "EvReady rd \<in> set evs" and m: "at_index F obs log d0 (unat (nd_appliedIndex m)) (nd_db m) \<and> nd_appliedIndex n \<le> nd_appliedIndex m"
    and p: "processReady E (settled H) rd m = Some (Ok (), m')"
  from assms(4) rd have r: "ready_for F obs log d0 rd" by blast
  then have "in_order (rd_CommittedEntries rd)" using slice_in_order [OF assms(1)] by (auto simp: ready_for_def)
  then have "nd_appliedIndex m \<le> nd_appliedIndex m'"
    using processReady_saves [OF q _ p] by (cases "SaveState (ev_wal E) (ev_mem E) rd (nd_storage m)") blast
  with processReady_at [OF assms(1,2) q r _ p] m
  show "at_index F obs log d0 (unat (nd_appliedIndex m')) (nd_db m') \<and> nd_appliedIndex n \<le> nd_appliedIndex m'" by auto
qed (use assms(5) in auto)

end

section \<open>Lemmas on removal and on returning\<close>

lemma applyConfChange_removes: "applyConfChange E e n = (Ok sr, n') \<Longrightarrow> sr = removes_self E (nd_id n) e"
  by (auto simp: applyConfChange_def removes_self_def on_transport_def bindS_def liftR_def retS_def Let_def
      split: if_splits prod.splits res.splits ConfChangeType.splits)

lemma apply_loop_removes:
  "apply_loop E sr es n = (Ok sr', n') \<Longrightarrow>
    sr' = (if filter is_change es = [] then sr else removes_self E (nd_id n) (last (filter is_change es)))"
proof (induction es arbitrary: sr n)
  case (Cons e es)
  show ?case
  proof (cases "ent_Type e")
    case EntryNormal
    have "\<exists>n1. apply_loop E sr es n1 = (Ok sr', n') \<and> nd_id n1 = nd_id n"
    proof (cases "ent_Data e = []")
      case False
      with Cons.prems EntryNormal obtain n1 where n1: "applyNormalEntry E e n = (Ok (), n1)" "apply_loop E sr es n1 = (Ok sr', n')"
        by (auto elim!: bindS_OkE)
      with applyNormalEntry_keeps [OF n1(1)] show ?thesis by (auto simp: untouched_def)
    qed (use Cons.prems EntryNormal in auto)
    then obtain n1 where n1: "apply_loop E sr es n1 = (Ok sr', n')" "nd_id n1 = nd_id n" by blast
    moreover have "\<not> is_change e" using EntryNormal by (simp add: is_change_def)
    ultimately show ?thesis using Cons.IH [OF n1(1)] by simp
  next
    case EntryConfChange
    with Cons.prems obtain sr1 n1 where n1: "applyConfChange E e n = (Ok sr1, n1)" "apply_loop E sr1 es n1 = (Ok sr', n')"
      by (auto elim!: bindS_OkE)
    have "nd_id n1 = nd_id n" using applyConfChange_keeps [OF n1(1)] by (simp add: untouched_def)
    moreover have "is_change e" using EntryConfChange by (simp add: is_change_def)
    ultimately show ?thesis using Cons.IH [OF n1(2)] applyConfChange_removes [OF n1(1)] by simp
  qed (use Cons.prems in \<open>auto simp: failS_def\<close>)
qed (simp add: retS_def)

lemma respond_returns:
  assumes "length (nd_readStatesNotifier n) < readStatesCap"
  shows "\<exists>p n'. respondToReadStates rss n = Some (Ok p, n') \<and> length (nd_readStatesNotifier n') \<le> length (nd_readStatesNotifier n) + 1
    \<and> nd_proposing n' = nd_proposing n"
  using assms by (auto simp: respondToReadStates_def send_readState_def bindP_def retP_def split: option.split)

lemma handleLeaderChange_returns:
  assumes "hooks_return H"
  shows "\<exists>q n1. handleLeaderChange H lead n = Some (q, n1) \<and> nd_proposing n1 = nd_proposing n"
proof (cases "hk_onLeaderChange H")
  case (Some hook)
  have "\<exists>r n'. hook (nd_lead n) lead (n\<lparr>nd_lead := lead\<rparr>) = Some (r, n') \<and> nd_proposing n' = nd_proposing (n\<lparr>nd_lead := lead\<rparr>)"
    using assms [unfolded hooks_return_def] Some by blast
  then obtain r n' where h: "hook (nd_lead n) lead (n\<lparr>nd_lead := lead\<rparr>) = Some (r, n')" "nd_proposing n' = nd_proposing n" by auto
  then show ?thesis using Some by (cases "lead = nd_lead n") (simp_all add: handleLeaderChange_def Let_def)
qed (simp add: handleLeaderChange_def Let_def)

lemma before_save_returns:
  assumes "quiet_hooks H" "hooks_return H" "nd_readStatesNotifier n = []"
  shows "\<exists>r n'. before_save H rd n = Some (r, n') \<and> length (nd_readStatesNotifier n') < readStatesCap \<and> nd_proposing n' = nd_proposing n"
proof -
  have "\<exists>q n1. (case rd_SoftState rd of Some lead \<Rightarrow> handleLeaderChange H lead | None \<Rightarrow> retP ()) n = Some (q, n1) \<and> nd_proposing n1 = nd_proposing n"
    using handleLeaderChange_returns [OF assms(2)] by (cases "rd_SoftState rd") (simp_all add: retP_def)
  then obtain q n1 where n1: "(case rd_SoftState rd of Some lead \<Rightarrow> handleLeaderChange H lead | None \<Rightarrow> retP ()) n = Some (q, n1)"
    and p: "nd_proposing n1 = nd_proposing n" by blast
  then have "quiet n n1" using handleLeaderChange_quiet [OF assms(1)] by (auto split: option.splits)
  then have k: "nd_readStatesNotifier n1 = []" "nd_proposing n1 = nd_proposing n" using assms(3) p by (simp_all add: quiet_def)
  show ?thesis
  proof (cases q)
    case (Ok u)
    have "\<exists>r n'. (case rd_ReadStates rd of Some readStates \<Rightarrow> respondToReadStates readStates | None \<Rightarrow> retP []) n1 = Some (r, n')
        \<and> length (nd_readStatesNotifier n') < readStatesCap \<and> nd_proposing n' = nd_proposing n1"
      using respond_returns [of n1] k(1) by (cases "rd_ReadStates rd") (auto simp: readStatesCap_def retP_def, fastforce)
    with n1 Ok k(2) show ?thesis by (auto simp: before_save_def bindP_def)
  qed (use n1 k in \<open>auto simp: before_save_def bindP_def readStatesCap_def\<close>)
qed

lemma finish_returns:
  assumes "quiet_hooks H" "hooks_return H" "length (nd_readStatesNotifier n) < readStatesCap" "nd_proposing n"
  shows "finish_ready E H rd p sr n \<noteq> None"
proof (cases sr)
  case True
  have "\<exists>q n1. (case hk_onRemovedSelf H of Some hook \<Rightarrow> hook | None \<Rightarrow> retP ()) (n\<lparr>nd_selfRemoved := True\<rparr>) = Some (q, n1) \<and> nd_proposing n1"
  proof (cases "hk_onRemovedSelf H")
    case (Some hook)
    have "\<exists>r n'. hook (n\<lparr>nd_selfRemoved := True\<rparr>) = Some (r, n') \<and> nd_proposing n' = nd_proposing (n\<lparr>nd_selfRemoved := True\<rparr>)"
      using assms(2) [unfolded hooks_return_def] Some by blast
    with Some assms(4) show ?thesis by auto
  qed (use assms(4) in \<open>simp add: retP_def\<close>)
  then obtain q n1 where n1: "(case hk_onRemovedSelf H of Some hook \<Rightarrow> hook | None \<Rightarrow> retP ()) (n\<lparr>nd_selfRemoved := True\<rparr>) = Some (q, n1)"
    "nd_proposing n1" by blast
  with n1 True show ?thesis by (cases q) (simp_all add: finish_ready_def scheduleSelfRemoval_def bindP_def send_stop_def)
next
  case False
  with respond_returns [OF assms(3), of p] show ?thesis by (auto simp: finish_ready_def bindP_def retP_def)
qed

lemma apply_committed_returns:
  assumes "length (nd_readStatesNotifier n) < readStatesCap \<and> nd_proposing n"
  shows "\<exists>q n'. apply_committed E es n = Some (q, n') \<and> length (nd_readStatesNotifier n') < readStatesCap \<and> nd_proposing n'"
proof (cases "\<exists>es'. getEntriesToApply es n = Ok es' \<and> es' \<noteq> []")
  case True
  then obtain es' where e: "getEntriesToApply es n = Ok es'" "es' \<noteq> []" by blast
  obtain q n' where a: "applyEntries E es' n = (q, n')" by fastforce
  from applyEntries_keeps [OF a] assms have "length (nd_readStatesNotifier n') < readStatesCap \<and> nd_proposing n'" by (simp add: untouched_def)
  with e a show ?thesis by (simp add: apply_committed_def bindP_def sure_def)
qed (use assms in \<open>auto simp: apply_committed_def bindP_def retP_def split: res.split\<close>)

lemma after_save_returns:
  assumes "quiet_hooks H" "hooks_return H" "length (nd_readStatesNotifier n) < readStatesCap" "nd_proposing n"
  shows "after_save E H rd p n \<noteq> None"
proof -
  define n1 where "n1 = n\<lparr>nd_transport := transport_Send (getMessagesToPublish rd n) (nd_transport n)\<rparr>"
  have sn: "\<exists>q2 n2. (if \<not> IsEmptySnap (rd_Snapshot rd) then sure (applySnapshotToFSM E (rd_Snapshot rd)) else retP ()) n1 = Some (q2, n2)
      \<and> length (nd_readStatesNotifier n2) < readStatesCap \<and> nd_proposing n2"
    using applySnapshot_keeps [of E "rd_Snapshot rd" n1] assms(3,4)
    by (cases "applySnapshotToFSM E (rd_Snapshot rd) n1") (auto simp: sure_def retP_def n1_def untouched_def)
  obtain q2 n2 where n2: "(if \<not> IsEmptySnap (rd_Snapshot rd) then sure (applySnapshotToFSM E (rd_Snapshot rd)) else retP ()) n1 = Some (q2, n2)"
    "length (nd_readStatesNotifier n2) < readStatesCap \<and> nd_proposing n2" using sn by blast
  obtain q3 n3 where n3: "apply_committed E (rd_CommittedEntries rd) n2 = Some (q3, n3)"
    "length (nd_readStatesNotifier n3) < readStatesCap" "nd_proposing n3" using apply_committed_returns [OF n2(2)] by blast
  show ?thesis using n2(1) n3(1) finish_returns [OF assms(1,2) n3(2,3)]
    unfolding after_save_def bindP_def send_messages_def n1_def [symmetric] by (auto split: res.split)
qed

section \<open>Properties\<close>





text \<open>C15: a reader is woken only when the database has caught up. Every read state in the channel has an index that the applied
  index has reached, at all times while the ready loop runs, so \<^verbatim>\<open>WaitForReadState\<close> returns none that is ahead.\<close>

theorem read_states_confirmed:
  assumes "calm_hooks H" "\<forall>rd. EvReady rd \<in> set evs \<longrightarrow> in_order (rd_CommittedEntries rd)" "reads_ok n"
    and "ready_loop E H evs n = Some (Ok True, n')" "WaitForReadState ended n' = (Ok rs, n'')"
  shows "rs_Index rs \<le> nd_appliedIndex n'' \<and> reads_ok n''"
proof -
  have "reads_ok n'"
  proof (rule ready_loop_induct [OF ready_loop_settled [OF assms(4)], where P = reads_ok])
    fix m rd m'
    assume "EvReady rd \<in> set evs" "reads_ok m" "processReady E (settled H) rd m = Some (Ok (), m')"
    then show "reads_ok m'" using processReady_saves [OF quiet_settled [OF assms(1)]] assms(2)
      by (cases "SaveState (ev_wal E) (ev_mem E) rd (nd_storage m)") blast
  qed (use assms(3) in \<open>simp_all add: reads_ok_def\<close>)
  with assms(5) show ?thesis by (auto simp: WaitForReadState_def reads_ok_def split: list.splits)
qed

theorem read_states_confirmed_witness:
  "\<exists>rs n''. WaitForReadState ErrContextDone demo_after = (Ok rs, n'') \<and> rs_Index rs \<le> nd_appliedIndex n''"
proof -
  have run: "ready_loop demo_node_env no_hooks demo_events demo_node = Some (Ok True, demo_after)"
    and w: "WaitForReadState ErrContextDone demo_after = (Ok \<lparr>rs_Index = 2, rs_RequestCtx = [9]\<rparr>, demo_after\<lparr>nd_readStatesNotifier := []\<rparr>)"
    and r: "reads_ok demo_node"
    by (simp_all add: WaitForReadState_def) code_simp+
  have "\<forall>rd. EvReady rd \<in> set demo_events \<longrightarrow> in_order (rd_CommittedEntries rd)"
    by (auto simp: demo_events_def in_order_def consecutive_def demo_entry_def less_Suc_eq)
  from read_states_confirmed [OF no_hooks_calm this r run w] w show ?thesis by blast
qed

text \<open>C38: a removal followed by another membership change goes unnoticed. \<^verbatim>\<open>applyEntries\<close> reports whether the last configuration
  change of the batch removes the node, whatever the earlier ones did; the caller then carries on as a member.\<close>

theorem removal_overwritten:
  assumes "applyEntries E es n = (Ok selfRemove, n')"
  shows "selfRemove \<longleftrightarrow> filter is_change es \<noteq> [] \<and> removes_self E (nd_id n) (last (filter is_change es))"
  using assms apply_loop_removes by (fastforce simp: applyEntries_def elim!: bindS_OkE split: if_splits)

text \<open>Node 1 is removed and node 2 is removed after it.\<close>

theorem removal_overwritten_witness:
  "let change = (\<lambda>i x. \<lparr>ent_Term = 1, ent_Index = i, ent_Type = EntryConfChange, ent_Data = enc_words [1, x]\<rparr>);
     es = [change 1 1, change 2 2] in
   removes_self demo_node_env (nd_id demo_node) (hd es) \<and> (\<exists>n'. applyEntries demo_node_env es demo_node = (Ok False, n'))"
proof -
  let ?c = "\<lambda>i x. \<lparr>ent_Term = 1, ent_Index = i, ent_Type = EntryConfChange, ent_Data = enc_words [1, x]\<rparr>"
  let ?es = "[?c 1 1, ?c 2 2]"
  have r: "removes_self demo_node_env (nd_id demo_node) (?c 1 1)" and ok: "is_Ok (fst (applyEntries demo_node_env ?es demo_node))"
    and l: "\<not> (filter is_change ?es \<noteq> [] \<and> removes_self demo_node_env (nd_id demo_node) (last (filter is_change ?es)))"
    by code_simp+
  then obtain sr n' where "applyEntries demo_node_env ?es demo_node = (Ok sr, n')"
    by (cases "applyEntries demo_node_env ?es demo_node"; cases "fst (applyEntries demo_node_env ?es demo_node)") auto
  with removal_overwritten [OF this] l r show ?thesis by auto
qed



end
