(* ===== verification/Recovery.thy ===== *)
theory Recovery
  imports Fsm Replica
begin

text \<open>
  The state machine of \<^verbatim>\<open>fsm.go\<close> as the one a node drives, and what a node does to its database after a restart: the
  database keeps what was applied before the crash, but the applied index goes back to the last snapshot, so
  the entries behind it are applied again.
\<close>

section \<open>The state machine of a node\<close>

definition fsm_of ::
    "('d, 't, 'j, 'm, 'fd, 'set, 'files, 'desc) libs \<Rightarrow> 'd backup_api \<Rightarrow> ctx \<Rightarrow> 'd fsm_api" where
  "fsm_of L K ctx = \<lparr>fa_Apply = fsm_Apply L ctx, fa_RestoreSnapshot = fsm_RestoreSnapshot K, fa_CreateSnapshot = fsm_CreateSnapshot K\<rparr>"

text \<open>A backup of the database in memory: the number of versions in unary, then the versions, as 64-bit words.\<close>

definition ver_words :: "u64 \<times> key \<times> bytes option \<Rightarrow> u64 list" where
  "ver_words e = (case e of (t, k, v) \<Rightarrow> t # enc_list (map (\<lambda>c. of_nat (of_char c)) k) @ (case v of None \<Rightarrow> [0] | Some b \<Rightarrow> 1 # enc_list (map ucast b)))"

definition dec_ver :: "u64 list \<Rightarrow> (u64 \<times> key \<times> bytes option) \<times> u64 list" where
  "dec_ver ws =
     (case dec_list (tl ws) of (k, r) \<Rightarrow>
        if hd r = 0 then ((hd ws, map (\<lambda>w. char_of (unat w)) k, None), tl r)
        else (case dec_list (tl r) of (b, r') \<Rightarrow> ((hd ws, map (\<lambda>w. char_of (unat w)) k, Some (map ucast b)), r')))"

fun dec_vers :: "nat \<Rightarrow> u64 list \<Rightarrow> mvcc" where
  "dec_vers 0 ws = []"
| "dec_vers (Suc n) ws = (case dec_ver ws of (e, r) \<Rightarrow> e # dec_vers n r)"

definition mem_backup :: "mvcc backup_api" where
  "mem_backup =
     \<lparr>bk_Backup = (\<lambda>since d. let m = filter (\<lambda>e. since \<le> fst e) d in
        Ok (foldr max (map fst m) 0, enc_words (map (\<lambda>_. 1) m @ 0 # concat (map ver_words m)))),
      bk_DropAll = (\<lambda>d. (Ok (), [])),
      bk_Load = (\<lambda>b pending d. let ws = dec_words b; n = length (takeWhile (\<lambda>w. w = 1) ws) in (Ok (), dec_vers n (drop (n + 1) ws) @ d))\<rparr>"

section \<open>Applying a log again\<close>

text \<open>Commands that write without reading, and what they write.\<close>

definition blind_sub :: "Command \<Rightarrow> bool" where
  "blind_sub sc \<longleftrightarrow> plain_cmd sc \<and> cmd_Type sc \<in> {SET, DELETE}"

definition blind :: "Command \<Rightarrow> bool" where
  "blind c \<longleftrightarrow> cmd_CommitTs c \<noteq> 0 \<and> (if cmd_Type c = TRANSACTION then \<forall>sc \<in> set (cmd_SubCommands c). blind_sub sc else blind_sub c)"

definition sub_write :: "Command \<Rightarrow> key \<times> bytes option" where
  "sub_write sc = (cmd_Key sc, if cmd_Type sc = SET then Some (cmd_Value sc) else None)"

definition writes_of :: "Command \<Rightarrow> (key \<times> bytes option) list" where
  "writes_of c = map sub_write (if cmd_Type c = TRANSACTION then cmd_SubCommands c else [c])"

fun apply_log :: "('d, 't, 'j, 'm, 'fd, 'set, 'files, 'desc) libs \<Rightarrow> ctx \<Rightarrow> bytes list \<Rightarrow> ('d, unit) call" where
  "apply_log L ctx [] = retS ()"
| "apply_log L ctx (b # bs) = bindS (fsm_Apply L ctx b) (\<lambda>_. apply_log L ctx bs)"

definition blind_log :: "cmd_codec \<Rightarrow> ((key \<times> bytes option) list \<Rightarrow> bool) \<Rightarrow> bytes list \<Rightarrow> bool" where
  "blind_log C cap bs \<longleftrightarrow> (\<forall>b \<in> set bs. \<exists>c. DecodeCommand C b = Ok c \<and> blind c \<and> cap (writes_of c))"

text \<open>A log that sets a key and deletes it again.\<close>

definition replay_libs :: "(mvcc, mem_txn, unit, bytes, unit, string list, string list, string) libs" where
  "replay_libs = demo_libs\<lparr>lib_codec := \<lparr>codec_Marshal = (\<lambda>c. Ok []), codec_Unmarshal = (\<lambda>b. Ok
     (if b = [1] then set_CommitTs 5 (NewSetCommand ''s'' ''x'' [1] []) else set_CommitTs 7 (NewDeleteCommand ''d'' ''x'')))\<rparr>\<rparr>"

text \<open>The later of two versions, the first if they are of the same time.\<close>

fun later_version :: "(u64 \<times> bytes option) option \<Rightarrow> (u64 \<times> bytes option) option \<Rightarrow> (u64 \<times> bytes option) option" where
  "later_version a None = a"
| "later_version None b = b"
| "later_version (Some (t, v)) (Some (t', v')) = (if t' \<le> t then Some (t, v) else Some (t', v'))"

section \<open>Lemmas\<close>

lemma char_word [simp]: "char_of (unat (of_nat (of_char c) :: u64)) = c"
proof -
  have "n < 256 \<Longrightarrow> unat (of_nat n :: u64) = n" for n :: nat by (simp add: unat_of_nat)
  from this [of "of_char c"] show ?thesis by simp
qed

lemma dec_ver_words [simp]: "dec_ver (ver_words e @ r) = (e, r)"
  by (cases e) (auto simp: ver_words_def dec_ver_def comp_def simp del: dec_list.simps split: option.split)

lemma dec_vers_words [simp]: "dec_vers (length m) (concat (map ver_words m)) = m"
  by (induction m) auto

lemma takeWhile_ones: "takeWhile (\<lambda>w. w = (1 :: u64)) (map (\<lambda>_. 1) m @ 0 # r) = map (\<lambda>_. 1) m"
  by (induction m) auto

lemma mem_restore: "fsm_CreateSnapshot mem_backup d = Ok (t, b) \<Longrightarrow> fsm_RestoreSnapshot mem_backup b d1 = (Ok (), d)"
  by (auto simp: fsm_CreateSnapshot_def TakeSnapshot_def fsm_RestoreSnapshot_def Restore_def mem_backup_def Let_def takeWhile_ones)

interpretation rf: replica_fsm "fsm_of L mem_backup ctx" "\<lambda>d. d" for L ctx
  by unfold_locales (use mem_restore in \<open>fastforce simp: fsm_of_def\<close>)+

lemma later_assoc: "later_version (later_version a b) c = later_version a (later_version b c)"
  by (cases "(a, b)" rule: later_version.cases; cases "(b, c)" rule: later_version.cases) (auto split: if_splits)

lemma later_same [simp]: "later_version a a = a" and later_None [simp]: "later_version None b = b"
  by (cases a; auto) (cases b; auto)

lemma newest_Cons: "newest (e # m) ts k = later_version (newest [e] ts k) (newest m ts k)"
  by (cases e) (auto split: option.splits)

lemma newest_append: "newest (xs @ m) ts k = later_version (newest xs ts k) (newest m ts k)"
proof (induction xs)
  case (Cons x xs)
  then show ?case using newest_Cons [of x "xs @ m"] newest_Cons [of x xs] by (simp add: later_assoc del: newest.simps)
qed simp

lemma mvcc_at_again: "mvcc_at (r @ xs @ xs @ m) ts k = mvcc_at (r @ xs @ m) ts k"
  by (simp add: mvcc_at_def newest_append flip: later_assoc)

lemma subs_spec_blind: "\<forall>sc \<in> set subs. blind_sub sc \<Longrightarrow> subs_spec L m subs = Ok (map sub_write subs)"
  by (induction subs arbitrary: m) (auto simp: blind_sub_def sub_spec_def sub_write_def)

context badger begin

lemma apply_blind_txn:
  assumes "managed" and "lib_badger L = B" and "cmd_CommitTs c \<noteq> 0" and "\<forall>sc \<in> set (cmd_SubCommands c). blind_sub sc"
    and "cap (map sub_write (cmd_SubCommands c))"
  shows "\<exists>d'. applyTransaction L c d = (Ok (), d') \<and> vers d' = map (Pair (cmd_CommitTs c)) (rev (map sub_write (cmd_SubCommands c))) @ vers d"
  by (rule applyTransaction_spec [OF assms(1-3) _ subs_spec_blind [OF assms(4)] assms(5)])
    (use assms(4) in \<open>auto simp: blind_sub_def reads_fresh_def reads_key_def\<close>)

lemma apply_blind:
  assumes "managed" and "lib_badger L = B" and "blind c" and "cap (writes_of c)"
  shows "\<exists>d'. applyCommand L ctx c d = (Ok (), d') \<and> vers d' = map (Pair (cmd_CommitTs c)) (rev (writes_of c)) @ vers d"
proof (cases "cmd_Type c = TRANSACTION")
  case True
  then show ?thesis using apply_blind_txn [OF assms(1,2), of c d] assms(3,4) by (simp add: blind_def writes_of_def applyCommand_def)
next
  case False
  then have t: "cmd_Type c \<in> {SET, DELETE}" using assms(3) by (simp add: blind_def blind_sub_def)
  then have "applyCommand L ctx c = applyTransaction L (as_transaction c)"
    by (auto simp: applyCommand_def applyTransaction_def as_transaction_def subWithTxn_def bindS_retS_right applySet_def applyDelete_def)
  then show ?thesis
    using apply_blind_txn [OF assms(1,2), of "as_transaction c" d] assms(3,4) False by (simp add: blind_def writes_of_def as_transaction_def new_command_defs)
qed

lemma apply_blind_log:
  assumes "managed" and "lib_badger L = B" and "blind_log (lib_codec L) cap bs"
  shows "\<exists>ws. \<forall>d. \<exists>d'. apply_log L ctx bs d = (Ok (), d') \<and> vers d' = ws @ vers d"
  using assms(3)
proof (induction bs)
  case Nil then show ?case by (auto simp: retS_def intro: exI [of _ "[]"])
next
  case (Cons b bs)
  obtain c where c: "DecodeCommand (lib_codec L) b = Ok c" "blind c" "cap (writes_of c)" using Cons.prems by (auto simp: blind_log_def)
  obtain ws where ws: "\<And>d. \<exists>d'. apply_log L ctx bs d = (Ok (), d') \<and> vers d' = ws @ vers d"
    using Cons by (auto simp: blind_log_def)
  have "\<exists>d'. apply_log L ctx (b # bs) d = (Ok (), d') \<and> vers d' = (ws @ map (Pair (cmd_CommitTs c)) (rev (writes_of c))) @ vers d" for d
  proof -
    obtain d1 where d1: "applyCommand L ctx c d = (Ok (), d1)" "vers d1 = map (Pair (cmd_CommitTs c)) (rev (writes_of c)) @ vers d"
      using apply_blind [OF assms(1,2) c(2,3)] by blast
    then show ?thesis using ws [of d1] c(1) by (auto simp: fsm_Apply_def call_simps)
  qed
  then show ?case by blast
qed

end

lemma apply_log_append: "apply_log L ctx (xs @ ys) = bindS (apply_log L ctx xs) (\<lambda>_. apply_log L ctx ys)"
proof (induction xs)
  case Nil show ?case by (simp add: call_simps fun_eq_iff)
next
  case (Cons x xs) then show ?case by (simp add: bindS_assoc)
qed

section \<open>Properties\<close>

text \<open>C11: applying entries again after a restart does no harm, for transactions that set and delete. When a node has applied
  \<open>applied\<close> and stops, and applies \<open>applied\<close> and \<open>rest\<close> after the restart, every read at every timestamp sees what it would
  see had the node applied each entry once.\<close>

theorem replay_harmless:
  assumes "badger (lib_badger L) True vers txn fit cap" and "blind_log (lib_codec L) cap (applied @ rest)"
  shows "\<exists>d1 d2 e. apply_log L ctx applied d = (Ok (), d1) \<and> apply_log L ctx (applied @ rest) d1 = (Ok (), d2)
    \<and> apply_log L ctx (applied @ rest) d = (Ok (), e) \<and> (\<forall>ts k. mvcc_at (vers d2) ts k = mvcc_at (vers e) ts k)"
proof -
  have b: "blind_log (lib_codec L) cap applied" "blind_log (lib_codec L) cap rest" using assms(2) by (auto simp: blind_log_def)
  obtain ws where ws: "\<And>d. \<exists>d'. apply_log L ctx applied d = (Ok (), d') \<and> vers d' = ws @ vers d"
    using badger.apply_blind_log [OF assms(1) TrueI refl b(1)] by blast
  obtain rs where rs: "\<And>d. \<exists>d'. apply_log L ctx rest d = (Ok (), d') \<and> vers d' = rs @ vers d"
    using badger.apply_blind_log [OF assms(1) TrueI refl b(2)] by blast
  obtain d1 where d1: "apply_log L ctx applied d = (Ok (), d1)" "vers d1 = ws @ vers d" using ws by blast
  obtain d2' where d2': "apply_log L ctx applied d1 = (Ok (), d2')" "vers d2' = ws @ vers d1" using ws by blast
  obtain d2 where d2: "apply_log L ctx rest d2' = (Ok (), d2)" "vers d2 = rs @ vers d2'" using rs by blast
  obtain e where e: "apply_log L ctx rest d1 = (Ok (), e)" "vers e = rs @ vers d1" using rs by blast
  have "apply_log L ctx (applied @ rest) d1 = (Ok (), d2)" "apply_log L ctx (applied @ rest) d = (Ok (), e)"
    using d1 d2 d2' e by (simp_all add: apply_log_append call_simps)
  moreover have "mvcc_at (vers d2) ts k = mvcc_at (vers e) ts k" for ts k
    by (simp add: d1 d2 d2' e mvcc_at_again)
  ultimately show ?thesis using d1 by blast
qed

theorem replay_harmless_witness:
  "\<exists>d1 d2 e. apply_log replay_libs ctx_background [[1]] [] = (Ok (), d1)
    \<and> apply_log replay_libs ctx_background ([[1]] @ [[2]]) d1 = (Ok (), d2)
    \<and> apply_log replay_libs ctx_background ([[1]] @ [[2]]) [] = (Ok (), e) \<and> (\<forall>ts k. mvcc_at d2 ts k = mvcc_at e ts k)"
proof (rule replay_harmless)
  show "badger (lib_badger replay_libs) True (\<lambda>h. h) mem_spec (\<lambda>_ _. True) (\<lambda>_. True)"
    using mb.badger_axioms [of True] by (simp add: demo_libs_def replay_libs_def)
  show "blind_log (lib_codec replay_libs) (\<lambda>_. True) ([[1]] @ [[2]])"
    by (simp add: blind_log_def replay_libs_def DecodeCommand_def blind_def blind_sub_def plain_cmd_def new_command_defs opt_ttl_def)
qed

end
