(* ===== verification/Store.thy ===== *)
theory Store
  imports Badger_Store Tso Config
begin

text \<open>
  The life of a single BadgerDB store: \<^verbatim>\<open>NewBadger\<close> of \<^verbatim>\<open>store.go\<close> and, of \<^verbatim>\<open>badger.go\<close>, opening and closing the
  database, wiring the timestamp oracle to it and the garbage collection of the value log. What BadgerDB offers for
  this is the record \<open>db_admin\<close>, with the documented behaviour of the garbage collection in the locale \<open>badger_gc\<close>.
\<close>

section \<open>Data\<close>

text \<open>\<open>da_Open\<close> is \<^verbatim>\<open>OpenManaged\<close> when its flag is set and \<^verbatim>\<open>Open\<close> otherwise. \<open>da_Size\<close> gives the size of the tree and
  of the value log.\<close>

record 'd db_admin =
  da_Open :: "bool \<Rightarrow> BadgerOptions \<Rightarrow> 'd res"
  da_Close :: "('d, unit) call"
  da_SetDiscardTs :: "u64 \<Rightarrow> 'd \<Rightarrow> 'd"
  da_RunValueLogGC :: "u64 \<Rightarrow> ('d, unit) call"
  da_Size :: "'d \<Rightarrow> nat \<times> nat"

text \<open>The oracle is the one of the store the database belongs to; \<open>bg_oracle\<close> tells whether it is set, and the operation
  that reads it takes it as an argument.\<close>

record 'd Badger =
  bg_managed :: bool
  bg_path :: string
  bg_gcInterval :: int
  bg_gcDiscardRatio :: u64
  bg_db :: 'd
  bg_oracle :: bool
  bg_log :: "string option"

section \<open>Opening and closing\<close>

definition initBadger :: "'d db_admin \<Rightarrow> bool \<Rightarrow> 'set Config \<Rightarrow> 'd Badger res" where
  "initBadger A managed cfg =
     bindR (da_Open A managed (cf_BadgerOptions cfg)) (\<lambda>db.
       Ok \<lparr>bg_managed = managed, bg_path = bo_Dir (cf_BadgerOptions cfg), bg_gcInterval = cf_GCInterval cfg,
           bg_gcDiscardRatio = cf_GCDiscardRatio cfg, bg_db = db, bg_oracle = False, bg_log = cf_Logger cfg\<rparr>)"

definition NewBadger :: "'d db_admin \<Rightarrow> ('set Config \<times> 'set desc_store, 'd Badger) call" where
  "NewBadger A = bindS (cfg_validate False) (\<lambda>_ st. (initBadger A False (fst st), st))"

definition GetBadger :: "'d Badger \<Rightarrow> 'd" where
  "GetBadger bdb = bg_db bdb"

text \<open>An error of the database is only logged.\<close>

definition bdb_Close :: "'d db_admin \<Rightarrow> ('d, unit) call" where
  "bdb_Close A d = (case da_Close A d of (Panicked p, d') \<Rightarrow> (Panicked p, d') | (_, d') \<Rightarrow> (Ok (), d'))"

definition setOracle :: "('d Badger, unit) call" where
  "setOracle bdb =
     (if \<not> bg_managed bdb then (Panicked ''operation not supported'', bdb)
      else (Ok (), bdb\<lparr>bg_oracle := True\<rparr>))"

section \<open>Garbage collection\<close>

text \<open>The loop that runs the collection again as long as it succeeds.\<close>

partial_function (option) gc_rounds :: "'d db_admin \<Rightarrow> u64 \<Rightarrow> 'd \<Rightarrow> (unit res \<times> 'd) option" where
  "gc_rounds A ratio d =
     (case da_RunValueLogGC A ratio d of
        (Ok _, d') \<Rightarrow> gc_rounds A ratio d'
      | (Err e, d') \<Rightarrow> Some (Ok (), d')
      | (Panicked p, d') \<Rightarrow> Some (Panicked p, d'))"

text \<open>One collection. The size of the value log afterwards is only logged.\<close>

definition runGC :: "'d db_admin \<Rightarrow> 'w watermark_api \<Rightarrow> 'w TSO \<Rightarrow> ('d Badger, unit) proc" where
  "runGC A W tso bdb =
     (if bg_managed bdb \<and> \<not> bg_oracle bdb then Some (Ok (), bdb)
      else
        let db = (if bg_managed bdb then da_SetDiscardTs A (DiscardAt W tso) (bg_db bdb) else bg_db bdb) in
        map_option (\<lambda>(r, db'). (r, bdb\<lparr>bg_db := db'\<rparr>)) (gc_rounds A (bg_gcDiscardRatio bdb) db))"

text \<open>What the select of the goroutine receives. A tick comes with what the rest of the program has done to the database
  since the last one, and with the oracle at that time.\<close>

datatype ('d, 'w) gc_event = GcTick "'d \<Rightarrow> 'd" "'w TSO" | GcDone

fun gc_loop :: "'d db_admin \<Rightarrow> 'w watermark_api \<Rightarrow> ('d, 'w) gc_event list \<Rightarrow> ('d Badger, unit) proc" where
  "gc_loop A W [] = retP ()"
| "gc_loop A W (GcDone # evs) = retP ()"
| "gc_loop A W (GcTick others tso # evs) =
     bindP (\<lambda>bdb. runGC A W tso (bdb\<lparr>bg_db := others (bg_db bdb)\<rparr>)) (\<lambda>_. gc_loop A W evs)"

text \<open>\<^verbatim>\<open>time.NewTicker\<close> panics on an interval that is not positive.\<close>

definition runVlogGC :: "'d db_admin \<Rightarrow> 'w watermark_api \<Rightarrow> ('d, 'w) gc_event list \<Rightarrow> ('d Badger, unit) proc" where
  "runVlogGC A W evs bdb =
     (if bg_gcInterval bdb \<le> 0 then Some (Panicked ''non-positive interval for NewTicker'', bdb)
      else gc_loop A W evs bdb)"

section \<open>What the collection promises\<close>

text \<open>A discard timestamp allows to drop what no read at or above it sees; a collection that succeeds has made the value
  log smaller.\<close>

locale badger_gc =
  fixes A :: "'d db_admin" and vers :: "'d \<Rightarrow> mvcc" and discard :: "'d \<Rightarrow> u64"
  assumes Set_vers: "vers (da_SetDiscardTs A ts d) = vers d"
    and Set_discard: "discard (da_SetDiscardTs A ts d) = ts"
    and GC_returns: "da_RunValueLogGC A ratio d \<noteq> (Panicked p, d')"
    and GC_discard: "da_RunValueLogGC A ratio d = (r, d') \<Longrightarrow> discard d' = discard d"
    and GC_keeps: "da_RunValueLogGC A ratio d = (r, d') \<Longrightarrow> discard d \<le> ts \<Longrightarrow>
        mvcc_at (vers d') ts k = mvcc_at (vers d) ts k"
    and GC_shrinks: "da_RunValueLogGC A ratio d = (Ok u, d') \<Longrightarrow> snd (da_Size A d') < snd (da_Size A d)"
begin

lemma gc_rounds_keep:
  "\<exists>d'. gc_rounds A ratio d = Some (Ok (), d') \<and> (\<forall>ts k. discard d \<le> ts \<longrightarrow> mvcc_at (vers d') ts k = mvcc_at (vers d) ts k)"
proof (induction "snd (da_Size A d)" arbitrary: d rule: less_induct)
  case less
  obtain r d1 where g: "da_RunValueLogGC A ratio d = (r, d1)" by fastforce
  show ?case
  proof (cases r)
    case (Ok u)
    have "\<exists>d'. gc_rounds A ratio d1 = Some (Ok (), d') \<and> (\<forall>ts k. discard d1 \<le> ts \<longrightarrow> mvcc_at (vers d') ts k = mvcc_at (vers d1) ts k)"
      by (rule less) (use GC_shrinks g Ok in blast)
    then show ?thesis using g Ok GC_discard [OF g] GC_keeps [OF g] by (subst gc_rounds.simps) auto
  next
    case (Err e) then show ?thesis using g GC_keeps [OF g] by (subst gc_rounds.simps) auto
  next
    case (Panicked p) then show ?thesis using g GC_returns by blast
  qed
qed

lemma runGC_keeps:
  assumes "bg_managed bdb"
  shows "\<exists>bdb'. runGC A W tso bdb = Some (Ok (), bdb') \<and> bdb' = bdb\<lparr>bg_db := bg_db bdb'\<rparr>
    \<and> (\<forall>ts k. DiscardAt W tso \<le> ts \<longrightarrow> mvcc_at (vers (bg_db bdb')) ts k = mvcc_at (vers (bg_db bdb)) ts k)"
  using gc_rounds_keep [of "bg_gcDiscardRatio bdb" "da_SetDiscardTs A (DiscardAt W tso) (bg_db bdb)"] assms
  by (auto simp: runGC_def Set_vers Set_discard)

end

section \<open>An instance that drops shadowed versions\<close>

text \<open>A version is dropped when a later one of its key is at or below the discard timestamp.\<close>

definition shadowed :: "mvcc \<Rightarrow> u64 \<Rightarrow> u64 \<times> key \<times> bytes option \<Rightarrow> bool" where
  "shadowed m dts e \<longleftrightarrow> list_ex (\<lambda>e'. fst (snd e') = fst (snd e) \<and> fst e < fst e' \<and> fst e' \<le> dts) m"

definition mem_gc :: "u64 \<Rightarrow> (mvcc \<times> u64, unit) call" where
  "mem_gc ratio d =
     (let m = filter (\<lambda>e. \<not> shadowed (fst d) (snd d) e) (fst d) in
      if length m < length (fst d) then (Ok (), (m, snd d)) else (Err (ErrText ''no rewrite''), d))"

definition mem_admin :: "(mvcc \<times> u64) db_admin" where
  "mem_admin = \<lparr>da_Open = (\<lambda>managed opts. Ok ([], 0)), da_Close = retS (), da_SetDiscardTs = (\<lambda>ts d. (fst d, ts)),
     da_RunValueLogGC = mem_gc, da_Size = (\<lambda>d. (0, length (fst d)))\<rparr>"

definition demo_bdb :: "(mvcc \<times> u64) Badger" where
  "demo_bdb = \<lparr>bg_managed = True, bg_path = ''/data/db'', bg_gcInterval = 1, bg_gcDiscardRatio = 0,
     bg_db = ([(9, ''k'', Some [9]), (5, ''k'', Some [5]), (2, ''k'', Some [2])], 0), bg_oracle = True, bg_log = None\<rparr>"

lemma newest_None: "newest m ts k = None \<longleftrightarrow> (\<forall>e \<in> set m. fst (snd e) = k \<longrightarrow> ts < fst e)"
  by (induction m) (auto split: option.splits if_splits simp: not_le)

lemma newest_max: "newest m ts k = Some (t, v) \<Longrightarrow> e \<in> set m \<Longrightarrow> fst (snd e) = k \<Longrightarrow> fst e \<le> ts \<Longrightarrow> fst e \<le> t"
proof (induction m arbitrary: t v)
  case (Cons x m)
  obtain tx kx vx where x: "x = (tx, kx, vx)" by (cases x) auto
  show ?case
  proof (cases "newest m ts k")
    case None
    then have "e = x" using Cons.prems newest_None [of m ts k] by fastforce
    then show ?thesis using Cons.prems None x by (auto split: if_splits)
  next
    case (Some p)
    then have "e \<in> set m \<Longrightarrow> fst e \<le> fst p" using Cons.IH [of "fst p" "snd p"] Cons.prems(3,4) by simp
    then show ?thesis using Some Cons.prems x by (cases p; cases e) (auto split: if_splits)
  qed
qed simp

lemma newest_filter:
  assumes "\<forall>e \<in> set m. fst (snd e) = k \<longrightarrow> \<not> P e \<longrightarrow> fst e < T" and "newest m ts k = Some (t, v)" and "T \<le> t"
  shows "newest (filter P m) ts k = Some (t, v)"
  using assms
proof (induction m arbitrary: t v)
  case (Cons x m)
  obtain tx kx vx where x: "x = (tx, kx, vx)" by (cases x) auto
  have older: "newest (filter P m) ts k = Some (t1, v1) \<Longrightarrow> newest m ts k = Some (t2, v2) \<Longrightarrow> t1 \<le> t2" for t1 v1 t2 v2
    using newest_mem [of "filter P m" ts k t1 v1] newest_max [of m ts k t2 v2 "(t1, k, v1)"] by simp
  have none: "newest m ts k = None \<Longrightarrow> newest (filter P m) ts k = None"
    by (auto simp: newest_None)
  show ?case
  proof (cases "newest m ts k")
    case None
    then show ?thesis using Cons.prems x none by (auto split: if_splits)
  next
    case (Some p)
    obtain t2 v2 where p: "p = (t2, v2)" by (cases p)
    show ?thesis
    proof (cases "kx = k \<and> tx \<le> ts \<and> t2 \<le> tx")
      case True
      then have "P x" "t = tx" "v = vx" using Cons.prems x Some p by auto
      then show ?thesis using True x older [OF _ Some [unfolded p]] by (auto split: option.splits)
    next
      case False
      then have "newest (filter P m) ts k = Some (t, v)" and "t = t2" using Cons x Some p by auto
      then show ?thesis using False x by auto
    qed
  qed
qed simp

lemma mem_gc_keeps:
  assumes "dts \<le> ts"
  shows "mvcc_at (filter (\<lambda>e. \<not> shadowed m dts e) m) ts k = mvcc_at m ts k"
proof (cases "newest m ts k")
  case None
  then have "newest (filter (\<lambda>e. \<not> shadowed m dts e) m) ts k = None" by (simp add: newest_None)
  then show ?thesis using None by (simp add: mvcc_at_def)
next
  case (Some p)
  obtain t v where p: "newest m ts k = Some (t, v)" using Some by (cases p) auto
  have "\<forall>e \<in> set m. fst (snd e) = k \<longrightarrow> \<not> \<not> shadowed m dts e \<longrightarrow> fst e < t"
    using newest_max [OF p] assms by (fastforce simp: shadowed_def list_ex_iff)
  then have "newest (filter (\<lambda>e. \<not> shadowed m dts e) m) ts k = Some (t, v)" by (rule newest_filter) (use p in auto)
  then show ?thesis using p by (simp add: mvcc_at_def)
qed

interpretation mg: badger_gc mem_admin fst snd
  by unfold_locales (auto simp: mem_admin_def mem_gc_def Let_def mem_gc_keeps split: if_splits)

section \<open>Properties\<close>

text \<open>C19: a garbage collection ends, and it keeps everything that pending transactions can see: whatever is read at or
  above the read timestamp of a transaction that has begun and not ended is the same before and after it.\<close>

theorem gc_keeps_pending_reads:
  assumes "badger_gc A vers discard" and "watermark W pend hi wm_ok" and "wm_ok (readMark tso)"
    and "0 < pend (readMark tso) readTs" and "bg_managed bdb"
  shows "\<exists>bdb'. runGC A W tso bdb = Some (Ok (), bdb')
    \<and> (\<forall>ts k. readTs \<le> ts \<longrightarrow> mvcc_at (vers (bg_db bdb')) ts k = mvcc_at (vers (bg_db bdb)) ts k)"
proof -
  have "DiscardAt W tso \<le> readTs"
    using watermark.DoneUntil_pending [OF assms(2-4)] by (simp add: DiscardAt_def)
  then show ?thesis using badger_gc.runGC_keeps [OF assms(1,5), of W tso] by (meson order_trans)
qed

theorem gc_keeps_pending_reads_witness:
  "runGC mem_admin list_watermark (demo_tso\<lparr>readMark := \<lparr>ms_pending = [7], ms_until = 6, ms_top = 7\<rparr>\<rparr>) demo_bdb
     = Some (Ok (), demo_bdb\<lparr>bg_db := ([(9, ''k'', Some [9]), (5, ''k'', Some [5])], 6)\<rparr>)
   \<and> mvcc_at [(9, ''k'', Some [9]), (5, ''k'', Some [5])] 7 ''k'' = mvcc_at (fst (bg_db demo_bdb)) 7 ''k''"
proof -
  let ?o = "demo_tso\<lparr>readMark := \<lparr>ms_pending = [7], ms_until = 6, ms_top = 7\<rparr>\<rparr>"
  have r: "runGC mem_admin list_watermark ?o demo_bdb
     = Some (Ok (), demo_bdb\<lparr>bg_db := ([(9, ''k'', Some [9]), (5, ''k'', Some [5])], 6)\<rparr>)"
    by (simp add: runGC_def demo_bdb_def mem_admin_def DiscardAt_def list_watermark_def gc_rounds.simps mem_gc_def shadowed_def)
  have "\<exists>bdb'. runGC mem_admin list_watermark ?o demo_bdb = Some (Ok (), bdb')
    \<and> (\<forall>ts k. 7 \<le> ts \<longrightarrow> mvcc_at (fst (bg_db bdb')) ts k = mvcc_at (fst (bg_db demo_bdb)) ts k)"
    by (rule gc_keeps_pending_reads [OF mg.badger_gc_axioms lw.watermark_axioms])
      (simp_all add: list_mark_ok_def list_mark_pend_def demo_bdb_def)
  then show ?thesis unfolding r by simp
qed

text \<open>A store opened with the collection interval left out, which its documentation calls optional, panics when the
  collection starts.\<close>

lemma gc_interval_needed:
  assumes "NewBadger A (cfg, store) = (Ok bdb, st)" and "cf_GCInterval cfg = 0"
  shows "runVlogGC A W evs bdb = Some (Panicked ''non-positive interval for NewTicker'', bdb)"
proof -
  have "cf_GCInterval (with_defaults cfg) = cf_GCInterval cfg"
    by (simp add: with_defaults_def Let_def split: option.split)
  then show ?thesis using assms
    by (auto simp: NewBadger_def bindS_Ok_iff initBadger_def bindR_Ok_iff cfg_validate_Ok_iff runVlogGC_def)
qed

lemma gc_interval_needed_witness:
  "\<exists>bdb st. NewBadger mem_admin (demo_config, None) = (Ok bdb, st)
     \<and> runVlogGC mem_admin list_watermark [] bdb = Some (Panicked ''non-positive interval for NewTicker'', bdb)"
proof -
  obtain bdb st where n: "NewBadger mem_admin (demo_config, None) = (Ok bdb, st)"
    by (simp add: NewBadger_def bindS_def initBadger_def cfg_validate_def demo_config_def mem_admin_def Let_def)
  then show ?thesis using gc_interval_needed [OF n, of list_watermark "[]"] by (simp add: demo_config_def)
qed

end
