(* ===== verification/Distributed.thy ===== *)
theory Distributed
  imports Recovery Store Txn
begin

text \<open>
  \<^verbatim>\<open>distributed.go\<close> and the rest of \<^verbatim>\<open>store.go\<close>: the replicated store. A write runs in a transaction of the timestamp
  oracle, is stamped with its commit timestamp and proposed to Raft through the channels of the node; a read of a
  single key waits for a read state. The state of a store is the one of its node, with the oracle, the proposals that
  are waited for and the listener of a leadership term. The hooks of the application are not modelled: they do
  not work on the store.
\<close>

section \<open>State\<close>

text \<open>\<open>ds_listening\<close> tells whether a \<^verbatim>\<open>listenProposeResponses\<close> goroutine runs.\<close>

record ('d, 'w, 'h, 'ms, 'r, 'wm) DistributedBadger = "('d, 'w, 'h, 'ms, 'r) Node" +
  ds_proposals :: "string set"
  ds_leaderChangeNotifier :: chan
  ds_listening :: bool
  ds_tso :: "'wm TSO"

record ('d, 'w, 'h, 'ms, 'r, 'wm) dist_env =
  de_node :: "('d, 'w, 'h, 'ms, 'r) node_env"
  de_codec :: cmd_codec
  de_marks :: "'wm watermark_api"
  de_clock :: clock

text \<open>What a call meets: the error that ends the wait for the commit mark, the fresh identifiers of the
  transaction, its command and the sub-command, and when the answer to the proposal arrives: before the timeout, after
  it, or not before the propose loop gets to the request, which still waits in the channel at the timeout.\<close>

datatype arrival = InTime | Late | Waiting

record invocation =
  iv_waitErr :: "error option"
  iv_uid :: string
  iv_cid :: string
  iv_sid :: string
  iv_arrival :: arrival

definition on_tso :: "('wm TSO, 'a) call \<Rightarrow> (('d, 'w, 'h, 'ms, 'r, 'wm) DistributedBadger, 'a) call" where
  "on_tso f s = (case f (ds_tso s) of (r, tso) \<Rightarrow> (r, s\<lparr>ds_tso := tso\<rparr>))"

section \<open>Proposals\<close>

text \<open>The propose loop takes the next request. A response that finds the channel full waits behind those in it, and the loop
  with it.\<close>

definition loop_takes ::
    "('d, 'w, 'h, 'ms, 'r) node_env \<Rightarrow> (('d, 'w, 'h, 'ms, 'r, 'x) Node_scheme, unit) proc" where
  "loop_takes N s =
     (case nd_proposeReqNotifier s of
        [] \<Rightarrow> Some (Ok (), s)
      | p # rest \<Rightarrow>
          if \<not> nd_proposing s \<or> 1 < length (nd_proposeRespNotifier s) then Some (Ok (), s)
          else bindP (propose_select N (PvProposal p))
            (\<lambda>go s'. Some (Ok (), s'\<lparr>nd_proposing := go, nd_proposeRespNotifier := nd_proposeRespNotifier s @ nd_proposeRespNotifier s'\<rparr>))
            (s\<lparr>nd_proposeReqNotifier := rest, nd_proposeRespNotifier := []\<rparr>))"

text \<open>The listener takes the responses and hands those that are waited for to their callers.\<close>

definition listenProposeResponses ::
    "('d, 'w, 'h, 'ms, 'r, 'wm) DistributedBadger
     \<Rightarrow> (string \<times> error option) list \<times> ('d, 'w, 'h, 'ms, 'r, 'wm) DistributedBadger" where
  "listenProposeResponses s =
     (if ds_listening s
      then (filter (\<lambda>a. fst a \<in> ds_proposals s) (map (\<lambda>r. (pr_cmdID r, pr_ErrResp r)) (nd_proposeRespNotifier s)),
            s\<lparr>nd_proposeRespNotifier := []\<rparr>)
      else ([], s))"

definition serve ::
    "('d, 'w, 'h, 'ms, 'r) node_env \<Rightarrow> (('d, 'w, 'h, 'ms, 'r, 'wm) DistributedBadger, (string \<times> error option) list) proc" where
  "serve N s =
     (case listenProposeResponses s of (answers, s) \<Rightarrow>
        bindP (loop_takes N) (\<lambda>_ s. case listenProposeResponses s of (answers2, s) \<Rightarrow> Some (Ok (answers @ answers2), s)) s)"

text \<open>The send on the request channel, which holds one request: when it is full the loop has to take the request first. Then
  the wait for the answer.\<close>

definition send_request ::
    "('d, 'w, 'h, 'ms, 'r) node_env \<Rightarrow> propose \<Rightarrow> (('d, 'w, 'h, 'ms, 'r, 'wm) DistributedBadger, unit) proc" where
  "send_request N p s =
     bindP (if nd_proposeReqNotifier s \<noteq> [] then serve N else retP []) (\<lambda>_ s.
       if nd_proposeReqNotifier s \<noteq> [] then None else Some (Ok (), s\<lparr>nd_proposeReqNotifier := [p]\<rparr>)) s"

definition await_answer ::
    "('d, 'w, 'h, 'ms, 'r) node_env \<Rightarrow> arrival \<Rightarrow> string \<Rightarrow> (('d, 'w, 'h, 'ms, 'r, 'wm) DistributedBadger, unit) proc" where
  "await_answer N arrival cmdID =
     bindP (if arrival = Waiting then retP [] else serve N) (\<lambda>answers s.
       Some (case (if arrival = InTime then map_of answers cmdID else None) of
               Some None \<Rightarrow> Ok ()
             | Some (Some err) \<Rightarrow> Err err
             | None \<Rightarrow> Err ErrProposeTimeout,
             s\<lparr>ds_proposals := ds_proposals s - {cmdID}\<rparr>))"

definition proposeAndWait ::
    "('d, 'w, 'h, 'ms, 'r, 'wm) dist_env \<Rightarrow> arrival \<Rightarrow> Command \<Rightarrow> (('d, 'w, 'h, 'ms, 'r, 'wm) DistributedBadger, unit) proc" where
  "proposeAndWait E arrival cmd =
     bindP (sure (liftR (Encode (de_codec E) cmd))) (\<lambda>b.
     bindP (\<lambda>s. Some (Ok (), s\<lparr>ds_proposals := insert (cmd_Id cmd) (ds_proposals s)\<rparr>)) (\<lambda>_.
     bindP (send_request (de_node E) \<lparr>pr_cmdID = cmd_Id cmd, pr_cmd = b, pr_ErrResp = None\<rparr>) (\<lambda>_.
     await_answer (de_node E) arrival (cmd_Id cmd))))"

section \<open>Reads\<close>

definition key_bytes :: "string \<Rightarrow> bytes" where
  "key_bytes key = map of_char key"

text \<open>\<open>ended\<close> is the error of the timer or the context, as in \<^const>\<open>WaitForReadState\<close>.\<close>

definition waitForReadState ::
    "('d, 'w, 'h, 'ms, 'r) node_env \<Rightarrow> error \<Rightarrow> key \<Rightarrow> (('d, 'w, 'h, 'ms, 'r, 'x) Node_scheme, unit) call" where
  "waitForReadState N ended key =
     bindS (ReadIndex N (key_bytes key)) (\<lambda>appliedIndex. bindS (WaitForReadState ended) (\<lambda>rs. retS ()))"

definition isLeader :: "('d, 'w, 'h, 'ms, 'r, 'x) Node_scheme \<Rightarrow> bool" where
  "isLeader s = IsLeader s"

definition ds_Count :: "('d, 't) badger_api \<Rightarrow> ctx \<Rightarrow> key \<Rightarrow> ('d, 'w, 'h, 'ms, 'r, 'x) Node_scheme \<Rightarrow> nat res" where
  "ds_Count B ctx pre s = bdb_Count B ctx pre (nd_db s)"

definition ds_Exists ::
    "('d, 't) badger_api \<Rightarrow> ('d, 'w, 'h, 'ms, 'r) node_env \<Rightarrow> error \<Rightarrow> key \<Rightarrow> (('d, 'w, 'h, 'ms, 'r, 'x) Node_scheme, bool) call" where
  "ds_Exists B N ended key s =
     (case waitForReadState N ended key s of
        (Err e, s') \<Rightarrow> (Ok False, s')
      | (Panicked p, s') \<Rightarrow> (Panicked p, s')
      | (Ok _, s') \<Rightarrow> (bdb_Exists B key (nd_db s'), s'))"

definition ds_HasChild :: "('d, 't) badger_api \<Rightarrow> key \<Rightarrow> ('d, 'w, 'h, 'ms, 'r, 'x) Node_scheme \<Rightarrow> bool res" where
  "ds_HasChild B pre s = bdb_HasChild B pre (nd_db s)"

definition getVal ::
    "('d, 't) badger_api \<Rightarrow> ('d, 'w, 'h, 'ms, 'r) node_env \<Rightarrow> error \<Rightarrow> key \<Rightarrow> bool
     \<Rightarrow> (('d, 'w, 'h, 'ms, 'r, 'x) Node_scheme, bytes option) call" where
  "getVal B N ended key skipLinearizable =
     bindS (if \<not> skipLinearizable then waitForReadState N ended key else retS ()) (\<lambda>_ s. (bdb_Get B key (nd_db s), s))"

definition ds_Get ::
    "('d, 't) badger_api \<Rightarrow> ('d, 'w, 'h, 'ms, 'r) node_env \<Rightarrow> error \<Rightarrow> key
     \<Rightarrow> (('d, 'w, 'h, 'ms, 'r, 'x) Node_scheme, bytes option) call" where
  "ds_Get B N ended key = getVal B N ended key False"

definition ds_GetByPrefix ::
    "('d, 't) badger_api \<Rightarrow> ctx \<Rightarrow> key \<Rightarrow> ('d, 'w, 'h, 'ms, 'r, 'x) Node_scheme \<Rightarrow> (key \<times> bytes) list res" where
  "ds_GetByPrefix B ctx pre s = bdb_GetByPrefix B ctx pre (nd_db s)"

definition ds_GetKeysByPrefix ::
    "('d, 't) badger_api \<Rightarrow> ctx \<Rightarrow> key \<Rightarrow> ('d, 'w, 'h, 'ms, 'r, 'x) Node_scheme \<Rightarrow> key list res" where
  "ds_GetKeysByPrefix B ctx pre s = bdb_GetKeysByPrefix B ctx pre (nd_db s)"

definition ds_BulkGet ::
    "('d, 't) badger_api \<Rightarrow> ctx \<Rightarrow> key list \<Rightarrow> ('d, 'w, 'h, 'ms, 'r, 'x) Node_scheme \<Rightarrow> (key \<times> bytes) list res" where
  "ds_BulkGet B ctx keys s = bdb_BulkGet B ctx keys (nd_db s)"

definition ds_IterateByPrefix ::
    "('d, 't) badger_api \<Rightarrow> ctx \<Rightarrow> key \<Rightarrow> key \<Rightarrow> int option \<Rightarrow> (key \<Rightarrow> bytes \<Rightarrow> 'a \<Rightarrow> bool \<times> 'a)
     \<Rightarrow> ('d, 'w, 'h, 'ms, 'r, 'x) Node_scheme \<Rightarrow> ('a, key) call" where
  "ds_IterateByPrefix B ctx pre startCursor limit process s = bdb_IterateByPrefix B ctx pre startCursor limit process (nd_db s)"

section \<open>Operations in a transaction\<close>

text \<open>The functions that run in a transaction work on it and on the store.\<close>

definition on_txn :: "(Txn, 'a) call \<Rightarrow> (Txn \<times> 's, 'a) call" where
  "on_txn f st = (case f (fst st) of (r, txn) \<Rightarrow> (r, (txn, snd st)))"

definition ds_GetWithTxn ::
    "('d, 't) badger_api \<Rightarrow> ('d, 'w, 'h, 'ms, 'r) node_env \<Rightarrow> error \<Rightarrow> key
     \<Rightarrow> (Txn \<times> ('d, 'w, 'h, 'ms, 'r, 'x) Node_scheme, bytes option) call" where
  "ds_GetWithTxn B N ended key st =
     (case waitForReadState N ended key (snd st) of
        (Ok _, s) \<Rightarrow> on_txn (GetWithTxn None (bdb_getAt B (nd_db s)) key) (fst st, s)
      | (Err e, s) \<Rightarrow> on_txn (GetWithTxn (Some e) (bdb_getAt B (nd_db s)) key) (fst st, s)
      | (Panicked p, s) \<Rightarrow> (Panicked p, (fst st, s)))"

definition ds_GetByPrefixWithTxn ::
    "('d, 't) badger_api \<Rightarrow> ctx \<Rightarrow> key \<Rightarrow> (Txn \<times> ('d, 'w, 'h, 'ms, 'r, 'x) Node_scheme, (key \<times> bytes) list) call" where
  "ds_GetByPrefixWithTxn B ctx pre st = on_txn (GetByPrefixWithTxn (bdb_getByPrefixAt B ctx (nd_db (snd st))) pre) st"

definition ds_GetKeysByPrefixWithTxn ::
    "('d, 't) badger_api \<Rightarrow> ctx \<Rightarrow> key \<Rightarrow> (Txn \<times> ('d, 'w, 'h, 'ms, 'r, 'x) Node_scheme, key list) call" where
  "ds_GetKeysByPrefixWithTxn B ctx pre st = on_txn (GetKeysByPrefixWithTxn (bdb_getKeysByPrefixAt B ctx (nd_db (snd st))) pre) st"

definition DecrByWithTxn :: "string \<Rightarrow> key \<Rightarrow> u64 \<Rightarrow> (Txn \<times> 's, unit) call" where
  "DecrByWithTxn sid key delta = on_txn (txn_DecrBy sid key delta)"

definition IncrByWithTxn :: "string \<Rightarrow> key \<Rightarrow> u64 \<Rightarrow> (Txn \<times> 's, unit) call" where
  "IncrByWithTxn sid key delta = on_txn (txn_IncrBy sid key delta)"

definition SetWithTxn :: "string \<Rightarrow> key \<Rightarrow> bytes \<Rightarrow> duration list \<Rightarrow> (Txn \<times> 's, unit) call" where
  "SetWithTxn sid key value ttl = on_txn (txn_Set sid key value ttl)"

definition UpdateJsonWithTxn :: "'j json_api \<Rightarrow> string \<Rightarrow> key \<Rightarrow> 'j jmap \<Rightarrow> duration list \<Rightarrow> (Txn \<times> 's, unit) call" where
  "UpdateJsonWithTxn J sid key delta ttl = on_txn (txn_UpdateJson J sid key delta ttl)"

definition UpdateProtobufWithTxn ::
    "('m, 'fd) proto_api \<Rightarrow> ('set, 'files, 'desc, 'm) desc_api \<Rightarrow> 'set desc_store
     \<Rightarrow> string \<Rightarrow> key \<Rightarrow> 'm \<Rightarrow> duration list \<Rightarrow> (Txn \<times> 's, unit) call" where
  "UpdateProtobufWithTxn P D cache sid key delta ttl = on_txn (txn_UpdateProtobuf P D cache sid key delta ttl)"

definition DeleteWithTxn :: "string \<Rightarrow> key \<Rightarrow> (Txn \<times> 's, unit) call" where
  "DeleteWithTxn sid key = on_txn (txn_Delete sid key)"

definition DeleteByPrefixWithTxn ::
    "('d, 't) badger_api \<Rightarrow> ctx \<Rightarrow> string \<Rightarrow> key \<Rightarrow> (Txn \<times> ('d, 'w, 'h, 'ms, 'r, 'x) Node_scheme, unit) call" where
  "DeleteByPrefixWithTxn B ctx sid pre st =
     on_txn (txn_DeleteByPrefix (GetKeysByPrefixWithTxn (bdb_getKeysByPrefixAt B ctx (nd_db (snd st)))) sid pre) st"

section \<open>Transactions\<close>

text \<open>What \<^verbatim>\<open>NewTransaction\<close> and \<^verbatim>\<open>proposeTxnSubCommand\<close> have in common: begin, run the operations, commit, propose what
  the commit returned, and the deferred discard whatever happened. A \<^verbatim>\<open>nil\<close> command is \<^const>\<open>None\<close>.\<close>

definition commit_ops ::
    "('d, 'w, 'h, 'ms, 'r, 'wm) dist_env
     \<Rightarrow> (Txn \<times> ('d, 'w, 'h, 'ms, 'r, 'wm) DistributedBadger, unit) call
     \<Rightarrow> (Txn \<Rightarrow> Command option \<Rightarrow> (('d, 'w, 'h, 'ms, 'r, 'wm) DistributedBadger, unit) proc)
     \<Rightarrow> (Txn \<times> ('d, 'w, 'h, 'ms, 'r, 'wm) DistributedBadger, unit) proc" where
  "commit_ops E performOps prop =
     bindP (sure performOps) (\<lambda>_ st.
       case txn_Commit (de_marks E) (de_clock E) (fst st, ds_tso (snd st)) of
         None \<Rightarrow> None
       | Some (r, (txn, tso)) \<Rightarrow>
           (let s = (snd st)\<lparr>ds_tso := tso\<rparr> in
            case r of
              Ok cmd \<Rightarrow> map_option (\<lambda>(r, s). (r, (txn, s))) (prop txn cmd s)
            | Err e \<Rightarrow> Some (Err e, (txn, s))
            | Panicked p \<Rightarrow> Some (Panicked p, (txn, s))))"

definition in_txn ::
    "('d, 'w, 'h, 'ms, 'r, 'wm) dist_env \<Rightarrow> invocation
     \<Rightarrow> (Txn \<times> ('d, 'w, 'h, 'ms, 'r, 'wm) DistributedBadger, unit) proc
     \<Rightarrow> (('d, 'w, 'h, 'ms, 'r, 'wm) DistributedBadger, unit) proc" where
  "in_txn E iv body =
     bindP (sure (on_tso (BeginTxn (de_marks E) (iv_waitErr iv) (iv_uid iv) (iv_cid iv) True))) (\<lambda>txn s.
       map_option (\<lambda>(r, (txn, s)). (r, s\<lparr>ds_tso := snd (txn_Discard (de_marks E) (txn, ds_tso s))\<rparr>)) (body (txn, s)))"

definition NewTransaction ::
    "('d, 'w, 'h, 'ms, 'r, 'wm) dist_env \<Rightarrow> invocation
     \<Rightarrow> (Txn \<times> ('d, 'w, 'h, 'ms, 'r, 'wm) DistributedBadger, unit) call
     \<Rightarrow> (('d, 'w, 'h, 'ms, 'r, 'wm) DistributedBadger, unit) proc" where
  "NewTransaction E iv performOps s =
     (if \<not> isLeader s then Some (Err ErrNotLeader, s)
      else in_txn E iv (commit_ops E performOps (\<lambda>txn cmd.
        case cmd of
          None \<Rightarrow> (\<lambda>s. Some (Panicked nilDeref, s))
        | Some cmd \<Rightarrow> proposeAndWait E (iv_arrival iv) cmd)) s)"

definition proposeTxnSubCommand ::
    "('d, 'w, 'h, 'ms, 'r, 'wm) dist_env \<Rightarrow> invocation
     \<Rightarrow> (Txn \<times> ('d, 'w, 'h, 'ms, 'r, 'wm) DistributedBadger, unit) call
     \<Rightarrow> (('d, 'w, 'h, 'ms, 'r, 'wm) DistributedBadger, unit) proc" where
  "proposeTxnSubCommand E iv performOps =
     in_txn E iv (commit_ops E performOps (\<lambda>txn txnCmd.
       case txnCmd of
         None \<Rightarrow> (\<lambda>s. Some (Panicked nilDeref, s))
       | Some txnCmd \<Rightarrow>
           (case cmd_SubCommands txnCmd of
              [] \<Rightarrow> retP ()
            | cmd # _ \<Rightarrow> proposeAndWait E (iv_arrival iv) (set_CommitTs (txn_commitTs txn) (set_ReadTs (txn_readTs txn) cmd)))))"

section \<open>Writes and deletes\<close>

text \<open>The check that all of them begin with.\<close>

definition on_leader ::
    "(('d, 'w, 'h, 'ms, 'r, 'wm) DistributedBadger, unit) proc \<Rightarrow> (('d, 'w, 'h, 'ms, 'r, 'wm) DistributedBadger, unit) proc" where
  "on_leader f s = (if \<not> isLeader s then Some (Err ErrNotLeader, s) else f s)"

definition ds_DecrBy ::
    "('d, 'w, 'h, 'ms, 'r, 'wm) dist_env \<Rightarrow> invocation \<Rightarrow> key \<Rightarrow> u64 \<Rightarrow> (('d, 'w, 'h, 'ms, 'r, 'wm) DistributedBadger, unit) proc" where
  "ds_DecrBy E iv key delta = on_leader (proposeTxnSubCommand E iv (DecrByWithTxn (iv_sid iv) key delta))"

definition ds_IncrBy ::
    "('d, 'w, 'h, 'ms, 'r, 'wm) dist_env \<Rightarrow> invocation \<Rightarrow> key \<Rightarrow> u64 \<Rightarrow> (('d, 'w, 'h, 'ms, 'r, 'wm) DistributedBadger, unit) proc" where
  "ds_IncrBy E iv key delta = on_leader (proposeTxnSubCommand E iv (IncrByWithTxn (iv_sid iv) key delta))"

definition ds_Set ::
    "('d, 'w, 'h, 'ms, 'r, 'wm) dist_env \<Rightarrow> invocation \<Rightarrow> key \<Rightarrow> bytes \<Rightarrow> duration list
     \<Rightarrow> (('d, 'w, 'h, 'ms, 'r, 'wm) DistributedBadger, unit) proc" where
  "ds_Set E iv key value ttl = on_leader (proposeTxnSubCommand E iv (SetWithTxn (iv_sid iv) key value ttl))"

definition ds_UpdateJson ::
    "('d, 'w, 'h, 'ms, 'r, 'wm) dist_env \<Rightarrow> 'j json_api \<Rightarrow> invocation \<Rightarrow> key \<Rightarrow> 'j jmap \<Rightarrow> duration list
     \<Rightarrow> (('d, 'w, 'h, 'ms, 'r, 'wm) DistributedBadger, unit) proc" where
  "ds_UpdateJson E J iv key delta ttl = on_leader (proposeTxnSubCommand E iv (UpdateJsonWithTxn J (iv_sid iv) key delta ttl))"

text \<open>A \<^verbatim>\<open>nil\<close> message is \<^const>\<open>None\<close>.\<close>

definition ds_UpdateProtobuf ::
    "('d, 'w, 'h, 'ms, 'r, 'wm) dist_env \<Rightarrow> ('m, 'fd) proto_api \<Rightarrow> ('set, 'files, 'desc, 'm) desc_api \<Rightarrow> 'set desc_store
     \<Rightarrow> invocation \<Rightarrow> key \<Rightarrow> 'm option \<Rightarrow> duration list \<Rightarrow> (('d, 'w, 'h, 'ms, 'r, 'wm) DistributedBadger, unit) proc" where
  "ds_UpdateProtobuf E P D cache iv key delta ttl =
     on_leader (case delta of
       None \<Rightarrow> retP ()
     | Some m \<Rightarrow> proposeTxnSubCommand E iv (UpdateProtobufWithTxn P D cache (iv_sid iv) key m ttl))"

definition ds_Delete ::
    "('d, 'w, 'h, 'ms, 'r, 'wm) dist_env \<Rightarrow> invocation \<Rightarrow> key \<Rightarrow> (('d, 'w, 'h, 'ms, 'r, 'wm) DistributedBadger, unit) proc" where
  "ds_Delete E iv key = on_leader (proposeTxnSubCommand E iv (DeleteWithTxn (iv_sid iv) key))"

definition ds_DeleteByPrefix ::
    "('d, 'w, 'h, 'ms, 'r, 'wm) dist_env \<Rightarrow> ('d, 't) badger_api \<Rightarrow> ctx \<Rightarrow> invocation \<Rightarrow> key
     \<Rightarrow> (('d, 'w, 'h, 'ms, 'r, 'wm) DistributedBadger, unit) proc" where
  "ds_DeleteByPrefix E B ctx iv pre = on_leader (proposeTxnSubCommand E iv (DeleteByPrefixWithTxn B ctx (iv_sid iv) pre))"

section \<open>The database of the oracle\<close>

text \<open>The oracle persists its window through \<^verbatim>\<open>NewTransaction\<close>.\<close>

definition persistWindow ::
    "('d, 'w, 'h, 'ms, 'r, 'wm) dist_env \<Rightarrow> invocation \<Rightarrow> bytes \<Rightarrow> 'wm TSO \<times> ('d, 'w, 'h, 'ms, 'r, 'wm) DistributedBadger
     \<Rightarrow> (unit res \<times> ('wm TSO \<times> ('d, 'w, 'h, 'ms, 'r, 'wm) DistributedBadger)) option" where
  "persistWindow E iv b st =
     map_option (\<lambda>(r, s). (r, (ds_tso s, s)))
       (NewTransaction E iv (on_txn (txn_Set (iv_sid iv) persistentKey b [])) ((snd st)\<lparr>ds_tso := fst st\<rparr>))"

definition ds_UpdateWindow ::
    "('d, 'w, 'h, 'ms, 'r, 'wm) dist_env \<Rightarrow> invocation \<Rightarrow> (('d, 'w, 'h, 'ms, 'r, 'wm) DistributedBadger, unit) proc" where
  "ds_UpdateWindow E iv s =
     map_option (\<lambda>(r, (tso, s)). (r, s\<lparr>ds_tso := tso\<rparr>)) (UpdateWindow (persistWindow E iv) (ds_tso s, s))"

section \<open>Leadership and life cycle\<close>

definition fsm_Close :: "'d db_admin \<Rightarrow> ('d, unit) call" where
  "fsm_Close A = bdb_Close A"

definition ds_GetBadger :: "('d, 'w, 'h, 'ms, 'r, 'x) Node_scheme \<Rightarrow> 'd" where
  "ds_GetBadger s = nd_db s"

definition ds_Close ::
    "('d, 'w, 'h, 'ms, 'r, 'wm) dist_env \<Rightarrow> 'd db_admin \<Rightarrow> error option \<Rightarrow> (('d, 'w, 'h, 'ms, 'r, 'wm) DistributedBadger, unit) call" where
  "ds_Close E A shutdownErr =
     bindS (on_tso tso_Close) (\<lambda>_.
     bindS (node_Stop (de_node E) shutdownErr) (\<lambda>_.
     on_fsm (fsm_Close A)))"

text \<open>A call that may not return, on a state that is \<^const>\<open>None\<close> once it has not.\<close>

definition blocking :: "('s, 'a) proc \<Rightarrow> ('s option, 'a) call" where
  "blocking f st =
     (case Option.bind st f of
        Some (r, s) \<Rightarrow> (r, Some s)
      | None \<Rightarrow> (Panicked ''blocked'', None))"

definition gainLeadership ::
    "('d, 'w, 'h, 'ms, 'r, 'wm) dist_env \<Rightarrow> ('d, 't) badger_api \<Rightarrow> 'd db_admin \<Rightarrow> error option \<Rightarrow> invocation
     \<Rightarrow> (('d, 'w, 'h, 'ms, 'r, 'wm) DistributedBadger, unit) proc" where
  "gainLeadership E B A shutdownErr iv s =
     (let s = s\<lparr>ds_leaderChangeNotifier := ChanOpen, ds_listening := True\<rparr> in
      case StartServing (de_marks E) (de_clock E)
             (\<lambda>st. case st of Some s \<Rightarrow> bdb_Get B persistentKey (nd_db s) | None \<Rightarrow> Panicked ''blocked'')
             (\<lambda>cmd. blocking (proposeAndWait E (iv_arrival iv) cmd)) (iv_cid iv) (ds_tso s, Some s) of
        (r, (tso, None)) \<Rightarrow> None
      | (Ok _, (tso, Some s)) \<Rightarrow> Some (Ok (), s\<lparr>ds_tso := tso\<rparr>)
      | (Err e, (tso, Some s)) \<Rightarrow>
          bindP (sure (ds_Close E A shutdownErr)) (\<lambda>_ s. Some (Panicked ''Failed to start TSO server on leadership gain'', s)) (s\<lparr>ds_tso := tso\<rparr>)
      | (Panicked p, (tso, Some s)) \<Rightarrow> Some (Panicked p, s\<lparr>ds_tso := tso\<rparr>))"

definition loseLeadership :: "(('d, 'w, 'h, 'ms, 'r, 'wm) DistributedBadger, unit) proc" where
  "loseLeadership s =
     (let notifier = ds_leaderChangeNotifier s in
      bindP (sure (on_tso tso_Close)) (\<lambda>_ s. Some (Ok (), if notifier \<noteq> ChanNil then s\<lparr>ds_listening := False\<rparr> else s))
        (s\<lparr>ds_leaderChangeNotifier := ChanNil\<rparr>))"

definition onLeaderChange ::
    "('d, 'w, 'h, 'ms, 'r, 'wm) dist_env \<Rightarrow> ('d, 't) badger_api \<Rightarrow> 'd db_admin \<Rightarrow> error option \<Rightarrow> invocation \<Rightarrow> u64 \<Rightarrow> u64
     \<Rightarrow> (('d, 'w, 'h, 'ms, 'r, 'wm) DistributedBadger, unit) proc" where
  "onLeaderChange E B A shutdownErr iv prevLeader newLeader s =
     bindP (if newLeader = nd_id s then gainLeadership E B A shutdownErr iv else retP ()) (\<lambda>_ s.
       if prevLeader = nd_id s then loseLeadership s else Some (Ok (), s)) s"

definition onRemovedSelf :: "(('d, 'w, 'h, 'ms, 'r, 'wm) DistributedBadger, unit) proc" where
  "onRemovedSelf = retP ()"

text \<open>What \<^verbatim>\<open>initDistributed\<close> registers with the node.\<close>

definition ds_hooks ::
    "('d, 'w, 'h, 'ms, 'r, 'wm) dist_env \<Rightarrow> ('d, 't) badger_api \<Rightarrow> 'd db_admin \<Rightarrow> error option \<Rightarrow> invocation
     \<Rightarrow> ('d, 'w, 'h, 'ms, 'r, 'wm) DistributedBadger node_hooks" where
  "ds_hooks E B A shutdownErr iv =
     \<lparr>hk_onLeaderChange = Some (onLeaderChange E B A shutdownErr iv), hk_onRemovedSelf = Some onRemovedSelf\<rparr>"

text \<open>\<open>urlParse\<close> and \<open>rtErr\<close> are what the transport meets when it starts, \<open>w0\<close> is a fresh watermark. When the node does not
  start, the database is closed; the node is not part of the instance yet and is not stopped.\<close>

definition initDistributed ::
    "('d, 'w, 'h, 'ms, 'r, 'wm) dist_env \<Rightarrow> 'd db_admin \<Rightarrow> (string \<Rightarrow> string res) \<Rightarrow> error option \<Rightarrow> 'wm \<Rightarrow> 'd Badger \<Rightarrow> 'set Config \<Rightarrow> 'w
     \<Rightarrow> (('d, 'w, 'h, 'ms, 'r, 'wm) DistributedBadger res \<times> 'w) option" where
  "initDistributed E A urlParse rtErr w0 db cfg disk =
     (case cf_RaftConfig cfg of
        None \<Rightarrow> Some (Panicked nilDeref, disk)
      | Some rc \<Rightarrow>
          (case setOracle db of
             (Panicked p, db) \<Rightarrow> Some (Panicked p, disk)
           | (Err e, db) \<Rightarrow> Some (Err e, disk)
           | (Ok _, db) \<Rightarrow>
               map_option (\<lambda>(r, disk).
                   (case r of
                      Ok node \<Rightarrow> Ok (Node.Node.extend node (DistributedBadger.fields {} ChanNil False (newTSO w0)))
                    | Err e \<Rightarrow> (case fsm_Close A (bg_db db) of (Panicked p, _) \<Rightarrow> Panicked p | _ \<Rightarrow> Err e)
                    | Panicked p \<Rightarrow> Panicked p, disk))
                 (node_Start (de_node E) urlParse rtErr cfg (newNode (rc_ID rc) (rc_Nodename rc) (rc_Peers rc)) (bg_db db) disk)))"

definition NewDistributedBadger ::
    "('d, 'w, 'h, 'ms, 'r, 'wm) dist_env \<Rightarrow> 'd db_admin \<Rightarrow> (string \<Rightarrow> string res) \<Rightarrow> error option \<Rightarrow> 'wm \<Rightarrow> 'w
     \<Rightarrow> 'set Config \<times> 'set desc_store
     \<Rightarrow> (('d, 'w, 'h, 'ms, 'r, 'wm) DistributedBadger res \<times> 'w \<times> ('set Config \<times> 'set desc_store)) option" where
  "NewDistributedBadger E A urlParse rtErr w0 disk st =
     (case cfg_validate True st of
        (Err e, st) \<Rightarrow> Some (Err e, disk, st)
      | (Panicked p, st) \<Rightarrow> Some (Panicked p, disk, st)
      | (Ok _, st) \<Rightarrow>
          (case initBadger A True (fst st) of
             Err e \<Rightarrow> Some (Err e, disk, st)
           | Panicked p \<Rightarrow> Some (Panicked p, disk, st)
           | Ok db \<Rightarrow> map_option (\<lambda>(r, disk). (r, disk, st)) (initDistributed E A urlParse rtErr w0 db (fst st) disk)))"

section \<open>Vocabulary of the properties\<close>

text \<open>Both loops run and nothing waits in the channels.\<close>

definition running :: "('d, 'w, 'h, 'ms, 'r, 'wm) DistributedBadger \<Rightarrow> bool" where
  "running s \<longleftrightarrow> nd_proposing s \<and> ds_listening s \<and> \<not> nd_selfRemoved s \<and> nd_proposeReqNotifier s = [] \<and> nd_proposeRespNotifier s = []"

text \<open>The oracle can hand out a timestamp at once.\<close>

definition can_allocate :: "clock \<Rightarrow> 'wm TSO \<Rightarrow> bool" where
  "can_allocate clk tso \<longleftrightarrow> serving tso \<and> clk (readings tso) < physical (saved tso) \<and> logical (current tso) < MAX_LOGICAL"

text \<open>A call that leaves the log, the peers, the database and the read states alone.\<close>

definition quietP :: "(('d, 'w, 'h, 'ms, 'r, 'wm) DistributedBadger, 'a) proc \<Rightarrow> bool" where
  "quietP f \<longleftrightarrow> (\<forall>s r s'. f s = Some (r, s') \<longrightarrow> quiet s s')"

text \<open>A command with its timestamps.\<close>

definition stamped :: "u64 \<Rightarrow> u64 \<Rightarrow> Command \<Rightarrow> Command" where
  "stamped readTs commitTs cmd = set_CommitTs commitTs (set_ReadTs readTs cmd)"

section \<open>Lemmas\<close>

lemma proposeAndWait_accepted:
  assumes "running s" and "Encode (de_codec E) cmd = Ok b" and "fst (n_Propose (ev_raft (de_node E)) b (nd_n s)) = Ok ()"
  shows "\<exists>s'. proposeAndWait E InTime cmd s = Some (Ok (), s') \<and> nd_n s' = snd (n_Propose (ev_raft (de_node E)) b (nd_n s))
    \<and> nd_db s' = nd_db s \<and> ds_tso s' = ds_tso s \<and> ds_proposals s' = ds_proposals s - {cmd_Id cmd} \<and> running s'"
proof -
  obtain m where m: "n_Propose (ev_raft (de_node E)) b (nd_n s) = (Ok (), m)" using assms(3) by (cases "n_Propose (ev_raft (de_node E)) b (nd_n s)") auto
  show ?thesis using assms(1,2) m
    by (simp add: running_def proposeAndWait_def send_request_def await_answer_def bindP_def sure_def liftR_def retP_def serve_def listenProposeResponses_def loop_takes_def
        propose_select_def on_raft_def send_response_def)
qed

lemma can_allocate_marks [simp]:
  "can_allocate clk (cleanupCommittedTransactions W tso) = can_allocate clk tso"
  "can_allocate clk (doneRead W r tso) = can_allocate clk tso"
  "can_allocate clk (tso\<lparr>readMark := w, readers := rs\<rparr>) = can_allocate clk tso"
  by (simp_all add: can_allocate_def serving_def)

lemma allocate_next:
  assumes "sane_clock clk" and "can_allocate clk tso"
  shows "\<exists>ts tso'. allocate clk tso = Some (ts, tso') \<and> currentReadTs tso < ts"
proof -
  have c: "serving tso" "clk (readings tso) < physical (saved tso)" "logical (current tso) < MAX_LOGICAL"
    using assms(2) by (simp_all add: can_allocate_def)
  then obtain ts tso' where a: "allocate clk tso = Some (ts, tso')" using allocate_returns by blast
  then show ?thesis using allocate_step(1) [OF assms(1) c(1,3) a] by blast
qed

lemma txn_Commit_blind:
  assumes "sane_clock clk" and "can_allocate clk tso" and "\<not> txn_discarded txn" and "cmd_SubCommands (txn_cmd txn) = [sc]" and "txn_reads txn = []"
  shows "\<exists>ts tso'. txn_Commit W clk (txn, tso) = Some (Ok (Some (set_CommitTs ts (txn_cmd txn))),
      (txn\<lparr>txn_cmd := set_CommitTs ts (txn_cmd txn), txn_commitTs := ts, txn_discarded := True\<rparr>, tso')) \<and> currentReadTs tso < ts"
proof -
  let ?t2 = "cleanupCommittedTransactions W (doneRead W (txn_readTs txn) tso)"
  obtain ts t3 where a: "allocate clk ?t2 = Some (ts, t3)" "currentReadTs tso < ts"
    using allocate_next [OF assms(1), of ?t2] assms(2) by (auto simp: currentReadTs_def)
  then show ?thesis
    using assms(3-) by (intro exI [of _ ts]) (simp add: txn_Commit_def tso_Commit_def newCommitTs_def hasConflict_def txn_stamp_def txn_Discard_def MaxBatchSize_def)
qed

lemma BeginTxn_Ok:
  "BeginTxn W None uid cid upd tso = (Ok (newTxn uid cid upd (currentReadTs tso)), snd (ReadTs_acquire W tso))"
  by (simp add: BeginTxn_def ReadTs_def ReadTs_finish_def ReadTs_acquire_def ReadTs_lock_def Let_def)

lemma ReadTs_acquire_oracle [simp]:
  "can_allocate clk (snd (ReadTs_acquire W tso)) = can_allocate clk tso"
  "currentReadTs (snd (ReadTs_acquire W tso)) = currentReadTs tso"
  by (simp_all add: can_allocate_def serving_def ReadTs_acquire_def ReadTs_lock_def ReadTs_begin_def currentReadTs_def Let_def)

lemma running_tso [simp]: "running (s\<lparr>ds_tso := t\<rparr>) = running s"
  by (simp add: running_def)

text \<open>A transaction that buffers one sub-command and reads nothing: the stamped sub-command is what Raft is given.\<close>

lemma proposeTxnSubCommand_accepted:
  fixes s :: "('d, 'w, 'h, 'ms, 'r, 'wm) DistributedBadger"
  defines "r \<equiv> currentReadTs (ds_tso s)"
  assumes "running s" and "sane_clock (de_clock E)" and "can_allocate (de_clock E) (ds_tso s)"
    and "iv_waitErr iv = None" and "iv_arrival iv = InTime"
    and op: "\<And>s'. performOps (newTxn (iv_uid iv) (iv_cid iv) True r, s') = (Ok (), (txn, s'))"
    and txn: "\<not> txn_discarded txn" "cmd_SubCommands (txn_cmd txn) = [sc]" "txn_reads txn = []" "txn_readTs txn = r"
    and enc: "\<And>cts. \<exists>b. Encode (de_codec E) (stamped r cts sc) = Ok b \<and> DecodeCommand (de_codec E) b = Ok (stamped r cts sc)"
    and accept: "\<And>b m. fst (n_Propose (ev_raft (de_node E)) b m) = Ok ()"
  shows "\<exists>cts b s'. proposeTxnSubCommand E iv performOps s = Some (Ok (), s') \<and> r < cts
    \<and> DecodeCommand (de_codec E) b = Ok (stamped r cts sc)
    \<and> nd_n s' = snd (n_Propose (ev_raft (de_node E)) b (nd_n s)) \<and> nd_db s' = nd_db s"
proof -
  let ?t1 = "snd (ReadTs_acquire (de_marks E) (ds_tso s))"
  obtain cts t2 where c: "txn_Commit (de_marks E) (de_clock E) (txn, ?t1) = Some (Ok (Some (set_CommitTs cts (txn_cmd txn))),
      (txn\<lparr>txn_cmd := set_CommitTs cts (txn_cmd txn), txn_commitTs := cts, txn_discarded := True\<rparr>, t2))" and lt: "r < cts"
    using txn_Commit_blind [OF assms(3), of ?t1 txn sc "de_marks E"] assms(4) txn by (auto simp: r_def)
  obtain b where b: "Encode (de_codec E) (stamped r cts sc) = Ok b" "DecodeCommand (de_codec E) b = Ok (stamped r cts sc)" using enc by blast
  obtain s' where p: "proposeAndWait E InTime (stamped r cts sc) (s\<lparr>ds_tso := t2\<rparr>) = Some (Ok (), s')"
    and s': "nd_n s' = snd (n_Propose (ev_raft (de_node E)) b (nd_n s))" "nd_db s' = nd_db s"
    using proposeAndWait_accepted [OF _ b(1), of "s\<lparr>ds_tso := t2\<rparr>"] assms(2) accept by auto
  have "proposeTxnSubCommand E iv performOps s = Some (Ok (), s')"
    using c p op txn assms(5,6)
    by (simp add: proposeTxnSubCommand_def in_txn_def commit_ops_def bindP_def sure_def on_tso_def BeginTxn_Ok txn_Discard_def stamped_def
        flip: r_def)
  then show ?thesis using lt b(2) s' by blast
qed

lemma txn_Set_fresh:
  assumes "key \<noteq> []"
  shows "\<exists>txn. txn_Set sid key v [] (newTxn uid cid True r) = (Ok (), txn) \<and> \<not> txn_discarded txn
    \<and> cmd_SubCommands (txn_cmd txn) = [NewSetCommand sid key v []] \<and> txn_reads txn = [] \<and> txn_readTs txn = r"
  using assms by (simp add: txn_simps)

text \<open>Applying a stamped set on a replica.\<close>

lemma apply_set:
  assumes B: "badger (lib_badger L) True vers txn fit cap" and "cap [(key, Some v)]" and "key \<noteq> []" and "cts \<noteq> 0"
    and "DecodeCommand (lib_codec L) b = Ok (stamped r cts (NewSetCommand sid key v []))"
    and old: "\<forall>(t0, _) \<in> set (vers d). t0 \<le> cts"
  shows "\<exists>d'. fsm_Apply L ctx b d = (Ok (), d')
    \<and> (\<forall>ts k. mvcc_at (vers d') ts k = (if cts \<le> ts \<and> k = key then Some v else mvcc_at (vers d) ts k))"
proof -
  let ?c = "stamped r cts (NewSetCommand sid key v [])"
  have "applyCommand L ctx ?c = applyTransaction L (as_transaction ?c)"
    by (simp add: applyCommand_def applyTransaction_def as_transaction_def subWithTxn_def bindS_retS_right applySet_def stamped_def new_command_defs)
  moreover have "\<exists>d'. applyTransaction L (as_transaction ?c) d = (Ok (), d') \<and> vers d' = map (Pair cts) (rev [(key, Some v)]) @ vers d"
    using badger.applyTransaction_spec [OF B TrueI refl, of "as_transaction ?c" d "[(key, Some v)]"] assms(2-4)
    by (simp add: as_transaction_def stamped_def new_command_defs plain_cmd_def opt_ttl_def sub_spec_def reads_fresh_def reads_key_def)
  ultimately obtain d' where d': "fsm_Apply L ctx b d = (Ok (), d')" "vers d' = map (Pair cts) [(key, Some v)] @ vers d"
    using assms(5) by (auto simp: fsm_Apply_def bindS_def liftR_def)
  have "mvcc_at (vers d') ts k = (if cts \<le> ts \<and> k = key then Some v else mvcc_at (vers d) ts k)" for ts k
    using mvcc_at_later [of ts cts "[(key, Some v)]" "vers d"] mvcc_at_earlier [OF old, of ts "[(key, Some v)]" k] by (cases "ts < cts") (auto simp: d'(2) not_less)
  then show ?thesis using d'(1) by blast
qed

text \<open>Proposing, and with it gaining and losing leadership, leaves the log, the peers and the database alone.\<close>

lemma loop_takes_quiet: "loop_takes N s = Some (r, s') \<Longrightarrow> quiet s s'"
  by (auto simp: loop_takes_def propose_select_def on_raft_def send_response_def bindP_def retP_def quiet_def
      split: list.splits if_splits prod.splits res.splits)

lemma listen_quiet: "listenProposeResponses s = (answers, s') \<Longrightarrow> quiet s s'"
  by (auto simp: listenProposeResponses_def quiet_def split: if_splits)

lemma quietP_bind:
  assumes "quietP m" and "\<And>a. quietP (f a)"
  shows "quietP (bindP m f)"
  unfolding quietP_def
proof (intro allI impI)
  fix s r s' assume b: "bindP m f s = Some (r, s')"
  then obtain q s1 where m: "m s = Some (q, s1)" by (cases "m s") (auto simp: bindP_def)
  then have q1: "quiet s s1" using assms(1) by (auto simp: quietP_def)
  show "quiet s s'"
  proof (cases q)
    case (Ok a)
    then have "f a s1 = Some (r, s')" using b m by (simp add: bindP_def)
    then have "quiet s1 s'" using assms(2) unfolding quietP_def by blast
    with q1 show ?thesis by (rule quiet_trans)
  qed (use b m q1 in \<open>auto simp: bindP_def\<close>)
qed

lemma quietP_loop_takes: "quietP (loop_takes N)"
  using loop_takes_quiet unfolding quietP_def by blast

lemma quietP_serve: "quietP (serve N)"
  unfolding quietP_def
proof (intro allI impI)
  fix s r s' assume v: "serve N s = Some (r, s')"
  obtain a s1 where l: "listenProposeResponses s = (a, s1)" by fastforce
  have "quietP (\<lambda>s. case listenProposeResponses s of (later, s) \<Rightarrow> Some (Ok (a @ later), s))"
    using listen_quiet by (auto simp: quietP_def split: prod.splits)
  then have "quietP (bindP (loop_takes N) (\<lambda>_ s. case listenProposeResponses s of (later, s) \<Rightarrow> Some (Ok (a @ later), s)))"
    by (intro quietP_bind quietP_loop_takes)
  then have "quiet s1 s'" using v l unfolding quietP_def serve_def by auto
  with listen_quiet [OF l] show "quiet s s'" by (rule quiet_trans)
qed

lemma quietP_if: "quietP f \<Longrightarrow> quietP g \<Longrightarrow> quietP (if c then f else g)" and quietP_ret: "quietP (retP a)"
  and quietP_lift: "quietP (sure (liftR x))"
  by (simp_all add: quietP_def retP_def sure_def liftR_def)

lemma quietP_send_request: "quietP (send_request N p)"
proof -
  have "quietP (\<lambda>s. if nd_proposeReqNotifier s \<noteq> [] then None else Some (Ok (), s\<lparr>nd_proposeReqNotifier := [p]\<rparr>))"
    by (simp add: quietP_def quiet_def)
  then have "quietP (bindP (if c then serve N else retP []) (\<lambda>_ s.
       if nd_proposeReqNotifier s \<noteq> [] then None else Some (Ok (), s\<lparr>nd_proposeReqNotifier := [p]\<rparr>)))" for c
    by (intro quietP_bind quietP_if quietP_serve quietP_ret)
  then show ?thesis unfolding send_request_def [abs_def] quietP_def by blast
qed

lemma quietP_await_answer: "quietP (await_answer N arrival cmdID)"
proof -
  have "quietP (\<lambda>s. Some (f s, s\<lparr>ds_proposals := ds_proposals s - {cmdID}\<rparr>))" for f by (simp add: quietP_def quiet_def)
  then show ?thesis unfolding await_answer_def by (intro quietP_bind quietP_if quietP_serve quietP_ret)
qed

lemma quietP_proposeAndWait: "quietP (proposeAndWait E arrival cmd)"
proof -
  have "quietP (\<lambda>s. Some (Ok (), s\<lparr>ds_proposals := insert i (ds_proposals s)\<rparr>))" for i by (simp add: quietP_def quiet_def)
  then show ?thesis unfolding proposeAndWait_def
    by (intro quietP_bind quietP_lift quietP_send_request quietP_await_answer)
qed

lemma StartServing_database:
  assumes "StartServing W clk get prop cid (tso, d) = (r, (tso', d'))"
  shows "d' = d \<or> (\<exists>cmd r'. prop cmd d = (r', d'))"
  using assms
  by (auto simp: StartServing_def persistUpperboundOnStartup_def Let_def split: res.splits prod.splits)

lemma gainLeadership_quiet:
  assumes "gainLeadership E B A shutdownErr iv s = Some (Ok u, s')"
  shows "quiet s s'"
proof -
  let ?s = "s\<lparr>ds_leaderChangeNotifier := ChanOpen, ds_listening := True\<rparr>"
  obtain r tso st where st: "StartServing (de_marks E) (de_clock E)
      (\<lambda>st. case st of Some s \<Rightarrow> bdb_Get B persistentKey (nd_db s) | None \<Rightarrow> Panicked ''blocked'')
      (\<lambda>cmd. blocking (proposeAndWait E (iv_arrival iv) cmd)) (iv_cid iv) (ds_tso ?s, Some ?s) = (r, (tso, st))"
    by (metis prod_cases3)
  then obtain s1 where s1: "st = Some s1" "s' = s1\<lparr>ds_tso := tso\<rparr>"
    using assms by (auto simp: gainLeadership_def Let_def bindP_def split: option.splits res.splits prod.splits)
  have "s1 = ?s \<or> (\<exists>cmd r'. proposeAndWait E (iv_arrival iv) cmd ?s = Some (r', s1))"
    using StartServing_database [OF st] s1(1) by (auto simp: blocking_def split: option.splits)
  then have "quiet ?s s1" using quietP_proposeAndWait [unfolded quietP_def] quiet_refl by blast
  then show ?thesis by (simp add: s1(2) quiet_def)
qed

lemma ds_hooks_calm: "calm_hooks (ds_hooks E B A shutdownErr iv)"
proof -
  have lose: "loseLeadership s = Some (r, s') \<Longrightarrow> quiet s s'" for s s' :: "('a, 'b, 'c, 'd, 'e, 'f) DistributedBadger" and r
    by (auto simp: loseLeadership_def on_tso_def bindP_def sure_def quiet_def Let_def split: prod.splits res.splits)
  have "onLeaderChange E B A shutdownErr iv prev new s = Some (Ok u, s') \<Longrightarrow> quiet s s'" for prev new s u s'
    unfolding onLeaderChange_def bindP_Ok_iff
    using gainLeadership_quiet lose quiet_trans by (fastforce split: if_splits)
  then show ?thesis by (auto simp: calm_hooks_def ds_hooks_def onRemovedSelf_def)
qed

text \<open>A read state that is left in the channel ends any wait.\<close>

lemma waitForReadState_any:
  assumes "nd_readStatesNotifier s = rs # rest" and "n_ReadIndex (ev_raft N) (key_bytes key) (nd_n s) = (Ok (), m)"
  shows "waitForReadState N ended key s = (Ok (), s\<lparr>nd_n := m, nd_readStatesNotifier := rest\<rparr>)"
  using assms by (simp add: waitForReadState_def ReadIndex_def WaitForReadState_def on_raft_def call_simps)

lemma waitForReadState_none:
  assumes "nd_readStatesNotifier s = []" and "n_ReadIndex (ev_raft N) (key_bytes key) (nd_n s) = (Ok (), m)"
  shows "waitForReadState N ended key s = (Err ended, s\<lparr>nd_n := m\<rparr>)"
  using assms by (simp add: waitForReadState_def ReadIndex_def WaitForReadState_def on_raft_def call_simps)

lemma ds_GetWithTxn_buffers:
  assumes "ds_GetWithTxn B N ended key (txn, s) = (r, (txn', s'))"
  shows "txn_discarded txn' = txn_discarded txn" "txn_writes txn' = txn_writes txn" "txn_cmd txn' = txn_cmd txn"
  using assms by (auto simp: ds_GetWithTxn_def on_txn_def GetWithTxn_def addReadKey_def split: prod.splits res.splits option.splits)

section \<open>A store in memory\<close>

definition demo_set :: "u64 \<Rightarrow> u64 \<Rightarrow> Command" where
  "demo_set r cts = stamped r cts (NewSetCommand ''s'' ''k'' [7] [])"

text \<open>A codec for the stamped set, which writes its timestamps.\<close>

definition demo_codec :: cmd_codec where
  "demo_codec = \<lparr>codec_Marshal = (\<lambda>c. Ok (enc_words [cmd_ReadTs c, cmd_CommitTs c])),
     codec_Unmarshal = (\<lambda>b. Ok (demo_set (dec_words b ! 0) (dec_words b ! 1)))\<rparr>"

text \<open>A Raft that records what is proposed.\<close>

definition log_raft :: "(bytes list, 'ms, 'w, 'h) raft_node" where
  "log_raft = \<lparr>n_StartNode = (\<lambda>_ _ _. []), n_RestartNode = (\<lambda>_ _. []), n_Tick = (\<lambda>r. r), n_Propose = (\<lambda>b r. (Ok (), r @ [b])),
     n_ProposeConfChange = (\<lambda>_. retS ()), n_ApplyConfChange = (\<lambda>_ r. (emptyConfState, r)), n_ReadIndex = (\<lambda>_. retS ()),
     n_Step = (\<lambda>_. retS ()), n_ReportUnreachable = (\<lambda>_ r. r), n_ReportSnapshot = (\<lambda>_ _ r. r), n_Advance = (\<lambda>r. r), n_Stop = (\<lambda>r. r),
     n_Lead = (\<lambda>_. 0)\<rparr>"

definition mem_libs :: "(mvcc, mem_txn, unit, bytes, unit, string list, string list, string) libs" where
  "mem_libs = demo_libs\<lparr>lib_codec := demo_codec\<rparr>"

definition mem_node_env :: "(mvcc, journal, unit, list_mem, bytes list) node_env" where
  "mem_node_env = \<lparr>ev_fsm = fsm_of mem_libs mem_backup ctx_background, ev_wal = journal_api, ev_mem = list_memory, ev_raft = log_raft,
     ev_codec = word_codec, ev_newURLs = demo_urls\<rparr>"

definition mem_env :: "(mvcc, journal, unit, list_mem, bytes list, mark_state) dist_env" where
  "mem_env = \<lparr>de_node = mem_node_env, de_codec = demo_codec, de_marks = list_watermark, de_clock = demo_clock\<rparr>"

definition mem_store :: "(mvcc, journal, unit, list_mem, bytes list, mark_state) DistributedBadger" where
  "mem_store = \<lparr>nd_id = 1, nd_name = ''n1'', nd_peers = [(1, ''a'')], nd_n = [], nd_storage = demo_first, nd_transport = NewTransport 1 [(1, ''a'')],
     nd_db = [(3, ''k'', Some [3])], nd_cluster = \<lparr>cl_GetID = 7, cl_GetName = ''c'', cl_IsNodeRemoved = (\<lambda>_. False)\<rparr>, nd_confState = emptyConfState,
     nd_appliedIndex = 0, nd_lead = 1, nd_selfRemoved = False, nd_proposeReqNotifier = [], nd_proposeRespNotifier = [],
     nd_readStatesNotifier = [], nd_fatal = None, nd_proposing = True, nd_snapshots = 0,
     ds_proposals = {}, ds_leaderChangeNotifier = ChanOpen, ds_listening = True, ds_tso = demo_tso\<rparr>"

definition demo_call :: invocation where
  "demo_call = \<lparr>iv_waitErr = None, iv_uid = ''u'', iv_cid = ''t'', iv_sid = ''s'', iv_arrival = InTime\<rparr>"

lemma demo_tso_can_allocate: "can_allocate demo_clock demo_tso"
  using demo_tso_serving by (simp add: can_allocate_def demo_tso_def newTSO_def demo_clock_def MAX_LOGICAL_def)

section \<open>Properties\<close>



text \<open>C39: a transaction that only reads makes the leader panic: the commit has no command to propose, and
  \<^verbatim>\<open>NewTransaction\<close> dereferences the \<^verbatim>\<open>nil\<close> it gets instead.\<close>

theorem read_only_transaction_panics:
  assumes "isLeader s" and "iv_waitErr iv = None"
    and "performOps (newTxn (iv_uid iv) (iv_cid iv) True (currentReadTs (ds_tso s)), s\<lparr>ds_tso := snd (ReadTs_acquire (de_marks E) (ds_tso s))\<rparr>)
      = (Ok (), (txn, s1))"
    and "\<not> txn_discarded txn" and "txn_writes txn = []" and "cmd_SubCommands (txn_cmd txn) = []"
  shows "\<exists>s'. NewTransaction E iv performOps s = Some (Panicked nilDeref, s')"
  using assms
  by (simp add: NewTransaction_def in_txn_def commit_ops_def bindP_def sure_def on_tso_def BeginTxn_Ok txn_Commit_def txn_Discard_def)

theorem read_only_transaction_panics_witness:
  "\<exists>s'. NewTransaction mem_env demo_call (\<lambda>st. case ds_GetWithTxn (mem_badger True) mem_node_env (ErrText ''read state timeout'') ''k'' st of
        (r, st') \<Rightarrow> (Ok (), st')) (mem_store\<lparr>nd_readStatesNotifier := [\<lparr>rs_Index = 0, rs_RequestCtx = []\<rparr>]\<rparr>) = Some (Panicked nilDeref, s')"
proof -
  let ?s = "mem_store\<lparr>nd_readStatesNotifier := [\<lparr>rs_Index = 0, rs_RequestCtx = []\<rparr>]\<rparr>"
  let ?txn = "newTxn ''u'' ''t'' True (currentReadTs demo_tso)"
  obtain r txn s1 where g: "ds_GetWithTxn (mem_badger True) mem_node_env (ErrText ''read state timeout'') ''k''
      (?txn, ?s\<lparr>ds_tso := snd (ReadTs_acquire list_watermark demo_tso)\<rparr>) = (r, (txn, s1))" by (metis prod_cases3)
  note k = ds_GetWithTxn_buffers [OF g]
  show ?thesis
    by (rule read_only_transaction_panics [where txn = txn and ?s1.0 = s1])
      (use g k in \<open>simp_all add: mem_env_def mem_store_def demo_call_def isLeader_def IsLeader_def newTxn_def new_command_defs\<close>)
qed

text \<open>C40: a read that waits can be answered with the read state of another request. After a read of \<open>key1\<close> has
  run into its timeout, the answer of Raft to it stays in the channel, and the next read, of any key, takes it: it
  returns what the local database holds, whatever Raft would answer to its own request.\<close>

theorem read_takes_foreign_state:
  assumes "nd_readStatesNotifier s = []" and "n_ReadIndex (ev_raft N) (key_bytes key1) (nd_n s) = (Ok (), m1)"
    and "rs = \<lparr>rs_Index = i, rs_RequestCtx = key_bytes key1\<rparr>" and "i \<le> nd_appliedIndex s"
    and "n_ReadIndex (ev_raft N) (key_bytes key2) m1 = (Ok (), m2)"
  shows "\<exists>s1 s2 s3. ds_Get B N ended key1 s = (Err ended, s1) \<and> respondToReadStates [rs] s1 = Some (Ok [], s2)
    \<and> ds_Get B N ended key2 s2 = (bdb_Get B key2 (nd_db s), s3)"
  using assms
  by (simp add: ds_Get_def getVal_def call_simps waitForReadState_none waitForReadState_any respondToReadStates_def bindP_def retP_def
      send_readState_def readStatesCap_def)

theorem read_takes_foreign_state_witness:
  "\<exists>s1 s2 s3. ds_Get (mem_badger True) mem_node_env (ErrText ''read state timeout'') ''a'' mem_store = (Err (ErrText ''read state timeout''), s1)
    \<and> respondToReadStates [\<lparr>rs_Index = 0, rs_RequestCtx = key_bytes ''a''\<rparr>] s1 = Some (Ok [], s2)
    \<and> ds_Get (mem_badger True) mem_node_env (ErrText ''read state timeout'') ''k'' s2 = (bdb_Get (mem_badger True) ''k'' (nd_db mem_store), s3)"
  by (rule read_takes_foreign_state) (simp_all add: mem_store_def mem_node_env_def log_raft_def retS_def)

end
