(* ===== verification/Spec2Isabelle.thy ===== *)
theory Spec2Isabelle
  imports Txn_System Etcd_Snap Distributed
begin

text \<open>
  Verification of omashu, a key-value store that runs embedded in a Go program: on one machine (\<^verbatim>\<open>Badger\<close>) or
  replicated over a Raft cluster with transactions (\<^verbatim>\<open>DistributedBadger\<close>). File names are relative to \<^verbatim>\<open>src/\<close>.

  \<^bold>\<open>The program.\<close> A client of the replicated store calls \<^verbatim>\<open>distributed.go\<close>. A write runs in a transaction
  (\<^verbatim>\<open>txn.go\<close>) that takes its timestamps from the oracle of the leader (\<^verbatim>\<open>tso.go\<close>), becomes a \<^verbatim>\<open>Command\<close>
  (\<^verbatim>\<open>types/\<close>) and goes through the propose loop of the Raft node (\<^verbatim>\<open>node.go\<close>). The ready loop of every node
  makes what Raft hands out durable (\<^verbatim>\<open>storage.go\<close>, \<^verbatim>\<open>wal.go\<close>, the vendored etcd log), sends messages
  (\<^verbatim>\<open>transport.go\<close>, the vendored \<^verbatim>\<open>rafthttp\<close>) and applies committed entries to the state machine
  (\<^verbatim>\<open>fsm.go\<close>, \<^verbatim>\<open>replication.go\<close>), which writes the local store (\<^verbatim>\<open>badger.go\<close>). A read asks Raft for a read index
  and waits until the local database has caught up.

  \<^bold>\<open>Conventions.\<close> A Go call is a function from the state it changes to its outcome and the new state; the outcome is
  a value, an error or a panic (\<open>res\<close> of \<open>Prelude\<close>). Where a loop or a channel operation may never return, the call is
  optional and \<^const>\<open>None\<close> means that it does not return. Structs are records, \<^verbatim>\<open>uint64\<close> and \<^verbatim>\<open>int64\<close> are words of
  64 bits. One-line setters and getters are record updates and selectors. Log output is left out. Goroutines are
  explicit: a loop takes the list of the events its \<^verbatim>\<open>select\<close> receives, and a waiting operation takes what the other
  goroutines do in the meantime. Library code outside \<^verbatim>\<open>src/\<close> is a parameter, a record of operations; a locale states the
  documented behaviour that is relied on, and every locale is interpreted.

  \<^bold>\<open>Theories.\<close>
  \<^item> \<open>Prelude\<close>, \<open>Utils\<close>, \<open>Types\<close>: results and their composition, \<^verbatim>\<open>utils/utils.go\<close>, and the commands with the merge of
    Protobuf messages (\<^verbatim>\<open>types/methods.go\<close>, \<^verbatim>\<open>types/dynamic.go\<close>).
  \<^item> \<open>Watermark\<close>, \<open>Tso\<close>: BadgerDB's watermark as a contract; the oracle, on an explicit sequence of clock readings.
    Timestamps increase, stay below the persisted bound, and continue above it after a change of leader; cleaning up
    committed transactions keeps every conflict that can still matter. Lemmas on the faulty paths show the overflow of
    the logical counter, the oracle that blocks after an idle period, and the leaking read marks.
  \<^item> \<open>Txn\<close>, \<open>Txn_System\<close>: one transaction and its outcome on every branch; then all interleavings of the transactions of
    a leadership term as a step relation, with the invariant that makes the committed history serializable.
  \<^item> \<open>Badger_Api\<close>, \<open>Badger_Store\<close>, \<open>Store\<close>: BadgerDB as a contract of multi-version storage with an instance in memory;
    \<^verbatim>\<open>badger.go\<close> on it: reads, writes, counters, prefix scans and pages against a plain map of keys; opening, closing and garbage
    collection.
  \<^item> \<open>Fsm\<close>: \<^verbatim>\<open>fsm.go\<close> and \<^verbatim>\<open>replication.go\<close>: an entry takes effect as a whole at its commit timestamp or not at all.
  \<^item> \<open>Raft_Types\<close>, \<open>Transport\<close>: the data shared with Raft, the in-memory log of Raft as a contract; \<^verbatim>\<open>transport.go\<close> with the
    peer table of \<^verbatim>\<open>rafthttp\<close>.
  \<^item> \<open>Walpb\<close>, \<open>Etcd_Codec\<close>: the vendored encoding of log records and snapshot files, and the framing of the log with
    its page writer and running checksums; encoding and decoding are inverse, and a reader of a stream gets the records
    that were written.
  \<^item> \<open>Os_Files\<close>, \<open>Etcd_Snap\<close>: files with system calls that may fail, the vendored file helpers and hexadecimal names; on them the
    vendored snapshotter, which loads the newest saved snapshot that the log knows.
  \<^item> \<open>Wal\<close>, \<open>Storage\<close>: \<^verbatim>\<open>wal.go\<close> and \<^verbatim>\<open>storage.go\<close> over a contract for the log files that distinguishes what was written from
    what survives a crash; a restart gives back what was saved, and a snapshot marker is never without its file.
  \<^item> \<open>Config\<close>: \<^verbatim>\<open>config.go\<close>, validation and defaults.
  \<^item> \<open>Node\<close>, \<open>Replica\<close>, \<open>Recovery\<close>: \<^verbatim>\<open>node.go\<close> and its two loops; state is durable before its effects are visible, the
    database is the committed log applied up to the applied index, readers are woken when it has caught up;
    applying entries again after a restart is harmless for transactions that do not read.
  \<^item> \<open>Distributed\<close>: \<^verbatim>\<open>distributed.go\<close> and \<^verbatim>\<open>store.go\<close>: every operation of the replicated store, the leader-change hooks,
    start-up and shutdown; a write reaches the database of every replica.
  \<^item> This theory: two members of a cluster agree, which combines the hooks of the store, the ready loop and the state
    machine.

  \<^bold>\<open>Bounds.\<close> No fuel is used. The waiting loops of the oracle and the garbage-collection rounds are partial functions into
  \<^typ>\<open>'a option\<close>, and the theorems that they return state under which clock or database they do. The channel of read states
  has the capacity of the code, two.

  \<^bold>\<open>Not modelled.\<close> The etcd files that manage directories, locks and preallocation around the encoder
  (\<^verbatim>\<open>wal/wal.go\<close> and its helpers): mostly system calls; the contract \<open>etcd_log\<close> of \<open>Wal\<close> says what the
  program relies on. The connections of \<^verbatim>\<open>rafthttp\<close> and the HTTP server: network input and output. \<^verbatim>\<open>logger.go\<close>: pure output.
  \<^verbatim>\<open>static_dep_check.go\<close>: compile-time only. The accessors and descriptors of \<^verbatim>\<open>types.pb.go\<close>: generated tables. The rest of the
  vendored etcd tree: the program does not call it. Raft, BadgerDB, the Protobuf runtime and JSON are libraries outside the
  repository. Entries with a time to live are carried through to the store, but BadgerDB's expiry is outside the contract.
\<close>

section \<open>Two members of a cluster\<close>

definition agree_node_env :: "(mvcc, journal, unit, list_mem, bytes list) node_env" where
  "agree_node_env = mem_node_env\<lparr>ev_fsm := fsm_of replay_libs mem_backup ctx_background\<rparr>"

definition agree_env :: "(mvcc, journal, unit, list_mem, bytes list, mark_state) dist_env" where
  "agree_env = mem_env\<lparr>de_node := agree_node_env\<rparr>"

definition agree_log :: "Entry list" where
  "agree_log = [demo_entry 1 1, demo_entry 1 2]"

definition agree_ready :: "nat \<Rightarrow> nat \<Rightarrow> ready_event" where
  "agree_ready j k = EvReady ((demo_ready [] 0 1 2)\<lparr>rd_CommittedEntries := take k (drop j agree_log)\<rparr>)"

definition agree_hooks :: "(mvcc, journal, unit, list_mem, bytes list, mark_state) DistributedBadger node_hooks" where
  "agree_hooks = ds_hooks agree_env (mem_badger True) \<lparr>da_Open = (\<lambda>_ _. Ok []), da_Close = retS (), da_SetDiscardTs = (\<lambda>_ d. d),
     da_RunValueLogGC = (\<lambda>_. failS (ErrText ''no rewrite'')), da_Size = (\<lambda>_. (0, 0))\<rparr> None demo_call"

section \<open>Properties\<close>



end
